(* ===== verification/Store_Prelude.thy ===== *)
theory Store_Prelude
  imports Main "HOL-Library.Word" "HOL-Library.AList" "HOL-Library.List_Lexorder"
    "HOL-Library.Char_ord" "HOL-Library.Multiset"
begin

text \<open>
  Shared vocabulary of the development: machine integers, the containers the Rust code
  uses, and the generic lemmas on them.

  \<^item> \<open>u8\<close> to \<open>u64\<close> are words of their width; arithmetic wraps as in a Rust release build.
  \<^item> A \<open>HashSet\<close> is a list without duplicates, a \<open>HashMap\<close> (and a \<open>DashMap\<close>) an
    association list with distinct keys: the list is the table in its iteration order,
    which Rust leaves unspecified. New keys are appended. Results that depend on the
    order only through the set of entries are stated with \<^const>\<open>set\<close> or \<^const>\<open>map_of\<close>.
  \<^item> A \<open>BTreeMap\<close> and a \<open>crossbeam_skiplist::SkipMap\<close> are association lists with
    strictly increasing keys, the order in which their iterators yield the entries.
  \<^item> The locales \<open>dictionary\<close> and \<open>ordered_dictionary\<close> state what the program relies on
    of such a container; both containers are interpretations, and the facts about
    last-write-wins updates and about reading in pages are proved once, in the locales.
\<close>

section \<open>Machine integers and option helpers\<close>

type_synonym u8 = "8 word"
type_synonym u16 = "16 word"
type_synonym u32 = "32 word"
type_synonym u64 = "64 word"
type_synonym i32 = "32 word"

named_theorems store_simps \<open>facts on the containers, used by the component proofs\<close>

text \<open>Rust's \<open>u64::checked_add\<close> and \<open>u64::saturating_add\<close>.\<close>

definition checked_add :: "u64 \<Rightarrow> u64 \<Rightarrow> u64 option" where
  "checked_add a b = (if unat a + unat b < 2 ^ 64 then Some (a + b) else None)"

definition saturating_add :: "u64 \<Rightarrow> u64 \<Rightarrow> u64" where
  "saturating_add a b = (if unat a + unat b < 2 ^ 64 then a + b else - 1)"

text \<open>Rust compares \<open>Option<u64>\<close> with \<open>None\<close> below every \<open>Some\<close>.\<close>

fun opt_less :: "u64 option \<Rightarrow> u64 option \<Rightarrow> bool" where
  "opt_less None None = False"
| "opt_less None (Some _) = True"
| "opt_less (Some _) None = False"
| "opt_less (Some a) (Some b) = (a < b)"

section \<open>Hash sets and hash maps\<close>

type_synonym 'a hash_set = "'a list"
type_synonym ('k, 'v) hash_map = "('k \<times> 'v) list"

definition hs_insert :: "'a \<Rightarrow> 'a hash_set \<Rightarrow> 'a hash_set" where
  "hs_insert x s = (if x \<in> set s then s else s @ [x])"

definition hs_remove :: "'a \<Rightarrow> 'a hash_set \<Rightarrow> 'a hash_set" where
  "hs_remove x s = filter (\<lambda>y. y \<noteq> x) s"

definition hs_extend :: "'a hash_set \<Rightarrow> 'a list \<Rightarrow> 'a hash_set" where
  "hs_extend s xs = fold hs_insert xs s"

abbreviation hs_collect :: "'a list \<Rightarrow> 'a hash_set" where
  "hs_collect xs \<equiv> hs_extend [] xs"

definition hs_eq :: "'a hash_set \<Rightarrow> 'a hash_set \<Rightarrow> bool" where
  "hs_eq s t \<longleftrightarrow> set s = set t"

abbreviation hm_get :: "('k, 'v) hash_map \<Rightarrow> 'k \<Rightarrow> 'v option" where
  "hm_get \<equiv> map_of"

abbreviation hm_insert :: "'k \<Rightarrow> 'v \<Rightarrow> ('k, 'v) hash_map \<Rightarrow> ('k, 'v) hash_map" where
  "hm_insert \<equiv> AList.update"

abbreviation hm_remove :: "'k \<Rightarrow> ('k, 'v) hash_map \<Rightarrow> ('k, 'v) hash_map" where
  "hm_remove \<equiv> AList.delete"

abbreviation hm_update :: "'k \<Rightarrow> ('v \<Rightarrow> 'v) \<Rightarrow> ('k, 'v) hash_map \<Rightarrow> ('k, 'v) hash_map" where
  "hm_update \<equiv> AList.map_entry"

abbreviation hm_keys :: "('k, 'v) hash_map \<Rightarrow> 'k list" where
  "hm_keys m \<equiv> map fst m"

abbreviation hm_wf :: "('k, 'v) hash_map \<Rightarrow> bool" where
  "hm_wf m \<equiv> distinct (map fst m)"

definition hm_retain :: "('k \<Rightarrow> 'v \<Rightarrow> bool) \<Rightarrow> ('k, 'v) hash_map \<Rightarrow> ('k, 'v) hash_map" where
  "hm_retain P m = filter (\<lambda>(k, v). P k v) m"

text \<open>\<open>entry(k).or_default()\<close>: the value under the key, the default where it is absent.\<close>

definition hm_or_default :: "'v \<Rightarrow> 'k \<Rightarrow> ('k, 'v) hash_map \<Rightarrow> 'v" where
  "hm_or_default d k m = (case hm_get m k of Some v \<Rightarrow> v | None \<Rightarrow> d)"

text \<open>\<open>HashMap::eq\<close>: the same keys, each with equal values.\<close>

definition hm_eq :: "('v \<Rightarrow> 'v \<Rightarrow> bool) \<Rightarrow> ('k, 'v) hash_map \<Rightarrow> ('k, 'v) hash_map \<Rightarrow> bool" where
  "hm_eq e m n \<longleftrightarrow> set (hm_keys m) = set (hm_keys n) \<and>
     list_all (\<lambda>(k, v). (case hm_get n k of Some w \<Rightarrow> e v w | None \<Rightarrow> False)) m"

subsection \<open>Lemmas\<close>

lemma set_hs_insert [simp, store_simps]: "set (hs_insert x s) = insert x (set s)"
  by (auto simp: hs_insert_def)

lemma distinct_hs_insert [simp]: "distinct (hs_insert x s) = distinct s"
  by (auto simp: hs_insert_def)

lemma set_hs_remove [simp, store_simps]: "set (hs_remove x s) = set s - {x}"
  by (auto simp: hs_remove_def)

lemma distinct_hs_remove [simp]: "distinct s \<Longrightarrow> distinct (hs_remove x s)"
  by (simp add: hs_remove_def)

lemma set_hs_extend [simp, store_simps]: "set (hs_extend s xs) = set s \<union> set xs"
  unfolding hs_extend_def by (induction xs arbitrary: s) auto

lemma distinct_hs_extend [simp]: "distinct (hs_extend s xs) = distinct s"
  unfolding hs_extend_def by (induction xs arbitrary: s) auto

lemma hs_extend_fresh:
  "distinct xs \<Longrightarrow> set s \<inter> set xs = {} \<Longrightarrow> hs_extend s xs = s @ xs"
  unfolding hs_extend_def
  by (induction xs arbitrary: s) (auto simp: hs_insert_def)

lemma hs_collect_distinct [simp]: "distinct xs \<Longrightarrow> hs_collect xs = xs"
  by (simp add: hs_extend_fresh)

lemma hm_keys_get: "k \<in> fst ` set m \<longleftrightarrow> hm_get m k \<noteq> None"
  by (simp add: map_of_eq_None_iff)

lemma hm_get_insert [simp, store_simps]: "hm_get (hm_insert k v m) = (hm_get m)(k \<mapsto> v)"
  by (rule update_conv')

lemma hm_get_remove [simp, store_simps]: "hm_get (hm_remove k m) = (hm_get m)(k := None)"
  by (rule delete_conv')

lemma hm_get_update [simp, store_simps]:
  "hm_get (hm_update k f m) k' = (if k' = k then map_option f (hm_get m k) else hm_get m k')"
  by (induction m) auto

lemma hm_keys_update [simp, store_simps]: "hm_keys (hm_update k f m) = hm_keys m"
  by (induction m) auto

lemma fst_set_update [simp]: "fst ` set (hm_update k f m) = fst ` set m"
  by (rule dom_map_entry)

lemma length_hm_update [simp]: "length (hm_update k f m) = length m"
  by (induction m) auto

lemma hm_update_insert [simp]: "hm_update k f (hm_insert k v m) = hm_insert k (f v) m"
  by (induction m) auto

lemma hm_get_fold_insert:
  "inj_on f (set xs) \<Longrightarrow> x \<in> set xs \<Longrightarrow>
   hm_get (fold (\<lambda>x. hm_insert (f x) (g x)) xs m) (f x) = Some (g x)"
proof (induction xs rule: rev_induct)
  case (snoc y xs)
  then show ?case by (cases "x = y") (auto simp: inj_on_def)
qed simp

lemma hm_get_fold_insert_other:
  "k \<notin> f ` set xs \<Longrightarrow> hm_get (fold (\<lambda>x. hm_insert (f x) (g x)) xs m) k = hm_get m k"
  by (induction xs rule: rev_induct) auto

lemma hm_wf_fold_insert: "hm_wf m \<Longrightarrow> hm_wf (fold (\<lambda>x. hm_insert (f x) (g x)) xs m)"
  by (induction xs arbitrary: m) (simp_all add: distinct_update)

lemma hm_wf_insert [simp]: "hm_wf m \<Longrightarrow> hm_wf (hm_insert k v m)"
  by (rule distinct_update)

lemma hm_wf_remove [simp]: "hm_wf m \<Longrightarrow> hm_wf (hm_remove k m)"
  by (rule distinct_delete)

lemma fst_set_insert [simp]: "fst ` set (hm_insert k v m) = insert k (fst ` set m)"
  by (simp add: dom_update)

lemma fst_set_remove [simp]: "fst ` set (hm_remove k m) = fst ` set m - {k}"
  by (auto simp: AList.delete_eq image_iff)

lemma hm_wf_retain [simp]: "hm_wf m \<Longrightarrow> hm_wf (hm_retain P m)"
  by (simp add: hm_retain_def distinct_map_filter)

lemma hm_get_retain:
  assumes "hm_wf m"
  shows "hm_get (hm_retain P m) k =
    (case hm_get m k of Some v \<Rightarrow> if P k v then Some v else None | None \<Rightarrow> None)"
  using assms
proof (induction m)
  case Nil
  then show ?case by (simp add: hm_retain_def)
next
  case (Cons e m)
  then show ?case
    by (cases e) (auto simp: hm_retain_def map_of_eq_None_iff split: option.splits)
qed

lemma hm_get_retain_keys [simp, store_simps]:
  "hm_get (hm_retain (\<lambda>k _. P k) m) k = (if P k then hm_get m k else None)"
  by (induction m) (auto simp: hm_retain_def)

lemma set_hm_retain [simp]: "set (hm_retain P m) = {e \<in> set m. P (fst e) (snd e)}"
  by (auto simp: hm_retain_def)

lemma hm_get_Some_set: "hm_wf m \<Longrightarrow> hm_get m k = Some v \<longleftrightarrow> (k, v) \<in> set m"
  by (simp add: Some_eq_map_of_iff)

lemma hm_get_map_values: "hm_get (map (\<lambda>(k, v). (k, f k v)) m) k = map_option (f k) (hm_get m k)"
  by (induction m) auto

lemma hm_keys_map_values [simp]: "map fst (map (\<lambda>(k, v). (k, f k v)) m) = hm_keys m"
  by (induction m) auto

lemma hm_all_iff: "hm_wf m \<Longrightarrow> list_all (\<lambda>(k, v). P k v) m \<longleftrightarrow> (\<forall>k v. hm_get m k = Some v \<longrightarrow> P k v)"
  by (auto simp: list_all_iff hm_get_Some_set)

lemma unat_add_u64: "unat (a::u64) + unat b < 2 ^ 64 \<Longrightarrow> unat (a + b) = unat a + unat b"
  by (simp add: unat_word_ariths)

lemma unat_succ_u64: "unat (n::u64) + 1 < 2 ^ 64 \<Longrightarrow> unat (n + 1) = unat n + 1"
  using unat_add_u64 [of n 1] by simp

lemma less_succ_u64: "unat (n::u64) + 1 < 2 ^ 64 \<Longrightarrow> n < n + 1"
  by (simp add: word_less_nat_alt unat_succ_u64)

lemma opt_less_trans: "opt_less a b \<Longrightarrow> opt_less b c \<Longrightarrow> opt_less a c"
  by (cases a; cases b; cases c) auto

lemma opt_less_Some [simp]:
  "opt_less x (Some e) \<longleftrightarrow> (case x of None \<Rightarrow> True | Some a \<Rightarrow> a < e)"
  by (cases x) auto

section \<open>Ordered maps\<close>

abbreviation sm_wf :: "('k::linorder \<times> 'v) list \<Rightarrow> bool" where
  "sm_wf m \<equiv> sorted_wrt (<) (map fst m)"

fun sm_insert :: "'k::linorder \<Rightarrow> 'v \<Rightarrow> ('k \<times> 'v) list \<Rightarrow> ('k \<times> 'v) list" where
  "sm_insert k v [] = [(k, v)]"
| "sm_insert k v (e # m) =
     (if k = fst e then (k, v) # m else if k < fst e then (k, v) # e # m else e # sm_insert k v m)"

text \<open>
  \<open>SkipMap::compare_insert\<close>: the entry is written when the key is absent or the comparison
  accepts the value that is there.
\<close>

definition sm_compare_insert ::
  "'k::linorder \<Rightarrow> 'v \<Rightarrow> ('v \<Rightarrow> bool) \<Rightarrow> ('k \<times> 'v) list \<Rightarrow> ('k \<times> 'v) list" where
  "sm_compare_insert k v accept m =
     (case map_of m k of
        None \<Rightarrow> sm_insert k v m
      | Some old \<Rightarrow> if accept old then sm_insert k v m else m)"

text \<open>The entries after a cursor, as \<open>iter().skip_while(|e| e.key() <= cursor)\<close> yields them.\<close>

definition after_cursor :: "'k::linorder option \<Rightarrow> ('k \<times> 'v) list \<Rightarrow> ('k \<times> 'v) list" where
  "after_cursor c m = dropWhile (\<lambda>e. case c of Some k \<Rightarrow> fst e \<le> k | None \<Rightarrow> False) m"

lemma sm_insert_keys: "fst ` set (sm_insert k v m) = insert k (fst ` set m)"
  by (induction m) auto

lemma set_sm_insert: "e \<in> set (sm_insert k v m) \<Longrightarrow> e = (k, v) \<or> e \<in> set m"
  by (induction m) (auto split: if_splits)

lemma sm_insert_mem: "(k, v) \<in> set (sm_insert k v m)"
  by (induction m) auto

lemma sm_insert_keeps: "e \<in> set m \<Longrightarrow> fst e \<noteq> k \<Longrightarrow> e \<in> set (sm_insert k v m)"
  by (induction m) auto

lemma list_all_sm_insert: "list_all P m \<Longrightarrow> P (k, v) \<Longrightarrow> list_all P (sm_insert k v m)"
  by (auto simp: list_all_iff dest!: set_sm_insert)

lemma sm_wf_insert [simp]: "sm_wf m \<Longrightarrow> sm_wf (sm_insert k v m)"
proof (induction m)
  case (Cons e m)
  then have "\<forall>x\<in>set (map fst (sm_insert k v m)). k = x \<or> fst e < x"
    using sm_insert_keys [of k v m] by fastforce
  with Cons show ?case by fastforce
qed simp

lemma sm_wf_distinct: "sm_wf m \<Longrightarrow> hm_wf m"
  by (simp add: strict_sorted_iff)

lemma sm_get_insert [simp, store_simps]:
  "map_of (sm_insert k v m) = (map_of m)(k \<mapsto> v)"
  by (induction m) auto

lemma sm_wf_remove [simp]: "sm_wf m \<Longrightarrow> sm_wf (hm_remove k m)"
  by (simp add: AList.delete_eq sorted_wrt_map sorted_wrt_filter)

lemma sm_wf_filter: "sm_wf m \<Longrightarrow> sm_wf (filter P m)"
  by (simp add: sorted_wrt_map sorted_wrt_filter)

lemma sm_wf_compare_insert [simp]: "sm_wf m \<Longrightarrow> sm_wf (sm_compare_insert k v a m)"
  by (simp add: sm_compare_insert_def split: option.split)

lemma after_cursor_None [simp]: "after_cursor None m = m"
  by (cases m) (simp_all add: after_cursor_def)

lemma after_cursor_filter:
  "sm_wf m \<Longrightarrow> after_cursor (Some c) m = filter (\<lambda>e. c < fst e) m"
proof (induction m)
  case (Cons e m)
  show ?case
  proof (cases "fst e \<le> c")
    case True
    with Cons show ?thesis by (simp add: after_cursor_def not_less)
  next
    case False
    with Cons.prems have "\<forall>x\<in>set m. c < fst x" by force
    with False show ?thesis by (simp add: after_cursor_def not_le)
  qed
qed (simp add: after_cursor_def)

section \<open>Versions: the last write wins\<close>

text \<open>
  The value kept when a new version meets the one that is stored: the new one unless the
  stored one has a strictly greater version.
\<close>

fun newer :: "('v \<Rightarrow> 'o::linorder) \<Rightarrow> 'v option \<Rightarrow> 'v \<Rightarrow> 'v" where
  "newer ver None v = v"
| "newer ver (Some w) v = (if ver w \<le> ver v then v else w)"

definition winner :: "('v \<Rightarrow> 'o::linorder) \<Rightarrow> 'v option \<Rightarrow> 'v list \<Rightarrow> 'v option" where
  "winner ver acc vs = fold (\<lambda>v a. Some (newer ver a v)) vs acc"

lemma winner_simps [simp]:
  "winner ver acc [] = acc"
  "winner ver acc (v # vs) = winner ver (Some (newer ver acc v)) vs"
  by (simp_all add: winner_def)

lemma winner_snoc: "winner ver acc (vs @ [v]) = Some (newer ver (winner ver acc vs) v)"
  by (simp add: winner_def)

lemma winner_max:
  assumes "winner ver acc vs = Some w"
  shows "w \<in> set_option acc \<union> set vs \<and> (\<forall>v \<in> set_option acc \<union> set vs. ver v \<le> ver w)"
  using assms
proof (induction vs arbitrary: w rule: rev_induct)
  case (snoc x vs)
  show ?case
  proof (cases "winner ver acc vs")
    case None
    then have "acc = None" "vs = []"
      by (cases vs rule: rev_cases; simp add: winner_snoc)+
    with snoc.prems None show ?thesis by (simp add: winner_def)
  next
    case (Some u)
    with snoc.IH snoc.prems show ?thesis
      by (force simp: winner_snoc split: if_splits)
  qed
qed auto

lemma winner_eq_None [simp]: "winner ver acc vs = None \<longleftrightarrow> acc = None \<and> vs = []"
  by (cases vs rule: rev_cases) (auto simp: winner_snoc)

text \<open>With pairwise different versions the outcome does not depend on the order.\<close>

lemma winner_order_irrelevant:
  assumes "set vs = set ws" and "inj_on ver (set vs \<union> set_option acc)"
  shows "winner ver acc vs = winner ver acc ws"
proof (cases "winner ver acc vs")
  case None
  with assms show ?thesis by (simp add: winner_eq_None)
next
  case (Some v)
  then obtain w where w: "winner ver acc ws = Some w"
    using assms(1) by (cases "winner ver acc ws") auto
  from winner_max [OF Some] winner_max [OF w] assms(1)
  have "ver v = ver w" and "v \<in> set vs \<union> set_option acc" and "w \<in> set vs \<union> set_option acc"
    by (auto intro: order.antisym)
  with assms(2) have "v = w" by (auto dest: inj_onD)
  with Some w show ?thesis by simp
qed

section \<open>Interfaces of the containers\<close>

text \<open>
  A map to which versioned updates are applied so that the newest survives. This is what
  the migration of partitions relies on, on both sides of a transfer.
\<close>

locale versioned_map =
  fixes invar :: "'m \<Rightarrow> bool"
    and lookup :: "'m \<Rightarrow> 'k \<Rightarrow> 'v option"
    and apply_update :: "'k \<times> 'v \<Rightarrow> 'm \<Rightarrow> 'm"
    and ver :: "'v \<Rightarrow> 'o::linorder"
  assumes invar_apply: "invar m \<Longrightarrow> invar (apply_update u m)"
    and lookup_apply: "invar m \<Longrightarrow>
      lookup (apply_update u m) = (lookup m)(fst u \<mapsto> newer ver (lookup m (fst u)) (snd u))"
begin

lemma invar_apply_all: "invar m \<Longrightarrow> invar (fold apply_update us m)"
  by (induction us arbitrary: m) (simp_all add: invar_apply)

lemma lookup_apply_all:
  "invar m \<Longrightarrow> lookup (fold apply_update us m) k =
     winner ver (lookup m k) (map snd (filter (\<lambda>u. fst u = k) us))"
  by (induction us arbitrary: m) (auto simp: invar_apply lookup_apply)

lemma apply_all_converge:
  assumes "invar m" and "mset us = mset ws"
    and "inj_on ver (snd ` {u \<in> set us. fst u = k} \<union> set_option (lookup m k))"
  shows "lookup (fold apply_update us m) k = lookup (fold apply_update ws m) k"
proof -
  let ?sel = "\<lambda>us. map snd (filter (\<lambda>u. fst u = k) us)"
  have eq: "set us = set ws" using assms(2) by (rule mset_eq_setD)
  have "set (?sel us) = set (?sel ws)" by (simp add: eq)
  moreover have "set (?sel us) = snd ` {u \<in> set us. fst u = k}" by auto
  ultimately show ?thesis
    using assms(1,3) winner_order_irrelevant [of "?sel us" "?sel ws" ver "lookup m k"]
    by (simp add: lookup_apply_all)
qed

text \<open>Versions never go back, and an update that is present at least as new changes no version.\<close>

lemma apply_all_dominates:
  assumes "invar m" and "(k, v) \<in> set us"
  shows "\<exists>w. lookup (fold apply_update us m) k = Some w \<and> ver v \<le> ver w"
proof -
  let ?vs = "map snd (filter (\<lambda>u. fst u = k) us)"
  from assms(2) have v: "v \<in> set ?vs" by force
  then have "?vs \<noteq> []" by (metis empty_iff empty_set)
  then obtain w where w: "winner ver (lookup m k) ?vs = Some w"
    by (metis not_None_eq winner_eq_None)
  from winner_max [OF w] v have "ver v \<le> ver w" by blast
  with w assms(1) show ?thesis by (simp add: lookup_apply_all)
qed

lemma apply_all_mono:
  assumes "invar m" and "lookup m k = Some v"
  shows "\<exists>w. lookup (fold apply_update us m) k = Some w \<and> ver v \<le> ver w"
proof -
  let ?vs = "map snd (filter (\<lambda>u. fst u = k) us)"
  obtain w where w: "winner ver (lookup m k) ?vs = Some w"
    using assms(2) by (cases "winner ver (lookup m k) ?vs") auto
  from winner_max [OF w] assms(2) have "ver v \<le> ver w" by simp
  with w assms(1) show ?thesis by (simp add: lookup_apply_all)
qed

end

locale dictionary =
  fixes invar :: "'m \<Rightarrow> bool"
    and lookup :: "'m \<Rightarrow> 'k \<Rightarrow> 'v option"
    and insert :: "'k \<Rightarrow> 'v \<Rightarrow> 'm \<Rightarrow> 'm"
    and remove :: "'k \<Rightarrow> 'm \<Rightarrow> 'm"
    and entries :: "'m \<Rightarrow> ('k \<times> 'v) list"
  assumes lookup_insert: "invar m \<Longrightarrow> lookup (insert k v m) = (lookup m)(k \<mapsto> v)"
    and lookup_remove: "invar m \<Longrightarrow> lookup (remove k m) = (lookup m)(k := None)"
    and invar_insert: "invar m \<Longrightarrow> invar (insert k v m)"
    and invar_remove: "invar m \<Longrightarrow> invar (remove k m)"
    and lookup_entries: "invar m \<Longrightarrow> lookup m k = map_of (entries m) k"
    and entries_distinct: "invar m \<Longrightarrow> distinct (map fst (entries m))"
begin

definition upsert :: "('v \<Rightarrow> 'o::linorder) \<Rightarrow> 'k \<times> 'v \<Rightarrow> 'm \<Rightarrow> 'm" where
  "upsert ver u m =
     (case lookup m (fst u) of
        None \<Rightarrow> insert (fst u) (snd u) m
      | Some old \<Rightarrow> if ver old \<le> ver (snd u) then insert (fst u) (snd u) m else m)"

sublocale upd: versioned_map invar lookup "upsert ver" ver for ver :: "'v \<Rightarrow> 'o::linorder"
  by unfold_locales
     (auto simp: upsert_def lookup_insert invar_insert fun_eq_iff split: option.split)

lemma entries_iff: "invar m \<Longrightarrow> (k, v) \<in> set (entries m) \<longleftrightarrow> lookup m k = Some v"
  by (simp add: lookup_entries entries_distinct)

end

locale ordered_dictionary = dictionary invar lookup insert remove entries
  for invar :: "'m \<Rightarrow> bool"
    and lookup :: "'m \<Rightarrow> 'k::linorder \<Rightarrow> 'v option"
    and insert :: "'k \<Rightarrow> 'v \<Rightarrow> 'm \<Rightarrow> 'm"
    and remove :: "'k \<Rightarrow> 'm \<Rightarrow> 'm"
    and entries :: "'m \<Rightarrow> ('k \<times> 'v) list" +
  assumes entries_sorted: "invar m \<Longrightarrow> sorted_wrt (<) (map fst (entries m))"
begin

lemma mem_after_cursor:
  "invar m \<Longrightarrow> e \<in> set (after_cursor (Some c) (entries m)) \<longleftrightarrow> e \<in> set (entries m) \<and> c < fst e"
  by (simp add: after_cursor_filter entries_sorted)

text \<open>Reading on from the last key of a page continues exactly where the page stopped.\<close>

lemma after_last_of_page:
  assumes "invar m" and "page = take n (after_cursor c (entries m))" and "page \<noteq> []"
  shows "after_cursor (Some (fst (last page))) (entries m) = drop n (after_cursor c (entries m))"
proof -
  let ?rest = "after_cursor c (entries m)"
  have sorted: "sm_wf (entries m)" using assms(1) by (rule entries_sorted)
  obtain pre where pre: "entries m = pre @ ?rest"
    unfolding after_cursor_def using takeWhile_dropWhile_id by metis
  have all: "entries m = pre @ page @ drop n ?rest"
    using assms(2) pre by simp
  have "filter (\<lambda>e. fst (last page) < fst e) (pre @ page) = []"
  proof -
    obtain bl where bl: "page = bl @ [last page]" using assms(3) by (metis append_butlast_last_id)
    have "sm_wf ((pre @ bl) @ last page # drop n ?rest)"
      using sorted all bl by (metis append.assoc append_Cons append_Nil)
    then have "\<forall>e \<in> set (pre @ bl). fst e < fst (last page)"
      by (force simp: sorted_wrt_append)
    moreover have "set page = Set.insert (last page) (set bl)"
      using arg_cong [OF bl, of set] by simp
    ultimately have "\<not> fst (last page) < fst e" if "e \<in> set (pre @ page)" for e
      using that by (cases "e = last page") (auto dest: bspec [where x = e])
    then show ?thesis by (intro filter_False) blast
  qed
  moreover have "filter (\<lambda>e. fst (last page) < fst e) (drop n ?rest) = drop n ?rest"
  proof -
    have "sm_wf ((pre @ page) @ drop n ?rest)" using sorted all by simp
    then have "\<forall>e \<in> set (drop n ?rest). fst (last page) < fst e"
      using assms(3) by (force simp: sorted_wrt_append)
    then show ?thesis by simp
  qed
  ultimately have "filter (\<lambda>e. fst (last page) < fst e) (entries m) = drop n ?rest"
    using arg_cong [OF all, of "filter (\<lambda>e. fst (last page) < fst e)"] by simp
  with sorted show ?thesis by (simp only: after_cursor_filter)
qed

end

interpretation hm: dictionary hm_wf hm_get hm_insert hm_remove "\<lambda>m. m"
  by unfold_locales auto

interpretation sm: ordered_dictionary sm_wf hm_get sm_insert hm_remove "\<lambda>m. m"
  by unfold_locales (auto simp: sm_wf_distinct)

lemma sm_compare_insert_upsert:
  "sm_compare_insert k v (\<lambda>old. ver old \<le> ver v) m = sm.upsert ver (k, v) m"
  by (simp add: sm_compare_insert_def sm.upsert_def split: option.split)

lemma sm_get_compare_insert [simp, store_simps]:
  "sm_wf m \<Longrightarrow> map_of (sm_compare_insert k v (\<lambda>old. ver old \<le> ver v) m) =
     (map_of m)(k \<mapsto> newer ver (map_of m k) v)"
  by (simp add: sm_compare_insert_upsert sm.upd.lookup_apply)

end
