(* ===== verification/Epochs.thy ===== *)
theory Epochs
  imports Store_Prelude
begin

text \<open>
  What the three kinds of nodes promise about epochs and leaders. Managers, workers and clients
  each keep an epoch with a leader and take both from messages of others. The locales state what
  one step of such a node keeps; the lemmas inside carry it to whole runs. The components
  interpret them on their own steps.
\<close>

section \<open>The contract of a step\<close>

text \<open>\<open>age\<close> orders epochs; a node without an epoch has age 0.\<close>

definition epoch_age :: "u64 option \<Rightarrow> nat" where
  "epoch_age e = (case e of None \<Rightarrow> 0 | Some n \<Rightarrow> unat n + 1)"

lemma epoch_age_mono: "opt_less a b \<Longrightarrow> epoch_age a < epoch_age b"
  by (cases a; cases b) (auto simp: epoch_age_def word_less_nat_alt)

lemma epoch_age_eq: "epoch_age a = epoch_age b \<longleftrightarrow> a = b"
  by (cases a; cases b) (auto simp: epoch_age_def word_unat_eq_iff)

lemma epoch_age_less: "epoch_age a \<le> epoch_age b \<Longrightarrow> b \<noteq> a \<Longrightarrow> opt_less a b"
  by (cases a; cases b) (auto simp: epoch_age_def word_less_nat_alt word_unat_eq_iff)

locale epoch_keeper =
  fixes age :: "'s \<Rightarrow> nat" and leader :: "'s \<Rightarrow> 'l option" and moves :: "'s \<Rightarrow> 's \<Rightarrow> bool"
  assumes age_mono: "moves s s' \<Longrightarrow> age s \<le> age s'"
begin

lemma run_age: "moves\<^sup>*\<^sup>* s s' \<Longrightarrow> age s \<le> age s'"
  by (induction rule: rtranclp_induct) (auto dest: age_mono)

lemma run_same_age:
  assumes "moves\<^sup>*\<^sup>* s t" and "moves\<^sup>*\<^sup>* t u" and "age u = age s"
  shows "age t = age s"
  using run_age [OF assms(1)] run_age [OF assms(2)] assms(3) by simp

end

text \<open>A node that keeps its leader throughout an epoch.\<close>

locale leader_keeper = epoch_keeper +
  assumes leader_kept: "moves s s' \<Longrightarrow> age s' = age s \<Longrightarrow> leader s = Some l \<Longrightarrow> leader s' = Some l"
begin

lemma run_leader: "moves\<^sup>*\<^sup>* s s' \<Longrightarrow> age s' = age s \<Longrightarrow> leader s = Some l \<Longrightarrow> leader s' = Some l"
proof (induction rule: rtranclp_induct)
  case (step t u)
  then have "age t = age s" using run_same_age [of s t u] by auto
  with step show ?case by (auto intro: leader_kept)
qed

end

text \<open>A node that may forget its leader within an epoch, but takes no new one.\<close>

locale leader_forgetter = epoch_keeper +
  assumes leader_origin: "moves s s' \<Longrightarrow> age s' = age s \<Longrightarrow> leader s' = Some l \<Longrightarrow> leader s = Some l"
begin

lemma run_origin: "moves\<^sup>*\<^sup>* s s' \<Longrightarrow> age s' = age s \<Longrightarrow> leader s' = Some l \<Longrightarrow> leader s = Some l"
proof (induction arbitrary: l rule: rtranclp_induct)
  case (step t u)
  then have "age t = age s" using run_same_age [of s t u] by auto
  with step show ?case by (auto dest: leader_origin)
qed

end

end
