(* ===== verification/Cluster_Common.thy ===== *)
theory Cluster_Common
  imports Epochs
begin

text \<open>
  The types every part of the server shares (\<open>src/crates/no-sql-store/src/common.rs\<close>) and the
  command line that configures a node (\<open>cli.rs\<close>).

  \<open>NodeId\<close>, \<open>PartitionId\<close> and \<open>Key\<close> are newtypes as in the source; \<open>NodeId\<close> and \<open>Key\<close>
  derive \<open>Ord\<close> there and are instances of \<open>linorder\<close> here. Parsing a UUID is code of the
  \<open>uuid\<close> crate and is the parameter \<open>uuid\<close>: the canonical text of a UUID, or \<^const>\<open>None\<close> where
  \<open>Uuid::parse_str\<close> fails. Panics (\<open>expect\<close>, \<open>unreachable!\<close>) are \<^const>\<open>None\<close>.
\<close>

section \<open>Identifiers\<close>

definition PARTITIONS_AMOUNT :: nat where
  "PARTITIONS_AMOUNT = 4096"

datatype node_id = NodeId string

datatype partition_id = PartitionId u16

datatype key = Key u64

fun node_id_to_string :: "node_id \<Rightarrow> string" where
  "node_id_to_string (NodeId s) = s"

definition node_id_from_string :: "(string \<Rightarrow> string option) \<Rightarrow> string \<Rightarrow> node_id option" where
  "node_id_from_string uuid s = map_option NodeId (uuid s)"

fun partition_number :: "partition_id \<Rightarrow> u16" where
  "partition_number (PartitionId n) = n"

fun key_value :: "key \<Rightarrow> u64" where
  "key_value (Key k) = k"

instantiation node_id :: linorder
begin

definition less_eq_node_id :: "node_id \<Rightarrow> node_id \<Rightarrow> bool" where
  "a \<le> b \<longleftrightarrow> node_id_to_string a \<le> node_id_to_string b"

definition less_node_id :: "node_id \<Rightarrow> node_id \<Rightarrow> bool" where
  "a < b \<longleftrightarrow> node_id_to_string a < node_id_to_string b"

instance
proof
  fix a b c :: node_id
  show "(a < b) = (a \<le> b \<and> \<not> b \<le> a)"
    by (auto simp: less_eq_node_id_def less_node_id_def)
  show "a \<le> a" by (simp add: less_eq_node_id_def)
  show "a \<le> b \<Longrightarrow> b \<le> c \<Longrightarrow> a \<le> c" by (auto simp: less_eq_node_id_def)
  show "a \<le> b \<Longrightarrow> b \<le> a \<Longrightarrow> a = b" by (cases a; cases b) (simp add: less_eq_node_id_def)
  show "a \<le> b \<or> b \<le> a" by (auto simp: less_eq_node_id_def)
qed

end

instantiation key :: linorder
begin

definition less_eq_key :: "key \<Rightarrow> key \<Rightarrow> bool" where
  "a \<le> b \<longleftrightarrow> key_value a \<le> key_value b"

definition less_key :: "key \<Rightarrow> key \<Rightarrow> bool" where
  "a < b \<longleftrightarrow> key_value a < key_value b"

instance
proof
  fix a b c :: key
  show "(a < b) = (a \<le> b \<and> \<not> b \<le> a)" by (auto simp: less_eq_key_def less_key_def)
  show "a \<le> a" by (simp add: less_eq_key_def)
  show "a \<le> b \<Longrightarrow> b \<le> c \<Longrightarrow> a \<le> c" by (auto simp: less_eq_key_def)
  show "a \<le> b \<Longrightarrow> b \<le> a \<Longrightarrow> a = b" by (cases a; cases b) (simp add: less_eq_key_def)
  show "a \<le> b \<or> b \<le> a" by (auto simp: less_eq_key_def)
qed

end

section \<open>Nodes, partitions and cluster states\<close>

datatype node_type = Manager | Worker

record node =
  n_host :: string
  n_port :: u32
  n_last_heartbeat :: u64
  n_node_type :: node_type

definition is_manager :: "node \<Rightarrow> bool" where
  "is_manager n \<longleftrightarrow> n_node_type n = Manager"

definition is_worker :: "node \<Rightarrow> bool" where
  "is_worker n \<longleftrightarrow> n_node_type n = Worker"

record partition =
  p_master :: node_id
  p_replicas :: "node_id hash_set"

record partitions =
  mapping :: "(partition_id, partition) hash_map"
  old_replicas :: "(partition_id, node_id hash_set) hash_map"
  new_replicas :: "(partition_id, node_id hash_set) hash_map"

definition default_partitions :: partitions where
  "default_partitions = \<lparr>mapping = [], old_replicas = [], new_replicas = []\<rparr>"

text \<open>The derived equality of \<open>Partition\<close> and \<open>Partitions\<close>: hash sets and maps compare by content.\<close>

definition partition_eq :: "partition \<Rightarrow> partition \<Rightarrow> bool" where
  "partition_eq p q \<longleftrightarrow> p_master p = p_master q \<and> hs_eq (p_replicas p) (p_replicas q)"

definition partitions_eq :: "partitions \<Rightarrow> partitions \<Rightarrow> bool" where
  "partitions_eq p q \<longleftrightarrow>
     hm_eq partition_eq (mapping p) (mapping q) \<and>
     hm_eq hs_eq (old_replicas p) (old_replicas q) \<and>
     hm_eq hs_eq (new_replicas p) (new_replicas q)"

record cluster_node =
  cn_id :: node_id
  cn_host :: string
  cn_port :: u32
  cn_last_heartbeat :: u64
  cn_node_type :: node_type

record cluster_state =
  cs_epoch :: u64
  cs_leader_id :: node_id
  cs_nodes :: "cluster_node list"
  cs_partitions :: partitions

record heartbeat =
  hb_id :: node_id
  hb_ts :: u64

record me =
  me_id :: node_id
  me_host :: string
  me_port :: u32

section \<open>Command line and configuration\<close>

record common_args =
  ca_grpc_port :: u16
  ca_self_host :: string
  ca_self_port :: "u16 option"

definition self_port :: "common_args \<Rightarrow> u16" where
  "self_port a = (case ca_self_port a of Some p \<Rightarrow> p | None \<Rightarrow> ca_grpc_port a)"

datatype command =
    CommandManager common_args "string option" "u16 option" nat
  | CommandWorker common_args string u16 u64

datatype config =
    ConfigManager u16 "string \<times> u16" "(string \<times> u16) option" nat
  | ConfigWorker u16 "string \<times> u16" "string \<times> u16" u64

text \<open>
  \<open>str::parse\<close> for an unsigned integer of 64 bits: an optional plus sign, then at least one
  decimal digit, and a value that fits.
\<close>

definition digit_value :: "char \<Rightarrow> nat option" where
  "digit_value c = (if CHR ''0'' \<le> c \<and> c \<le> CHR ''9'' then Some (of_char c - 48) else None)"

fun parse_digits :: "nat \<Rightarrow> string \<Rightarrow> nat option" where
  "parse_digits acc [] = Some acc"
| "parse_digits acc (c # cs) =
     (case digit_value c of
        None \<Rightarrow> None
      | Some d \<Rightarrow> if acc * 10 + d < 2 ^ 64 then parse_digits (acc * 10 + d) cs else None)"

definition parse_unsigned :: "string \<Rightarrow> nat option" where
  "parse_unsigned s =
     (let ds = (if s \<noteq> [] \<and> hd s = CHR ''+'' then tl s else s)
      in if ds = [] then None else parse_digits 0 ds)"

definition parse_replication_factor :: "string \<Rightarrow> string + nat" where
  "parse_replication_factor s =
     (case parse_unsigned s of
        None \<Rightarrow> Inl ''replication_factor must be a positive integer''
      | Some v \<Rightarrow> if v = 0 then Inl ''replication_factor must be at least 1'' else Inr v)"

definition parse_positive_u64 :: "string \<Rightarrow> string + u64" where
  "parse_positive_u64 s =
     (case parse_unsigned s of
        None \<Rightarrow> Inl ''value must be a positive integer''
      | Some v \<Rightarrow> if v = 0 then Inl ''value must be at least 1'' else Inr (word_of_nat v))"

fun option_zip :: "'a option \<Rightarrow> 'b option \<Rightarrow> ('a \<times> 'b) option" where
  "option_zip (Some a) (Some b) = Some (a, b)"
| "option_zip _ _ = None"

fun config_from_cli :: "command \<Rightarrow> config" where
  "config_from_cli (CommandManager common manager_host manager_port replication_factor) =
     ConfigManager (ca_grpc_port common) (ca_self_host common, self_port common)
       (option_zip manager_host manager_port) replication_factor"
| "config_from_cli (CommandWorker common manager_host manager_port interval) =
     ConfigWorker (ca_grpc_port common) (ca_self_host common, self_port common)
       (manager_host, manager_port) interval"

fun grpc_port :: "config \<Rightarrow> u16" where
  "grpc_port (ConfigManager p _ _ _) = p"
| "grpc_port (ConfigWorker p _ _ _) = p"

fun manager_host_port :: "config \<Rightarrow> (string \<times> u16) option" where
  "manager_host_port (ConfigManager _ _ m _) = m"
| "manager_host_port (ConfigWorker _ _ m _) = Some m"

fun self_host_port :: "config \<Rightarrow> string \<times> u16" where
  "self_host_port (ConfigManager _ s _ _) = s"
| "self_host_port (ConfigWorker _ s _ _) = s"

fun set_replication_factor :: "nat \<Rightarrow> config \<Rightarrow> config option" where
  "set_replication_factor r (ConfigManager p s m _) = Some (ConfigManager p s m r)"
| "set_replication_factor r (ConfigWorker _ _ _ _) = None"

fun config_replication_factor :: "config \<Rightarrow> nat option" where
  "config_replication_factor (ConfigManager _ _ _ r) = Some r"
| "config_replication_factor (ConfigWorker _ _ _ _) = None"

fun expired_cleanup_interval_secs :: "config \<Rightarrow> u64 option" where
  "expired_cleanup_interval_secs (ConfigWorker _ _ _ i) = Some i"
| "expired_cleanup_interval_secs (ConfigManager _ _ _ _) = None"

text \<open>What the type \<open>Partitions\<close> of three \<open>HashMap\<close>s guarantees: each key has one entry.\<close>

definition parts_wf :: "partitions \<Rightarrow> bool" where
  "parts_wf p \<longleftrightarrow> hm_wf (mapping p) \<and> hm_wf (old_replicas p) \<and> hm_wf (new_replicas p)"

section \<open>Lemmas\<close>

lemma parts_wf_default [simp]: "parts_wf default_partitions"
  by (simp add: parts_wf_def default_partitions_def)

lemma NodeId_to_string [simp]: "NodeId (node_id_to_string i) = i"
  by (cases i) simp

lemma node_id_to_string_inject [simp]: "node_id_to_string a = node_id_to_string b \<longleftrightarrow> a = b"
  by (cases a; cases b) simp

lemma less_key_Key [simp]: "Key a < Key b \<longleftrightarrow> a < b" "Key a \<le> Key b \<longleftrightarrow> a \<le> b"
  by (simp_all add: less_key_def less_eq_key_def)

lemma is_worker_not_manager: "is_worker n \<longleftrightarrow> \<not> is_manager n"
  by (cases "n_node_type n") (simp_all add: is_worker_def is_manager_def)

lemma is_manager_update_heartbeat [simp]:
  "is_manager (n\<lparr>n_last_heartbeat := t\<rparr>) = is_manager n"
  "is_worker (n\<lparr>n_last_heartbeat := t\<rparr>) = is_worker n"
  by (simp_all add: is_manager_def is_worker_def)

lemma hm_eq_refl: "hm_wf m \<Longrightarrow> (\<And>v. e v v) \<Longrightarrow> hm_eq e m m"
  by (auto simp: hm_eq_def list_all_iff split: option.split dest: eq_key_imp_eq_value)

lemma hm_eq_get:
  assumes "hm_wf m" and "hm_eq e m n" and "hm_get m k = Some v"
  shows "\<exists>w. hm_get n k = Some w \<and> e v w"
proof -
  from assms(1,3) have "(k, v) \<in> set m" by (simp add: hm_get_Some_set)
  with assms(2) show ?thesis by (auto simp: hm_eq_def list_all_iff split: option.splits)
qed

lemma partitions_eq_refl:
  "hm_wf (mapping p) \<Longrightarrow> hm_wf (old_replicas p) \<Longrightarrow> hm_wf (new_replicas p) \<Longrightarrow> partitions_eq p p"
  by (simp add: partitions_eq_def partition_eq_def hs_eq_def hm_eq_refl)

lemma parse_digits_bound: "acc < 2 ^ 64 \<Longrightarrow> parse_digits acc s = Some v \<Longrightarrow> v < 2 ^ 64"
  by (induction acc s rule: parse_digits.induct) (auto split: option.splits if_splits)

lemma parse_unsigned_bound: "parse_unsigned s = Some v \<Longrightarrow> v < 2 ^ 64"
  unfolding parse_unsigned_def Let_def
  by (rule parse_digits_bound [of 0]) (simp, fastforce split: if_splits)

end
