(* ===== verification/Wire_Format.thy ===== *)
theory Wire_Format
  imports Cluster_Common
begin

text \<open>
  Protobuf messages (\<open>no-sql-store-proto/proto/*.proto\<close>) and the conversions between them and the
  domain types (\<open>conversions.rs\<close>).

  Node ids travel as strings. Reading one back parses it as a UUID and panics when that fails, so
  the conversions from the wire return an option. The parser of the \<open>uuid\<close> crate is the parameter
  \<open>uuid\<close>: it returns the canonical text of the UUID it reads. What the program relies on is that a
  canonical text is read back as itself (\<open>canonical\<close>).
\<close>

section \<open>Messages\<close>

type_synonym grpc_addr = "string \<times> u32"

record grpc_partition =
  gp_master :: string
  gp_replicas :: "string list"

record grpc_partitions =
  gps_mapping :: "(u32, grpc_partition) hash_map"
  gps_new_replicas :: "(u32, string list) hash_map"
  gps_old_replicas :: "(u32, string list) hash_map"

record grpc_node =
  gn_id :: string
  gn_addr :: "grpc_addr option"
  gn_last_heartbeat :: u64
  gn_node_type :: i32

record grpc_cluster_state =
  gc_epoch :: u64
  gc_leader_id :: string
  gc_nodes :: "grpc_node list"
  gc_partitions :: "grpc_partitions option"

datatype manager_event =
    MEConnect string "grpc_addr option" "u32 option"
  | MEConnectResponse string
  | MEHeartbeat string u64
  | MEGetClusterState
  | MEClusterState grpc_cluster_state
  | MEVoteRequest u64 u64
  | MEVoteResponse string u64
  | MELeader string u64 u64
  | MERemovePartitionFromReplica string u32

datatype worker_event =
    WEConnect string "grpc_addr option" "u32 option"
  | WEConnectResponse string
  | WEHeartbeat string u64
  | WEGetClusterState
  | WEClusterState grpc_cluster_state
  | WEManagerLeader string u64 u64
  | WERemovePartitionFromReplica string u32

record grpc_record =
  gr_key :: u64
  gr_value :: "u8 list"
  gr_ttl :: u64
  gr_creation_time :: u64
  gr_deleted :: bool

datatype peer_event =
    PEConnect string "grpc_addr option"
  | PEConnectResponse string
  | PESyncBatchRequest "grpc_record list"
  | PESyncBatchResponse "(u32, u64) hash_map"

text \<open>The enum values of \<open>NodeType\<close> and \<open>RequestType\<close>.\<close>

definition NODE_TYPE_MANAGER :: i32 where "NODE_TYPE_MANAGER = 0"
definition NODE_TYPE_WORKER :: i32 where "NODE_TYPE_WORKER = 1"
definition REQUEST_GET :: i32 where "REQUEST_GET = 0"
definition REQUEST_PUT :: i32 where "REQUEST_PUT = 1"
definition REQUEST_DELETE :: i32 where "REQUEST_DELETE = 2"

record client_request =
  cr_id :: i32
  cr_request_type :: i32
  cr_key :: u64
  cr_creation_time :: "u64 option"
  cr_value :: "u8 list option"
  cr_ttl :: "u64 option"

record worker_response =
  wr_request_id :: i32
  wr_record :: "grpc_record option"
  wr_deletion_time :: "u64 option"

section \<open>Conversions\<close>

text \<open>\<open>Iterator::collect\<close> into a \<open>HashMap\<close>: the last entry of a key wins.\<close>

definition hm_collect :: "('k \<times> 'v) list \<Rightarrow> ('k, 'v) hash_map" where
  "hm_collect es = fold (\<lambda>(k, v). hm_insert k v) es []"

definition grpc_node_type_to_domain :: "i32 \<Rightarrow> node_type" where
  "grpc_node_type_to_domain t = (if t = NODE_TYPE_WORKER then Worker else Manager)"

definition domain_node_type_to_grpc :: "node_type \<Rightarrow> i32" where
  "domain_node_type_to_grpc t = (case t of Manager \<Rightarrow> NODE_TYPE_MANAGER | Worker \<Rightarrow> NODE_TYPE_WORKER)"

definition node_ids_to_domain :: "(string \<Rightarrow> string option) \<Rightarrow> string list \<Rightarrow> node_id hash_set option" where
  "node_ids_to_domain uuid xs = map_option hs_collect (those (map (node_id_from_string uuid) xs))"

definition grpc_partition_to_domain :: "(string \<Rightarrow> string option) \<Rightarrow> grpc_partition \<Rightarrow> partition option" where
  "grpc_partition_to_domain uuid q =
     (case node_id_from_string uuid (gp_master q) of
        None \<Rightarrow> None
      | Some master \<Rightarrow>
          map_option (\<lambda>rs. \<lparr>p_master = master, p_replicas = rs\<rparr>) (node_ids_to_domain uuid (gp_replicas q)))"

definition grpc_partition_mapping_to_domain ::
  "(string \<Rightarrow> string option) \<Rightarrow> (u32, grpc_partition) hash_map \<Rightarrow> (partition_id, partition) hash_map option" where
  "grpc_partition_mapping_to_domain uuid m =
     map_option hm_collect (those (map (\<lambda>(p, q).
       map_option (Pair (PartitionId (ucast p))) (grpc_partition_to_domain uuid q)) m))"

definition domain_partition_mapping_to_grpc ::
  "(partition_id, partition) hash_map \<Rightarrow> (u32, grpc_partition) hash_map" where
  "domain_partition_mapping_to_grpc m =
     hm_collect (map (\<lambda>(p, q). (ucast (partition_number p),
       \<lparr>gp_master = node_id_to_string (p_master q),
        gp_replicas = map node_id_to_string (p_replicas q)\<rparr>)) m)"

definition grpc_old_replicas_to_domain ::
  "(string \<Rightarrow> string option) \<Rightarrow> (u32, string list) hash_map \<Rightarrow> (partition_id, node_id hash_set) hash_map option" where
  "grpc_old_replicas_to_domain uuid m =
     map_option hm_collect (those (map (\<lambda>(p, rs).
       map_option (Pair (PartitionId (ucast p))) (node_ids_to_domain uuid rs)) m))"

definition domain_old_replicas_to_grpc ::
  "(partition_id, node_id hash_set) hash_map \<Rightarrow> (u32, string list) hash_map" where
  "domain_old_replicas_to_grpc m =
     hm_collect (map (\<lambda>(p, rs). (ucast (partition_number p), map node_id_to_string rs)) m)"

definition grpc_partitions_to_domain :: "(string \<Rightarrow> string option) \<Rightarrow> grpc_partitions \<Rightarrow> partitions option" where
  "grpc_partitions_to_domain uuid ps =
     (case grpc_partition_mapping_to_domain uuid (gps_mapping ps) of
        None \<Rightarrow> None
      | Some m \<Rightarrow>
          (case grpc_old_replicas_to_domain uuid (gps_old_replicas ps) of
             None \<Rightarrow> None
           | Some old \<Rightarrow>
               (case grpc_old_replicas_to_domain uuid (gps_new_replicas ps) of
                  None \<Rightarrow> None
                | Some new \<Rightarrow> Some \<lparr>mapping = m, old_replicas = old, new_replicas = new\<rparr>)))"

definition domain_partitions_to_grpc :: "partitions \<Rightarrow> grpc_partitions" where
  "domain_partitions_to_grpc ps =
     \<lparr>gps_mapping = domain_partition_mapping_to_grpc (mapping ps),
      gps_new_replicas = domain_old_replicas_to_grpc (new_replicas ps),
      gps_old_replicas = domain_old_replicas_to_grpc (old_replicas ps)\<rparr>"

text \<open>
  The cluster state as the manager's output layer writes it (\<open>handle_output_cluster_state\<close>) and as
  the input layers of managers and workers read it.
\<close>

definition cluster_state_to_grpc :: "cluster_state \<Rightarrow> grpc_cluster_state" where
  "cluster_state_to_grpc cs =
     \<lparr>gc_epoch = cs_epoch cs, gc_leader_id = node_id_to_string (cs_leader_id cs),
      gc_nodes = map (\<lambda>n. \<lparr>gn_id = node_id_to_string (cn_id n), gn_addr = Some (cn_host n, cn_port n),
                            gn_last_heartbeat = cn_last_heartbeat n,
                            gn_node_type = domain_node_type_to_grpc (cn_node_type n)\<rparr>) (cs_nodes cs),
      gc_partitions = Some (domain_partitions_to_grpc (cs_partitions cs))\<rparr>"

definition grpc_node_to_domain :: "(string \<Rightarrow> string option) \<Rightarrow> grpc_addr \<Rightarrow> grpc_node \<Rightarrow> cluster_node option" where
  "grpc_node_to_domain uuid addr n =
     map_option (\<lambda>i. \<lparr>cn_id = i, cn_host = fst addr, cn_port = snd addr,
        cn_last_heartbeat = gn_last_heartbeat n, cn_node_type = grpc_node_type_to_domain (gn_node_type n)\<rparr>)
       (node_id_from_string uuid (gn_id n))"

text \<open>\<open>nodes.filter_map(..)\<close>: a node without address is left out, a malformed id panics.\<close>

definition grpc_nodes_to_domain :: "(string \<Rightarrow> string option) \<Rightarrow> grpc_node list \<Rightarrow> cluster_node list option" where
  "grpc_nodes_to_domain uuid ns =
     those (map (\<lambda>(a, n). grpc_node_to_domain uuid a n)
       (List.map_filter (\<lambda>n. map_option (\<lambda>a. (a, n)) (gn_addr n)) ns))"

definition grpc_cluster_state_to_domain ::
  "(string \<Rightarrow> string option) \<Rightarrow> grpc_cluster_state \<Rightarrow> grpc_partitions \<Rightarrow> cluster_state option" where
  "grpc_cluster_state_to_domain uuid cs parts =
     (case node_id_from_string uuid (gc_leader_id cs) of
        None \<Rightarrow> None
      | Some leader_id \<Rightarrow>
          (case grpc_partitions_to_domain uuid parts of
             None \<Rightarrow> None
           | Some ps \<Rightarrow>
               map_option (\<lambda>ns. \<lparr>cs_epoch = gc_epoch cs, cs_leader_id = leader_id, cs_nodes = ns,
                              cs_partitions = ps\<rparr>) (grpc_nodes_to_domain uuid (gc_nodes cs))))"

section \<open>Round trips\<close>

definition canonical :: "(string \<Rightarrow> string option) \<Rightarrow> node_id \<Rightarrow> bool" where
  "canonical uuid i \<longleftrightarrow> uuid (node_id_to_string i) = Some (node_id_to_string i)"

text \<open>The node ids of a table of partitions, and the type invariants of its sets.\<close>

definition partitions_canonical :: "(string \<Rightarrow> string option) \<Rightarrow> partitions \<Rightarrow> bool" where
  "partitions_canonical uuid ps \<longleftrightarrow>
     list_all (\<lambda>(_, q). canonical uuid (p_master q) \<and> list_all (canonical uuid) (p_replicas q) \<and>
       distinct (p_replicas q)) (mapping ps) \<and>
     list_all (\<lambda>(_, rs). list_all (canonical uuid) rs \<and> distinct rs) (old_replicas ps) \<and>
     list_all (\<lambda>(_, rs). list_all (canonical uuid) rs \<and> distinct rs) (new_replicas ps)"

definition state_canonical :: "(string \<Rightarrow> string option) \<Rightarrow> cluster_state \<Rightarrow> bool" where
  "state_canonical uuid cs \<longleftrightarrow> canonical uuid (cs_leader_id cs) \<and>
     list_all (\<lambda>n. canonical uuid (cn_id n)) (cs_nodes cs) \<and>
     parts_wf (cs_partitions cs) \<and> partitions_canonical uuid (cs_partitions cs)"

lemma those_map_Some: "(\<And>x. x \<in> set xs \<Longrightarrow> f x = Some (g x)) \<Longrightarrow> those (map f xs) = Some (map g xs)"
  by (induction xs) auto

lemma hm_collect_distinct: "hm_wf es \<Longrightarrow> hm_collect es = es"
proof -
  have "hm_wf (acc @ es) \<Longrightarrow> fold (\<lambda>(k, v). hm_insert k v) es acc = acc @ es" for acc
  proof (induction es arbitrary: acc)
    case (Cons e es)
    obtain k v where e: "e = (k, v)" by (cases e)
    have "k \<notin> fst ` set acc" using Cons.prems by (auto simp: e)
    then have "hm_insert k v acc = acc @ [(k, v)]" by (induction acc) auto
    with Cons.IH [of "acc @ [(k, v)]"] Cons.prems show ?case by (simp add: e)
  qed simp
  then show "hm_wf es \<Longrightarrow> hm_collect es = es" by (simp add: hm_collect_def)
qed

lemma hm_wf_collect [simp]: "hm_wf (hm_collect es)"
proof -
  have "hm_wf acc \<Longrightarrow> hm_wf (fold (\<lambda>(k, v). hm_insert k v) es acc)" for acc
    by (induction es arbitrary: acc) auto
  then show ?thesis by (simp add: hm_collect_def)
qed

lemma decoded_partitions_wf: "grpc_partitions_to_domain uuid ps = Some parts \<Longrightarrow> parts_wf parts"
  by (auto simp: grpc_partitions_to_domain_def grpc_partition_mapping_to_domain_def
      grpc_old_replicas_to_domain_def parts_wf_def split: option.splits)

lemma decoded_state_wf:
  "grpc_cluster_state_to_domain uuid cs ps = Some state \<Longrightarrow> parts_wf (cs_partitions state)"
  by (auto simp: grpc_cluster_state_to_domain_def decoded_partitions_wf split: option.splits)

lemma node_id_round_trip: "canonical uuid i \<Longrightarrow> node_id_from_string uuid (node_id_to_string i) = Some i"
  by (simp add: canonical_def node_id_from_string_def)

lemma node_ids_round_trip:
  "list_all (canonical uuid) rs \<Longrightarrow> distinct rs \<Longrightarrow>
   node_ids_to_domain uuid (map node_id_to_string rs) = Some rs"
proof -
  assume c: "list_all (canonical uuid) rs" and d: "distinct rs"
  have "those (map (node_id_from_string uuid \<circ> node_id_to_string) rs) = Some (map (\<lambda>i. i) rs)"
    using c by (intro those_map_Some) (auto simp: list_all_iff node_id_round_trip)
  with d show ?thesis by (simp add: node_ids_to_domain_def)
qed

lemma partition_number_round_trip: "PartitionId (ucast (ucast (partition_number p) :: u32)) = p"
  by (cases p) (simp add: ucast_down_ucast_id is_down)

lemma hm_wf_partition_keys:
  "hm_wf m \<Longrightarrow> hm_wf (map (\<lambda>(p, q). (ucast (partition_number p) :: u32, f q)) m)"
proof -
  assume "hm_wf m"
  moreover have "inj (\<lambda>p. ucast (partition_number p) :: u32)"
    by (rule inj_on_inverseI [of _ "\<lambda>x. PartitionId (ucast x)"]) (rule partition_number_round_trip)
  then have "distinct (map (\<lambda>p. ucast (partition_number p) :: u32) (hm_keys m))"
    using calculation by (metis distinct_map inj_on_subset subset_UNIV)
  then show ?thesis by (simp add: comp_def case_prod_unfold)
qed

lemma mapping_round_trip:
  assumes "hm_wf m" and "list_all (\<lambda>(_, q). canonical uuid (p_master q) \<and> list_all (canonical uuid) (p_replicas q) \<and>
       distinct (p_replicas q)) m"
  shows "grpc_partition_mapping_to_domain uuid (domain_partition_mapping_to_grpc m) = Some m"
proof -
  let ?g = "\<lambda>q. \<lparr>gp_master = node_id_to_string (p_master q), gp_replicas = map node_id_to_string (p_replicas q)\<rparr>"
  let ?f = "\<lambda>(p, q). map_option (Pair (PartitionId (ucast (p::u32)))) (grpc_partition_to_domain uuid q)"
  have "those (map (?f \<circ> (\<lambda>(p, q). (ucast (partition_number p), ?g q))) m) = Some (map (\<lambda>e. e) m)"
    using assms(2)
    by (intro those_map_Some)
       (auto simp: list_all_iff grpc_partition_to_domain_def node_id_round_trip node_ids_round_trip
         partition_number_round_trip)
  with hm_collect_distinct [OF hm_wf_partition_keys [OF assms(1), of ?g]] show ?thesis
    by (simp add: grpc_partition_mapping_to_domain_def domain_partition_mapping_to_grpc_def
        hm_collect_distinct [OF assms(1)] comp_def)
qed

lemma replicas_round_trip:
  assumes "hm_wf m" and "list_all (\<lambda>(_, rs). list_all (canonical uuid) rs \<and> distinct rs) m"
  shows "grpc_old_replicas_to_domain uuid (domain_old_replicas_to_grpc m) = Some m"
proof -
  let ?f = "\<lambda>(p, q). map_option (Pair (PartitionId (ucast (p::u32)))) (node_ids_to_domain uuid q)"
  have "those (map (?f \<circ> (\<lambda>(p, rs). (ucast (partition_number p), map node_id_to_string rs))) m) = Some (map (\<lambda>e. e) m)"
    using assms(2)
    by (intro those_map_Some) (auto simp: list_all_iff node_ids_round_trip partition_number_round_trip)
  with hm_collect_distinct [OF hm_wf_partition_keys [OF assms(1), of "map node_id_to_string"]] show ?thesis
    by (simp add: grpc_old_replicas_to_domain_def domain_old_replicas_to_grpc_def
        hm_collect_distinct [OF assms(1)] comp_def)
qed

lemma partitions_round_trip:
  "parts_wf ps \<Longrightarrow> partitions_canonical uuid ps \<Longrightarrow>
   grpc_partitions_to_domain uuid (domain_partitions_to_grpc ps) = Some ps"
  by (simp add: grpc_partitions_to_domain_def domain_partitions_to_grpc_def parts_wf_def
      partitions_canonical_def mapping_round_trip replicas_round_trip)

lemma node_type_round_trip: "grpc_node_type_to_domain (domain_node_type_to_grpc t) = t"
  by (cases t) (simp_all add: grpc_node_type_to_domain_def domain_node_type_to_grpc_def
      NODE_TYPE_MANAGER_def NODE_TYPE_WORKER_def)

lemma nodes_round_trip:
  assumes "list_all (\<lambda>n. canonical uuid (cn_id n)) ns"
  shows "grpc_nodes_to_domain uuid (gc_nodes (cluster_state_to_grpc (cs\<lparr>cs_nodes := ns\<rparr>))) = Some ns"
proof -
  have "those (map (\<lambda>n. grpc_node_to_domain uuid (cn_host n, cn_port n)
      \<lparr>gn_id = node_id_to_string (cn_id n), gn_addr = Some (cn_host n, cn_port n),
       gn_last_heartbeat = cn_last_heartbeat n, gn_node_type = domain_node_type_to_grpc (cn_node_type n)\<rparr>) ns) =
      Some (map (\<lambda>n. n) ns)"
    using assms
    by (intro those_map_Some)
       (auto simp: list_all_iff grpc_node_to_domain_def node_id_round_trip node_type_round_trip)
  then show ?thesis
    by (simp add: grpc_nodes_to_domain_def cluster_state_to_grpc_def map_filter_def comp_def)
qed

lemma nodes_round_trip_state:
  "list_all (\<lambda>n. canonical uuid (cn_id n)) (cs_nodes cs) \<Longrightarrow>
   grpc_nodes_to_domain uuid (gc_nodes (cluster_state_to_grpc cs)) = Some (cs_nodes cs)"
  using nodes_round_trip [of uuid "cs_nodes cs" cs] by simp

section \<open>Property\<close>

text \<open>
  C29: A cluster state survives the wire. When every node id in it is the canonical text of a UUID,
  the state the receiver decodes is the one the sender encoded: epoch, leader, nodes with their
  addresses, types and heartbeats, and the three partition tables with the 16-bit partition
  numbers that travel as 32-bit ones.
\<close>

theorem cluster_state_round_trip:
  assumes "state_canonical uuid cs"
  shows "\<exists>parts. gc_partitions (cluster_state_to_grpc cs) = Some parts \<and>
    grpc_cluster_state_to_domain uuid (cluster_state_to_grpc cs) parts = Some cs"
  using assms nodes_round_trip_state [of uuid cs]
  by (auto simp: grpc_cluster_state_to_domain_def state_canonical_def node_id_round_trip partitions_round_trip
      cluster_state_to_grpc_def)

definition demo_uuid :: "string \<Rightarrow> string option" where
  "demo_uuid s = (if s \<noteq> [] then Some s else None)"

definition demo_cluster_state :: cluster_state where
  "demo_cluster_state =
     \<lparr>cs_epoch = 3, cs_leader_id = NodeId ''m'',
      cs_nodes = [\<lparr>cn_id = NodeId ''a'', cn_host = ''h'', cn_port = 9, cn_last_heartbeat = 5, cn_node_type = Worker\<rparr>],
      cs_partitions =
        \<lparr>mapping = [(PartitionId 1, \<lparr>p_master = NodeId ''a'', p_replicas = [NodeId ''b'']\<rparr>)],
         old_replicas = [(PartitionId 2, [NodeId ''a''])], new_replicas = []\<rparr>\<rparr>"

lemma cluster_state_round_trip_witness:
  "\<exists>parts. gc_partitions (cluster_state_to_grpc demo_cluster_state) = Some parts \<and>
     grpc_cluster_state_to_domain demo_uuid (cluster_state_to_grpc demo_cluster_state) parts = Some demo_cluster_state"
  by (rule cluster_state_round_trip) (code_simp)

end
