(* ===== verification/Sessions.thy ===== *)
theory Sessions
  imports Wire_Format
begin

text \<open>
  What the gRPC layers of managers and workers share: a session is the sending half of an open
  stream, with the events written to it so far (\<open>grpc/session.rs\<close>, \<open>CommunicationStreamEither\<close>); the
  reader of a stream turns its events into protocol messages until it breaks off.

  A stream is the list of payloads read from it; it ends where the transport reports an error, the
  end of the stream or an event without payload. The channel to the service is open: sending to
  it succeeds.
\<close>

section \<open>Sessions\<close>

record 'e session =
  closed :: bool
  sent :: "'e list"

definition open_session :: "'e list \<Rightarrow> 'e session" where
  "open_session es = \<lparr>closed = False, sent = es\<rparr>"

definition session_send :: "'e \<Rightarrow> 'e session \<Rightarrow> 'e session" where
  "session_send e s = (if closed s then s else s\<lparr>sent := sent s @ [e]\<rparr>)"

text \<open>
  \<open>handle_common\<close>: an event for a node whose session is closed drops the session and reports the
  node as disconnected; without a session the event is dropped. The result says whether to report.
\<close>

definition handle_common ::
  "'e \<Rightarrow> node_id \<Rightarrow> (node_id, 'e session) hash_map \<Rightarrow> (node_id, 'e session) hash_map \<times> node_id list" where
  "handle_common event i sessions =
     (case hm_get sessions i of
        None \<Rightarrow> (sessions, [])
      | Some s \<Rightarrow>
          if closed s then (hm_remove i sessions, [i])
          else (hm_update i (session_send event) sessions, []))"

section \<open>Reading a stream\<close>

datatype 'm action = Emit 'm | Break | Panic

fun read_stream :: "('e \<Rightarrow> 'm action) \<Rightarrow> 'e list \<Rightarrow> 'm list \<times> bool" where
  "read_stream f [] = ([], False)"
| "read_stream f (e # es) =
     (case f e of
        Emit m \<Rightarrow> (let (ms, panicked) = read_stream f es in (m # ms, panicked))
      | Break \<Rightarrow> ([], False)
      | Panic \<Rightarrow> ([], True))"

text \<open>\<open>id.into()\<close> on an id from the wire: the message built from it, or the panic.\<close>

definition emit_with :: "(node_id \<Rightarrow> 'm) \<Rightarrow> node_id option \<Rightarrow> 'm action" where
  "emit_with f i = (case i of Some j \<Rightarrow> Emit (f j) | None \<Rightarrow> Panic)"

section \<open>Dialling\<close>

text \<open>
  What dialling a node yields: no channel, no stream, or a stream with the first event read from it
  (none when the \<open>Connect\<close> could not be sent or the stream ended). An answer that is awaited for
  ever is no outcome. The output loop dials and does nothing else meanwhile; the id in the answer is
  parsed by the loop itself, so a malformed one ends the loop.
\<close>

datatype 'e dial_outcome = ConnectFails string | OpenFails string | StreamOpens "'e option"

text \<open>
  An output loop that has panicked, in a process that goes on. Its receiver is dropped with it: what
  was queued is lost and what the service sends later is discarded. \<open>quiet s s'\<close> says that nothing
  has been written to a session between the two states.
\<close>

locale output_task =
  fixes step :: "'s \<Rightarrow> 's \<Rightarrow> bool" and gone :: "'s \<Rightarrow> bool" and quiet :: "'s \<Rightarrow> 's \<Rightarrow> bool"
  assumes gone_stays: "step s s' \<Longrightarrow> gone s \<Longrightarrow> gone s'"
    and gone_quiet: "step s s' \<Longrightarrow> gone s \<Longrightarrow> quiet s s'"
    and quiet_refl: "quiet s s"
    and quiet_trans: "quiet s s' \<Longrightarrow> quiet s' s'' \<Longrightarrow> quiet s s''"
begin

lemma run_gone: "step\<^sup>*\<^sup>* s s' \<Longrightarrow> gone s \<Longrightarrow> gone s' \<and> quiet s s'"
  by (induction rule: rtranclp_induct) (blast intro: gone_stays gone_quiet quiet_refl quiet_trans)+

end

text \<open>
  Between two tables of sessions nothing was written: every session has the events it had, or is
  new and has only those it was opened with.
\<close>

definition unwritten :: "'e list \<Rightarrow> (node_id, 'e session) hash_map \<Rightarrow> (node_id, 'e session) hash_map \<Rightarrow> bool" where
  "unwritten first sessions sessions' \<longleftrightarrow>
     (\<forall>i s'. hm_get sessions' i = Some s' \<longrightarrow>
        sent s' = first \<or> (\<exists>s. hm_get sessions i = Some s \<and> sent s' = sent s))"

lemma unwritten_refl [simp]: "unwritten first m m"
  by (simp add: unwritten_def)

lemma unwritten_trans: "unwritten first m m' \<Longrightarrow> unwritten first m' m'' \<Longrightarrow> unwritten first m m''"
  by (fastforce simp: unwritten_def)

lemma unwritten_changes [simp]:
  "unwritten first m (hm_insert i (open_session first) m)" "unwritten first m (hm_remove i m)"
  "unwritten first m (hm_update i (\<lambda>s. s\<lparr>closed := True\<rparr>) m)"
  by (auto simp: unwritten_def open_session_def split: if_splits)

section \<open>Lemmas\<close>

lemma read_stream_all:
  assumes "\<And>e m. f e = Emit m \<Longrightarrow> P m"
  shows "list_all P (fst (read_stream f es))"
  by (induction es) (auto simp: assms split: action.split prod.split)

lemma read_stream_emits:
  "(\<And>e. e \<in> set es \<Longrightarrow> f e = Emit (g e)) \<Longrightarrow> read_stream f es = (map g es, False)"
  by (induction es) auto

lemma handle_common_open:
  "hm_get sessions i = Some s \<Longrightarrow> \<not> closed s \<Longrightarrow>
   handle_common e i sessions = (hm_update i (session_send e) sessions, [])"
  by (simp add: handle_common_def)

lemma handle_common_other:
  "j \<noteq> i \<Longrightarrow> hm_get (fst (handle_common e i sessions)) j = hm_get sessions j"
  by (simp add: handle_common_def split: option.split)

lemma handle_common_wf: "hm_wf sessions \<Longrightarrow> hm_wf (fst (handle_common e i sessions))"
  by (simp add: handle_common_def split: option.split)

end
