(* ===== verification/Manager_State.thy ===== *)
theory Manager_State
  imports Cluster_Common
begin

text \<open>
  The manager's cluster state and the handlers that maintain membership: \<open>manager/domain.rs\<close>,
  \<open>manager/service/state.rs\<close>, \<open>cluster_state.rs\<close>, \<open>connection.rs\<close> and \<open>heartbeat.rs\<close>.

  A handler takes the state and returns the new one together with the messages it pushes to
  \<open>output\<close>, in order. \<open>now_millis()\<close> is the argument \<open>now\<close>, \<open>get_random_number()\<close> the argument
  \<open>rnd\<close>; the arithmetic on them wraps at 64 bits, as in a release build (\<open>Manager_Overflow\<close> has the build
  with overflow checks). Log output is left out.
\<close>

section \<open>Messages and state\<close>

datatype manager_protocol =
    MNewConnection "node_id option" string u32 bool
  | MHeartbeat node_id heartbeat
  | MGetClusterState node_id
  | MClusterState node_id cluster_state
  | MVoteRequest node_id u64 u64
  | MVoteResponse node_id node_id u64
  | MLeader node_id u64 u64
  | MNodeDisconnected node_id
  | MRemovePartitionFromReplica node_id node_id partition_id

record mstate =
  m_epoch :: "u64 option"
  m_elected_leader_id :: "node_id option"
  m_nodes :: "(node_id, node) hash_map"
  m_partitions :: partitions
  m_workers_with_calculated_partitions :: "node_id list"

definition new_mstate :: "(node_id, node) hash_map \<Rightarrow> u64 option \<Rightarrow> mstate" where
  "new_mstate nodes epoch =
     \<lparr>m_epoch = epoch, m_elected_leader_id = None, m_nodes = nodes,
      m_partitions = default_partitions, m_workers_with_calculated_partitions = []\<rparr>"

text \<open>The other managers this node knows, in the iteration order of the node table.\<close>

definition other_managers :: "node_id \<Rightarrow> mstate \<Rightarrow> node_id list" where
  "other_managers i st = map fst (filter (\<lambda>(k, n). k \<noteq> i \<and> is_manager n) (m_nodes st))"

section \<open>Cluster state exchange\<close>

definition touch :: "u64 \<Rightarrow> node \<Rightarrow> node" where
  "touch ts n = (if n_last_heartbeat n < ts then n\<lparr>n_last_heartbeat := ts\<rparr> else n)"

definition node_of_item :: "cluster_node \<Rightarrow> node" where
  "node_of_item item = \<lparr>n_host = cn_host item, n_port = cn_port item,
     n_last_heartbeat = cn_last_heartbeat item, n_node_type = cn_node_type item\<rparr>"

definition merge_item ::
  "cluster_node \<Rightarrow> (node_id, node) hash_map \<times> manager_protocol list \<Rightarrow>
   (node_id, node) hash_map \<times> manager_protocol list" where
  "merge_item item = (\<lambda>(nodes, out).
     case hm_get nodes (cn_id item) of
       Some _ \<Rightarrow> (hm_update (cn_id item) (touch (cn_last_heartbeat item)) nodes, out)
     | None \<Rightarrow>
         (case cn_node_type item of
            Manager \<Rightarrow> (nodes, out @ [MNewConnection None (cn_host item) (cn_port item) True])
          | Worker \<Rightarrow> (hm_insert (cn_id item) (node_of_item item) nodes, out)))"

text \<open>The admission test shared by managers and workers: a newer epoch, or the known leader.\<close>

definition accepts_state :: "u64 option \<Rightarrow> node_id option \<Rightarrow> u64 \<Rightarrow> node_id \<Rightarrow> bool" where
  "accepts_state cur_epoch cur_leader epoch leader_id \<longleftrightarrow>
     cur_epoch = None \<or> opt_less cur_epoch (Some epoch) \<or>
     cur_epoch = Some epoch \<and> cur_leader = Some leader_id"

definition handle_cluster_state ::
  "me \<Rightarrow> u64 \<Rightarrow> node_id \<Rightarrow> cluster_node list \<Rightarrow> partitions \<Rightarrow> mstate \<Rightarrow> mstate \<times> manager_protocol list" where
  "handle_cluster_state me epoch leader_id items parts st =
     (let (st1, accept) =
        (if m_epoch st = None \<or> opt_less (m_epoch st) (Some epoch)
         then (st\<lparr>m_epoch := Some epoch, m_elected_leader_id := Some leader_id\<rparr>, True)
         else if m_epoch st = Some epoch \<and> m_elected_leader_id st = Some leader_id then (st, True)
         else (st, False))
      in if accept
         then let kept = (if items \<noteq> []
                          then hm_retain (\<lambda>i _. i = me_id me \<or> i \<in> set (map cn_id items)) (m_nodes st1)
                          else m_nodes st1);
                  (nodes, out) = fold merge_item items (kept, [])
              in (st1\<lparr>m_partitions := parts, m_nodes := nodes\<rparr>, out)
         else (st1, []))"

definition cluster_node_of :: "node_id \<times> node \<Rightarrow> cluster_node" where
  "cluster_node_of = (\<lambda>(i, n). \<lparr>cn_id = i, cn_host = n_host n, cn_port = n_port n,
     cn_last_heartbeat = n_last_heartbeat n, cn_node_type = n_node_type n\<rparr>)"

definition handle_get_cluster_state :: "node_id \<Rightarrow> mstate \<Rightarrow> mstate \<times> manager_protocol list" where
  "handle_get_cluster_state i st =
     (st, case option_zip (m_epoch st) (m_elected_leader_id st) of
            None \<Rightarrow> []
          | Some (epoch, leader_id) \<Rightarrow>
              [MClusterState i \<lparr>cs_epoch = epoch, cs_leader_id = leader_id,
                 cs_nodes = map cluster_node_of (m_nodes st),
                 cs_partitions = \<lparr>mapping = mapping (m_partitions st),
                   old_replicas = old_replicas (m_partitions st),
                   new_replicas = new_replicas (m_partitions st)\<rparr>\<rparr>])"

definition handle_remove_old_partition ::
  "me \<Rightarrow> node_id \<Rightarrow> node_id \<Rightarrow> partition_id \<Rightarrow> mstate \<Rightarrow> mstate \<times> manager_protocol list" where
  "handle_remove_old_partition me i replica_id p st =
     (let parts = m_partitions st;
          old1 =
            (case hm_get (old_replicas parts) p of
               None \<Rightarrow> old_replicas parts
             | Some old \<Rightarrow>
                 (let old' = hs_remove replica_id old
                  in if replica_id \<in> set old \<and> old' = []
                     then hm_remove p (old_replicas parts)
                     else hm_insert p old' (old_replicas parts)))
      in (st\<lparr>m_partitions := parts\<lparr>old_replicas := old1\<rparr>\<rparr>,
          if m_elected_leader_id st = Some (me_id me)
          then map (\<lambda>r. MRemovePartitionFromReplica r replica_id p)
                 (filter (\<lambda>k. k \<noteq> replica_id \<and> k \<noteq> i \<and> k \<noteq> me_id me) (hm_keys (m_nodes st)))
          else []))"

section \<open>Connections\<close>

definition handle_node_disconnected :: "node_id \<Rightarrow> mstate \<Rightarrow> mstate" where
  "handle_node_disconnected i st =
     (case hm_get (m_nodes st) i of
        None \<Rightarrow> st
      | Some _ \<Rightarrow>
          (let nodes = hm_remove i (m_nodes st);
               st1 = st\<lparr>m_nodes := nodes\<rparr>
           in if Some i = m_elected_leader_id st \<or> length nodes = 1
              then st1\<lparr>m_elected_leader_id := None\<rparr>
              else st1))"

definition handle_new_connection ::
  "me \<Rightarrow> u64 \<Rightarrow> node_id option \<Rightarrow> string \<Rightarrow> u32 \<Rightarrow> bool \<Rightarrow> mstate \<Rightarrow> mstate \<times> manager_protocol list" where
  "handle_new_connection me now iopt host port manager st =
     (case iopt of
        None \<Rightarrow> (st, [])
      | Some i \<Rightarrow>
          (st\<lparr>m_nodes := hm_insert i
                \<lparr>n_host = host, n_port = port, n_last_heartbeat = now,
                 n_node_type = (if manager then Manager else Worker)\<rparr> (m_nodes st)\<rparr>,
           if manager \<and> (m_elected_leader_id st = None \<or> m_elected_leader_id st \<noteq> Some (me_id me))
           then [MGetClusterState i] else []))"

section \<open>Heartbeats\<close>

definition HEARTBEAT_INTERVAL_MS :: u64 where
  "HEARTBEAT_INTERVAL_MS = 200"

definition heartbeats :: "me \<Rightarrow> u64 \<Rightarrow> u64 \<Rightarrow> mstate \<Rightarrow> mstate \<times> manager_protocol list" where
  "heartbeats me now rnd st =
     (case hm_get (m_nodes st) (me_id me) of
        Some n \<Rightarrow>
          if n_node_type n = Manager
          then
            let due = n_last_heartbeat n + HEARTBEAT_INTERVAL_MS \<le> now;
                st1 = (if due
                       then st\<lparr>m_nodes := hm_update (me_id me) (\<lambda>n. n\<lparr>n_last_heartbeat := now\<rparr>) (m_nodes st)\<rparr>
                       else st);
                out = (if due
                       then map (\<lambda>k. MHeartbeat k \<lparr>hb_id = me_id me, hb_ts = now\<rparr>)
                              (filter (\<lambda>k. k \<noteq> me_id me) (hm_keys (m_nodes st1)))
                       else []);
                st2 = (case m_elected_leader_id st1 of
                         None \<Rightarrow> st1
                       | Some l \<Rightarrow>
                           if l \<noteq> me_id me
                           then (case hm_get (m_nodes st1) l of
                                   Some ln \<Rightarrow>
                                     if n_node_type ln = Manager \<and> n_last_heartbeat ln + rnd < now
                                     then st1\<lparr>m_elected_leader_id := None\<rparr> else st1
                                 | None \<Rightarrow> st1)
                           else st1)
            in (st2, out)
          else (st, [])
      | None \<Rightarrow> (st, []))"

definition handle_heartbeat :: "me \<Rightarrow> node_id \<Rightarrow> u64 \<Rightarrow> mstate \<Rightarrow> mstate \<times> manager_protocol list" where
  "handle_heartbeat me i ts st =
     (case hm_get (m_nodes st) i of
        None \<Rightarrow> (st, map MGetClusterState (other_managers (me_id me) st))
      | Some _ \<Rightarrow>
          (st\<lparr>m_nodes := hm_update i (\<lambda>n. n\<lparr>n_last_heartbeat := max (n_last_heartbeat n) ts\<rparr>) (m_nodes st)\<rparr>,
           if m_elected_leader_id st = Some (me_id me)
           then map (\<lambda>k. MHeartbeat k \<lparr>hb_id = i, hb_ts = ts\<rparr>)
                  (filter (\<lambda>k. k \<noteq> i \<and> k \<noteq> me_id me) (hm_keys (m_nodes st)))
           else []))"

section \<open>What the handlers keep\<close>

text \<open>
  The state is well-formed when its tables are hash maps and a leader is known only together with
  an epoch. \<open>advances a b\<close> is the order on states the protocol relies on: the epoch does not go
  back, and within an epoch the leader is kept or forgotten.
\<close>

definition mstate_wf :: "mstate \<Rightarrow> bool" where
  "mstate_wf st \<longleftrightarrow> hm_wf (m_nodes st) \<and> parts_wf (m_partitions st) \<and>
     (m_epoch st = None \<longrightarrow> m_elected_leader_id st = None)"

definition advances :: "mstate \<Rightarrow> mstate \<Rightarrow> bool" where
  "advances a b \<longleftrightarrow>
     (case m_epoch a of
        None \<Rightarrow> True
      | Some e \<Rightarrow>
          (case m_epoch b of
             None \<Rightarrow> False
           | Some e' \<Rightarrow> e < e' \<or> e = e' \<and>
               (m_elected_leader_id b = m_elected_leader_id a \<or> m_elected_leader_id b = None)))"

fun manager_msg_wf :: "manager_protocol \<Rightarrow> bool" where
  "manager_msg_wf (MClusterState _ cs) = parts_wf (cs_partitions cs)"
| "manager_msg_wf _ = True"

lemma advances_refl [simp]: "advances st st"
  by (simp add: advances_def split: option.split)

lemma advances_trans: "advances a b \<Longrightarrow> advances b c \<Longrightarrow> advances a c"
  by (auto simp: advances_def split: option.splits)

lemma advances_same:
  "m_epoch b = m_epoch a \<Longrightarrow> m_elected_leader_id b \<in> {m_elected_leader_id a, None} \<Longrightarrow> advances a b"
  by (auto simp: advances_def split: option.split)

lemma merge_item_wf: "hm_wf (fst s) \<Longrightarrow> hm_wf (fst (merge_item item s))"
  by (cases s) (auto simp: merge_item_def split: option.split node_type.split)

lemma merge_items_wf: "hm_wf (fst s) \<Longrightarrow> hm_wf (fst (fold merge_item items s))"
  by (induction items arbitrary: s) (simp_all add: merge_item_wf)

lemma handle_cluster_state_cases:
  "(fst (handle_cluster_state me epoch l items parts st) = st \<and>
      snd (handle_cluster_state me epoch l items parts st) = [] \<and>
      \<not> accepts_state (m_epoch st) (m_elected_leader_id st) epoch l) \<or>
   (accepts_state (m_epoch st) (m_elected_leader_id st) epoch l \<and>
    m_epoch (fst (handle_cluster_state me epoch l items parts st)) = Some epoch \<and>
    m_elected_leader_id (fst (handle_cluster_state me epoch l items parts st)) = Some l \<and>
    m_partitions (fst (handle_cluster_state me epoch l items parts st)) = parts)"
  by (auto simp: handle_cluster_state_def accepts_state_def Let_def split: prod.splits)

lemma handle_cluster_state_nodes_wf:
  assumes "hm_wf (m_nodes st)"
  shows "hm_wf (m_nodes (fst (handle_cluster_state me epoch l items parts st)))"
proof -
  have "hm_wf (fst (fold merge_item items (if items \<noteq> []
      then hm_retain (\<lambda>i _. i = me_id me \<or> i \<in> set (map cn_id items)) (m_nodes st) else m_nodes st, [])))"
    using assms by (intro merge_items_wf) simp
  with assms show ?thesis by (auto simp: handle_cluster_state_def Let_def split: prod.splits)
qed

lemma handle_cluster_state_keeps:
  assumes "mstate_wf st" and "parts_wf parts"
  shows "mstate_wf (fst (handle_cluster_state me epoch l items parts st))"
    and "advances st (fst (handle_cluster_state me epoch l items parts st))"
  using assms handle_cluster_state_cases [of me epoch l items parts st]
    handle_cluster_state_nodes_wf [of st me epoch l items parts]
  by (auto simp: mstate_wf_def advances_def accepts_state_def split: option.splits)

lemma handle_remove_old_partition_keeps:
  assumes "mstate_wf st"
  shows "mstate_wf (fst (handle_remove_old_partition me i r p st))"
    and "advances st (fst (handle_remove_old_partition me i r p st))"
  using assms
  by (auto simp: mstate_wf_def parts_wf_def handle_remove_old_partition_def Let_def split: option.split
      intro: advances_same)

lemma handle_node_disconnected_keeps:
  assumes "mstate_wf st"
  shows "mstate_wf (handle_node_disconnected i st)" and "advances st (handle_node_disconnected i st)"
  using assms
  by (auto simp: mstate_wf_def handle_node_disconnected_def Let_def split: option.split intro: advances_same)

lemma handle_new_connection_keeps:
  assumes "mstate_wf st"
  shows "mstate_wf (fst (handle_new_connection me now i h p mgr st))"
    and "advances st (fst (handle_new_connection me now i h p mgr st))"
  using assms by (auto simp: mstate_wf_def handle_new_connection_def split: option.split intro: advances_same)

lemma handle_heartbeat_keeps:
  assumes "mstate_wf st"
  shows "mstate_wf (fst (handle_heartbeat me i ts st))" and "advances st (fst (handle_heartbeat me i ts st))"
  using assms by (auto simp: mstate_wf_def handle_heartbeat_def split: option.split intro: advances_same)

lemma heartbeats_keeps:
  assumes "mstate_wf st"
  shows "mstate_wf (fst (heartbeats me now rnd st))" and "advances st (fst (heartbeats me now rnd st))"
  using assms
  by (auto simp: mstate_wf_def heartbeats_def Let_def split: option.split intro: advances_same)

end
