(* ===== verification/Manager_Election.thy ===== *)
theory Manager_Election
  imports Manager_State
begin

text \<open>
  Leader election between managers (\<open>manager/service/election.rs\<close>). \<open>elections\<close> is the
  \<open>BTreeMap\<close> from epoch to election; \<open>last_key_value()\<close> is its last entry.
\<close>

section \<open>Elections\<close>

datatype election = Mine u64 "node_id hash_set" | Other u64 node_id

fun election_ts :: "election \<Rightarrow> u64" where
  "election_ts (Mine ts _) = ts"
| "election_ts (Other ts _) = ts"

type_synonym elections = "(u64 \<times> election) list"

definition last_election :: "elections \<Rightarrow> (u64 \<times> election) option" where
  "last_election els = (if els = [] then None else Some (last els))"

definition start_election_if_needed ::
  "me \<Rightarrow> u64 \<Rightarrow> u64 \<Rightarrow> mstate \<Rightarrow> elections \<Rightarrow> elections \<times> manager_protocol list" where
  "start_election_if_needed me curr_ts rnd st els =
     (case m_epoch st of
        Some epoch \<Rightarrow>
          if m_elected_leader_id st = None \<and> length (m_nodes st) > 1
          then
            let start_new = (case last_election els of
                               Some (_, e) \<Rightarrow> election_ts e + rnd < curr_ts
                             | None \<Rightarrow> True)
            in if start_new
               then let next_epoch = (case last_election els of
                                        Some (last_epoch, _) \<Rightarrow> max (last_epoch + 1) (epoch + 1)
                                      | None \<Rightarrow> epoch + 1)
                    in ([(next_epoch, Mine curr_ts [])],
                        map (\<lambda>i. MVoteRequest i next_epoch curr_ts) (other_managers (me_id me) st))
               else (els, [])
          else (els, [])
      | None \<Rightarrow> (els, []))"

definition handle_leader ::
  "me \<Rightarrow> node_id \<Rightarrow> u64 \<Rightarrow> u64 \<Rightarrow> mstate \<Rightarrow> elections \<Rightarrow> mstate \<times> elections \<times> manager_protocol list" where
  "handle_leader me i epoch ts st els =
     (if opt_less (m_epoch st) (Some epoch)
      then
        (case hm_get (m_nodes st) i of
           Some n \<Rightarrow>
             if n_node_type n = Manager
             then (st\<lparr>m_nodes := hm_update i (\<lambda>n. n\<lparr>n_last_heartbeat := ts\<rparr>) (m_nodes st),
                      m_elected_leader_id := Some i, m_epoch := Some epoch\<rparr>, [], [])
             else (st, [], map MGetClusterState (other_managers (me_id me) st))
         | None \<Rightarrow> (st, [], map MGetClusterState (other_managers (me_id me) st)))
      else (st, els, []))"

definition handle_vote_response ::
  "me \<Rightarrow> node_id \<Rightarrow> node_id \<Rightarrow> u64 \<Rightarrow> mstate \<Rightarrow> elections \<Rightarrow>
   mstate \<times> elections \<times> manager_protocol list" where
  "handle_vote_response me i leader_id ts st els =
     (let approver =
        (case last_election els of
           Some (epoch, Mine started _) \<Rightarrow>
             if started = ts \<and> leader_id = me_id me then Some (epoch, i) else None
         | _ \<Rightarrow> None)
      in case approver of
           Some (epoch, approver) \<Rightarrow>
             (case hm_get els epoch of
                Some (Mine ets approvers) \<Rightarrow>
                  (let approvers1 = hs_insert approver approvers;
                       els1 = hm_update epoch (\<lambda>_. Mine ets approvers1) els;
                       others = other_managers (me_id me) st
                   in if length approvers1 = length others \<and> list_all (\<lambda>j. j \<in> set approvers1) others
                      then (st\<lparr>m_elected_leader_id := Some (me_id me), m_epoch := Some epoch\<rparr>, [],
                            map (\<lambda>k. MLeader k epoch ts)
                              (filter (\<lambda>k. k \<noteq> me_id me) (hm_keys (m_nodes st))))
                      else (st, els1, []))
              | _ \<Rightarrow> (st, els, []))
         | None \<Rightarrow>
             if hm_get (m_nodes st) leader_id = None
             then (st, els, map MGetClusterState (other_managers (me_id me) st))
             else (st, els, []))"

definition handle_vote_request ::
  "node_id \<Rightarrow> u64 \<Rightarrow> u64 \<Rightarrow> mstate \<Rightarrow> elections \<Rightarrow> elections \<times> manager_protocol list" where
  "handle_vote_request i epoch ts st els =
     (if opt_less (m_epoch st) (Some epoch)
      then
        let add_new = (case last_election els of
                         Some (last_epoch, e) \<Rightarrow> last_epoch < epoch \<or> ts < election_ts e
                       | None \<Rightarrow> True)
        in if add_new
           then ([(epoch, Other ts i)], [MVoteResponse i i ts])
           else (case hm_get els epoch of
                   Some (Other ots candidate_id) \<Rightarrow> (els, [MVoteResponse i candidate_id ots])
                 | _ \<Rightarrow> (els, []))
      else (els, []))"

section \<open>What the handlers keep\<close>

text \<open>
  At most one election is pending. It is current when it is for an epoch beyond the state's; only
  then does winning it move the epoch forward.
\<close>

definition election_current :: "mstate \<Rightarrow> elections \<Rightarrow> bool" where
  "election_current st els \<longleftrightarrow> length els \<le> 1 \<and> list_all (\<lambda>(e, _). opt_less (m_epoch st) (Some e)) els"

lemma last_election_single: "length els \<le> 1 \<Longrightarrow> last_election els = Some x \<longleftrightarrow> els = [x]"
  by (cases els) (auto simp: last_election_def)

lemma single_elections:
  "length els \<le> 1 \<Longrightarrow> length (fst (start_election_if_needed me ts rnd st els)) \<le> 1"
  "length els \<le> 1 \<Longrightarrow> length (fst (handle_vote_request i e ts st els)) \<le> 1"
  "length els \<le> 1 \<Longrightarrow> length (fst (snd (handle_leader me i e ts st els))) \<le> 1"
  "length els \<le> 1 \<Longrightarrow> length (fst (snd (handle_vote_response me i l ts st els))) \<le> 1"
  by (auto simp: start_election_if_needed_def handle_vote_request_def handle_leader_def
      handle_vote_response_def Let_def split: option.split election.split)

lemma handle_leader_keeps:
  assumes "mstate_wf st"
  shows "mstate_wf (fst (handle_leader me i e ts st els))" and "advances st (fst (handle_leader me i e ts st els))"
  using assms by (auto simp: mstate_wf_def handle_leader_def advances_def split: option.splits)

lemma handle_vote_response_wf:
  "mstate_wf st \<Longrightarrow> mstate_wf (fst (handle_vote_response me i l ts st els))"
  by (auto simp: mstate_wf_def handle_vote_response_def Let_def split: option.splits election.splits)

text \<open>The complete behaviour of a vote response while an election of this manager is pending.\<close>

lemma handle_vote_response_mine:
  "handle_vote_response me i (me_id me) ts st [(epoch, Mine ts approvers)] =
     (if length (hs_insert i approvers) = length (other_managers (me_id me) st) \<and>
         list_all (\<lambda>j. j \<in> set (hs_insert i approvers)) (other_managers (me_id me) st)
      then (st\<lparr>m_elected_leader_id := Some (me_id me), m_epoch := Some epoch\<rparr>, [],
            map (\<lambda>k. MLeader k epoch ts) (filter (\<lambda>k. k \<noteq> me_id me) (hm_keys (m_nodes st))))
      else (st, [(epoch, Mine ts (hs_insert i approvers))], []))"
  by (simp add: handle_vote_response_def last_election_def Let_def)

lemma handle_vote_response_state:
  "fst (handle_vote_response me i l ts st els) = st \<or>
   (\<exists>epoch ets as. last_election els = Some (epoch, Mine ets as) \<and>
      fst (handle_vote_response me i l ts st els) =
        st\<lparr>m_elected_leader_id := Some (me_id me), m_epoch := Some epoch\<rparr>)"
  by (auto simp: handle_vote_response_def Let_def split: option.splits election.splits)

lemma handle_vote_response_advances:
  assumes "election_current st els"
  shows "advances st (fst (handle_vote_response me i l ts st els))"
  using handle_vote_response_state [of me i l ts st els] assms
  by (auto simp: election_current_def last_election_single advances_def split: option.splits)

end
