(* ===== verification/Manager_Partitions.thy ===== *)
theory Manager_Partitions
  imports Manager_State
begin

text \<open>
  Assignment of partitions to workers by the leader (\<open>manager/service/partitions.rs\<close>).

  Results are options: \<^const>\<open>None\<close> is a panic (an \<open>expect\<close>, a division by zero) or the endless
  loop of \<open>calc_replica_index\<close> on an empty worker list. The properties show that none of them
  happens when a leader with a known epoch recalculates.
\<close>

section \<open>Loops that may fail\<close>

primrec fold_opt :: "('a \<Rightarrow> 's \<Rightarrow> 's option) \<Rightarrow> 'a list \<Rightarrow> 's \<Rightarrow> 's option" where
  "fold_opt f [] s = Some s"
| "fold_opt f (x # xs) s = (case f x s of None \<Rightarrow> None | Some s' \<Rightarrow> fold_opt f xs s')"

section \<open>The replica layout\<close>

partial_function (option) reduce_replica :: "nat \<Rightarrow> nat \<Rightarrow> nat option" where
  "reduce_replica total_amount replica =
     (if total_amount \<le> replica then reduce_replica total_amount (replica - total_amount)
      else Some replica)"

definition calc_replica_index :: "nat \<Rightarrow> nat \<Rightarrow> nat \<Rightarrow> nat option" where
  "calc_replica_index total_amount master_partition_index replica0 =
     (case reduce_replica total_amount replica0 of
        None \<Rightarrow> None
      | Some replica \<Rightarrow>
          (let index = master_partition_index
           in if index < replica then Some (total_amount - (replica - index))
              else Some (index - replica)))"

definition place_replica ::
  "node_id list \<Rightarrow> nat \<Rightarrow> nat \<Rightarrow> (partition_id, partition) hash_map \<Rightarrow>
   (partition_id, partition) hash_map option" where
  "place_replica vec part replica new_mapping =
     (case calc_replica_index (length vec) (part mod length vec) replica of
        None \<Rightarrow> None
      | Some index \<Rightarrow>
          if length vec \<le> index then None
          else
            let i = vec ! index; p = PartitionId (word_of_nat part)
            in if replica = 0
               then Some (hm_insert p \<lparr>p_master = i, p_replicas = []\<rparr> new_mapping)
               else (case hm_get new_mapping p of
                       None \<Rightarrow> None
                     | Some _ \<Rightarrow>
                         Some (hm_update p (\<lambda>q. q\<lparr>p_replicas := hs_insert i (p_replicas q)\<rparr>) new_mapping)))"

definition assign_partition ::
  "node_id list \<Rightarrow> nat \<Rightarrow> nat \<Rightarrow> (partition_id, partition) hash_map \<Rightarrow>
   (partition_id, partition) hash_map option" where
  "assign_partition vec replication_factor part new_mapping =
     (if vec = [] then None \<comment> \<open>\<open>partition % vec.len()\<close> panics\<close>
      else fold_opt (place_replica vec part) [0..<replication_factor] new_mapping)"

definition new_mapping_for ::
  "nat \<Rightarrow> nat \<Rightarrow> node_id list \<Rightarrow> (partition_id, partition) hash_map option" where
  "new_mapping_for partitions_amount replication_factor vec =
     fold_opt (assign_partition vec replication_factor) [0..<partitions_amount] []"

text \<open>The owners a partition gains: in the new assignment and not in the old one.\<close>

definition gained_owners :: "partition \<Rightarrow> partition \<Rightarrow> node_id hash_set" where
  "gained_owners old new =
     hs_extend
       (if p_master new \<noteq> p_master old \<and> p_master new \<notin> set (p_replicas old) then [p_master new] else [])
       (filter (\<lambda>r. r \<noteq> p_master old \<and> r \<notin> set (p_replicas old)) (p_replicas new))"

definition note_gained ::
  "(partition_id, partition) hash_map \<Rightarrow> partition_id \<times> partition \<Rightarrow>
   (partition_id, node_id hash_set) hash_map \<Rightarrow> (partition_id, node_id hash_set) hash_map" where
  "note_gained new_mapping = (\<lambda>(p, old) gained.
     case hm_get new_mapping p of
       Some new \<Rightarrow> hm_insert p (gained_owners old new) gained
     | None \<Rightarrow> gained)"

definition calculate_new_mapping :: "nat \<Rightarrow> nat \<Rightarrow> node_id list \<Rightarrow> mstate \<Rightarrow> mstate option" where
  "calculate_new_mapping partitions_amount replication_factor vec st =
     (case new_mapping_for partitions_amount replication_factor vec of
        None \<Rightarrow> None
      | Some new_mapping \<Rightarrow>
          (let parts = m_partitions st
           in Some (st\<lparr>m_partitions := parts\<lparr>
                new_replicas := fold (note_gained new_mapping) (mapping parts) (new_replicas parts),
                mapping := new_mapping\<rparr>\<rparr>)))"

section \<open>Old owners\<close>

definition note_old_owners ::
  "partition_id \<times> partition \<Rightarrow> (partition_id, node_id hash_set) hash_map \<Rightarrow>
   (partition_id, node_id hash_set) hash_map" where
  "note_old_owners = (\<lambda>(p, q) old.
     case hm_get old p of
       Some o' \<Rightarrow> hm_insert p (hs_insert (p_master q) (hs_extend o' (p_replicas q))) old
     | None \<Rightarrow> hm_insert p (hs_insert (p_master q) (p_replicas q)) old)"

definition copy_current_mapping_to_old :: "node_id list \<Rightarrow> mstate \<Rightarrow> mstate" where
  "copy_current_mapping_to_old current_keys st =
     (let parts = m_partitions st;
          noted = fold note_old_owners (mapping parts) (old_replicas parts);
          kept = hm_retain (\<lambda>_ o'. o' \<noteq> [])
                   (map (\<lambda>(p, o'). (p, filter (\<lambda>i. i \<in> set current_keys) o')) noted)
      in st\<lparr>m_partitions := parts\<lparr>old_replicas := kept\<rparr>\<rparr>)"

section \<open>Recalculation\<close>

definition create_new_workers_state :: "mstate \<Rightarrow> cluster_state option" where
  "create_new_workers_state st =
     (case m_epoch st of
        None \<Rightarrow> None
      | Some epoch \<Rightarrow>
          (case m_elected_leader_id st of
             None \<Rightarrow> None
           | Some leader_id \<Rightarrow>
               Some \<lparr>cs_epoch = epoch, cs_leader_id = leader_id, cs_nodes = [],
                     cs_partitions = \<lparr>mapping = mapping (m_partitions st),
                       old_replicas = old_replicas (m_partitions st),
                       new_replicas = new_replicas (m_partitions st)\<rparr>\<rparr>))"

text \<open>A \<open>BTreeSet\<close> collected from an iterator.\<close>

definition bt_collect :: "'a::linorder list \<Rightarrow> 'a list" where
  "bt_collect xs = sort (remdups xs)"

definition worker_keys :: "mstate \<Rightarrow> node_id list" where
  "worker_keys st = bt_collect (map fst (filter (\<lambda>(_, n). is_worker n) (m_nodes st)))"

definition worker_partitions ::
  "me \<Rightarrow> nat \<Rightarrow> mstate \<Rightarrow> (mstate \<times> manager_protocol list) option" where
  "worker_partitions me replication_factor st =
     (if m_elected_leader_id st = Some (me_id me)
      then
        let current_keys = worker_keys st
        in if length (m_workers_with_calculated_partitions st) \<noteq> length current_keys
              \<or> current_keys \<noteq> m_workers_with_calculated_partitions st
           then
             let st1 = copy_current_mapping_to_old current_keys st
             in if current_keys \<noteq> []
                then
                  (case calculate_new_mapping PARTITIONS_AMOUNT replication_factor current_keys st1 of
                     None \<Rightarrow> None
                   | Some st2 \<Rightarrow>
                       (case create_new_workers_state st2 of
                          None \<Rightarrow> None
                        | Some workers_state \<Rightarrow>
                            Some (st2\<lparr>m_workers_with_calculated_partitions := current_keys\<rparr>,
                                  map (\<lambda>i. MClusterState i workers_state)
                                    (filter (\<lambda>k. k \<noteq> me_id me) (hm_keys (m_nodes st2))))))
                else Some (st1\<lparr>m_workers_with_calculated_partitions := []\<rparr>, [])
           else Some (st, [])
      else Some (st, []))"

section \<open>What the layout should be\<close>

text \<open>
  Replica \<open>r\<close> of partition \<open>part\<close> sits \<open>r\<close> places before the partition's master on the ring of
  workers. The owners of a partition are its master and its replicas.
\<close>

definition owner_at :: "node_id list \<Rightarrow> nat \<Rightarrow> nat \<Rightarrow> node_id" where
  "owner_at vec part r =
     vec ! ((part mod length vec + length vec - r mod length vec) mod length vec)"

definition layout :: "node_id list \<Rightarrow> nat \<Rightarrow> nat \<Rightarrow> partition" where
  "layout vec rf part =
     \<lparr>p_master = owner_at vec part 0, p_replicas = hs_collect (map (owner_at vec part) [1..<rf])\<rparr>"

definition owners :: "partition \<Rightarrow> node_id set" where
  "owners q = insert (p_master q) (set (p_replicas q))"

definition part_of_nat :: "nat \<Rightarrow> partition_id" where
  "part_of_nat n = PartitionId (word_of_nat n)"

text \<open>The owners named by an assignment and by a table of old owners.\<close>

definition noted_owners :: "(partition_id, partition) hash_map \<Rightarrow> (partition_id, node_id hash_set) hash_map \<Rightarrow>
    partition_id \<Rightarrow> node_id set" where
  "noted_owners m old p =
     (case hm_get m p of Some q \<Rightarrow> owners q | None \<Rightarrow> {}) \<union>
     (case hm_get old p of Some os \<Rightarrow> set os | None \<Rightarrow> {})"

text \<open>The owners recorded for a partition, empty when it has no entry.\<close>

definition listed :: "(partition_id, node_id hash_set) hash_map \<Rightarrow> partition_id \<Rightarrow> node_id set" where
  "listed m p = (case hm_get m p of Some os \<Rightarrow> set os | None \<Rightarrow> {})"

section \<open>Lemmas\<close>

lemma reduce_replica_mod: "0 < n \<Longrightarrow> reduce_replica n r = Some (r mod n)"
proof (induction r rule: less_induct)
  case (less r)
  show ?case
  proof (cases "n \<le> r")
    case True
    with less show ?thesis by (subst reduce_replica.simps) (simp add: le_mod_geq)
  next
    case False
    then show ?thesis by (subst reduce_replica.simps) simp
  qed
qed

lemma ring_wrap:
  fixes n :: nat
  assumes "x \<le> m" and "m < n"
  shows "(m + n - x) mod n = m - x"
proof -
  have "m + n - x = (m - x) + n" using assms by arith
  then have "(m + n - x) mod n = (m - x) mod n" by (simp only: mod_add_self2)
  with assms show ?thesis by simp
qed

lemma calc_replica_index_eq:
  assumes "m < n"
  shows "calc_replica_index n m r = Some ((m + n - r mod n) mod n)"
proof -
  have r: "r mod n < n" using assms by simp
  show ?thesis
  proof (cases "m < r mod n")
    case True
    with r have "(m + n - r mod n) mod n = n - (r mod n - m)" by simp
    with True assms show ?thesis by (simp add: calc_replica_index_def reduce_replica_mod)
  next
    case False
    with assms have "(m + n - r mod n) mod n = m - r mod n" by (simp add: ring_wrap)
    with False assms show ?thesis by (simp add: calc_replica_index_def reduce_replica_mod)
  qed
qed

lemma owner_at_0: "owner_at vec part 0 = vec ! (part mod length vec)"
  by (cases "vec = []") (simp_all add: owner_at_def)

lemma owner_at_mem: "vec \<noteq> [] \<Longrightarrow> owner_at vec part r \<in> set vec"
  by (simp add: owner_at_def)

lemma place_replica_eq:
  assumes "vec \<noteq> []"
  shows "place_replica vec part r m =
    (if r = 0 then Some (hm_insert (part_of_nat part) \<lparr>p_master = owner_at vec part 0, p_replicas = []\<rparr> m)
     else case hm_get m (part_of_nat part) of
        None \<Rightarrow> None
      | Some _ \<Rightarrow> Some (hm_update (part_of_nat part)
                    (\<lambda>q. q\<lparr>p_replicas := hs_insert (owner_at vec part r) (p_replicas q)\<rparr>) m))"
proof -
  let ?n = "length vec" and ?m = "part mod length vec"
  let ?i = "(?m + ?n - r mod ?n) mod ?n"
  have "0 < ?n" using assms by simp
  then have "?m < ?n" and i: "\<not> ?n \<le> ?i" by (simp_all add: not_le)
  then have idx: "calc_replica_index ?n ?m r = Some ?i" by (intro calc_replica_index_eq)
  show ?thesis
    by (simp only: place_replica_def idx option.case i if_False Let_def owner_at_def [symmetric]
        part_of_nat_def [symmetric] cong: if_cong)
qed

lemma place_replicas:
  assumes "vec \<noteq> []" and "0 \<notin> set rs"
  shows "fold_opt (place_replica vec part) rs (hm_insert (part_of_nat part) q m) =
    Some (hm_insert (part_of_nat part)
      (q\<lparr>p_replicas := hs_extend (p_replicas q) (map (owner_at vec part) rs)\<rparr>) m)"
  using assms(2)
proof (induction rs arbitrary: q)
  case (Cons r rs)
  then show ?case by (simp add: place_replica_eq [OF assms(1)] hs_extend_def)
qed (simp add: hs_extend_def)

lemma assign_partition_eq:
  assumes "vec \<noteq> []" and "0 < rf"
  shows "assign_partition vec rf part m = Some (hm_insert (part_of_nat part) (layout vec rf part) m)"
proof -
  have "[0..<rf] = 0 # [1..<rf]" using assms(2) by (simp add: upt_conv_Cons)
  then show ?thesis
    using assms place_replicas [OF assms(1), of "[1..<rf]" part]
    by (simp add: assign_partition_def place_replica_eq layout_def)
qed

lemma new_mapping_for_eq:
  assumes "vec \<noteq> []" and "0 < rf"
  shows "new_mapping_for amount rf vec =
    Some (fold (\<lambda>part. hm_insert (part_of_nat part) (layout vec rf part)) [0..<amount] [])"
proof -
  have "fold_opt (assign_partition vec rf) ps m =
      Some (fold (\<lambda>part. hm_insert (part_of_nat part) (layout vec rf part)) ps m)" for ps m
    by (induction ps arbitrary: m) (simp_all add: assign_partition_eq assms)
  then show ?thesis by (simp add: new_mapping_for_def)
qed

lemma new_mapping_for_zero: "vec \<noteq> [] \<Longrightarrow> new_mapping_for amount 0 vec = Some []"
proof -
  assume vec: "vec \<noteq> []"
  have "fold_opt (assign_partition vec 0) ps m = Some m" for ps m
    by (induction ps arbitrary: m) (simp_all add: assign_partition_def vec)
  then show ?thesis by (simp add: new_mapping_for_def)
qed

lemma inj_part_of_nat: "inj_on part_of_nat {0..<n}" if "n \<le> 65536"
  using that by (auto simp: inj_on_def part_of_nat_def word_of_nat_eq_iff take_bit_nat_eq_self)

lemma new_mapping_for_get:
  assumes "vec \<noteq> []" and "0 < rf" and "amount \<le> 65536"
    and "new_mapping_for amount rf vec = Some m"
  shows "part < amount \<Longrightarrow> hm_get m (part_of_nat part) = Some (layout vec rf part)"
    and "hm_get m p = Some q \<Longrightarrow> \<exists>part<amount. p = part_of_nat part \<and> q = layout vec rf part"
    and "hm_wf m"
proof -
  have m: "m = fold (\<lambda>part. hm_insert (part_of_nat part) (layout vec rf part)) [0..<amount] []"
    using assms(4) new_mapping_for_eq [OF assms(1,2)] by simp
  have inj: "inj_on part_of_nat (set [0..<amount])" using inj_part_of_nat [OF assms(3)] by simp
  show get: "part < amount \<Longrightarrow> hm_get m (part_of_nat part) = Some (layout vec rf part)" for part
    unfolding m using inj by (intro hm_get_fold_insert) auto
  show "hm_get m p = Some q \<Longrightarrow> \<exists>part<amount. p = part_of_nat part \<and> q = layout vec rf part"
  proof -
    assume p: "hm_get m p = Some q"
    then have "p \<in> part_of_nat ` set [0..<amount]"
      unfolding m by (metis hm_get_fold_insert_other map_of.simps(1) option.distinct(1))
    then obtain part where "part < amount" "p = part_of_nat part" by auto
    with get p show ?thesis by auto
  qed
  show "hm_wf m" unfolding m by (rule hm_wf_fold_insert) simp
qed

lemma set_gained_owners:
  "set (gained_owners old new) = owners new - owners old"
  by (auto simp: gained_owners_def owners_def)

lemma layout_simps [simp]:
  "p_master (layout vec rf part) = owner_at vec part 0"
  "set (p_replicas (layout vec rf part)) = owner_at vec part ` {1..<rf}"
  by (auto simp: layout_def)

lemma ring_inj:
  fixes n :: nat
  assumes "a < n" "b < n" "m < n" "(m + n - a) mod n = (m + n - b) mod n"
  shows "a = b"
proof -
  have step: "(m + n - x) mod n = (if x \<le> m then m - x else m + n - x)" if "x < n" for x
  proof (cases "x \<le> m")
    case True
    with assms(3) show ?thesis by (simp add: ring_wrap)
  next
    case False
    with that show ?thesis by simp
  qed
  from assms(4) show ?thesis
    using assms(1-3) step [of a] step [of b] by (auto split: if_splits)
qed

lemma owner_at_inj:
  assumes "distinct vec" and "vec \<noteq> []"
  shows "inj_on (owner_at vec part) {0..<length vec}"
proof (rule inj_onI)
  fix a b
  assume ab: "a \<in> {0..<length vec}" "b \<in> {0..<length vec}" and eq: "owner_at vec part a = owner_at vec part b"
  let ?n = "length vec" and ?m = "part mod length vec"
  have "(?m + ?n - a) mod ?n = (?m + ?n - b) mod ?n"
    using eq ab assms by (simp add: owner_at_def nth_eq_iff_index_eq)
  with ab assms(2) show "a = b" by (intro ring_inj [of a ?n b ?m]) auto
qed


lemma owners_layout:
  "owners (layout vec rf part) = owner_at vec part ` (insert 0 {1..<rf})"
  by (simp add: owners_def)

lemma layout_distinct:
  assumes "distinct vec" and "vec \<noteq> []" and "rf \<le> length vec"
  shows "p_master (layout vec rf part) \<notin> set (p_replicas (layout vec rf part))"
    and "distinct (p_replicas (layout vec rf part))"
    and "length (p_replicas (layout vec rf part)) = rf - 1"
proof -
  have inj: "inj_on (owner_at vec part) {0..<length vec}" using assms(1,2) by (rule owner_at_inj)
  have "owner_at vec part 0 \<noteq> owner_at vec part r" if "r \<in> {1..<rf}" for r
    using that assms(2,3) inj_onD [OF inj, of 0 r] by auto
  then show "p_master (layout vec rf part) \<notin> set (p_replicas (layout vec rf part))"
    unfolding layout_simps by blast
  have "inj_on (owner_at vec part) (set [1..<rf])"
    by (rule inj_on_subset [OF inj]) (use assms(3) in auto)
  then have d: "distinct (map (owner_at vec part) [1..<rf])" by (simp only: distinct_map distinct_upt)
  then show "length (p_replicas (layout vec rf part)) = rf - 1" by (simp add: layout_def)
  show "distinct (p_replicas (layout vec rf part))" by (simp add: layout_def)
qed

lemma owner_at_period: "owner_at vec part (length vec) = owner_at vec part 0"
  by (simp add: owner_at_def)

subsection \<open>Balance\<close>

lemma div_of_offset: "a < n \<Longrightarrow> (a + k * n) div n = k" for a n k :: nat
  by (simp add: div_mult_self3)

lemma card_residue_class:
  fixes n :: nat
  assumes "i < n"
  shows "card {p. p < N \<and> p mod n = i} = (N + n - 1 - i) div n"
proof (induction N)
  case 0
  from assms have "(n - 1 - i) div n = 0" by simp
  then show ?case by simp
next
  case (Suc N)
  have split: "{p. p < Suc N \<and> p mod n = i} =
    (if N mod n = i then insert N {p. p < N \<and> p mod n = i} else {p. p < N \<and> p mod n = i})"
    by (auto simp: less_Suc_eq)
  obtain q where q: "N = q * n + N mod n" by (metis div_mult_mod_eq)
  have lt: "N mod n < n" using assms by simp
  have *: "(N + n - 1 - i) div n = (if i < N mod n then Suc q else q)"
  proof (cases "i < N mod n")
    case True
    then have "N + n - 1 - i = (N mod n - 1 - i) + Suc q * n" using q by simp
    with True lt show ?thesis by (simp only: div_of_offset less_imp_diff_less if_True)
  next
    case False
    then have "N + n - 1 - i = (N mod n + n - 1 - i) + q * n" using q assms by arith
    moreover have "N mod n + n - 1 - i < n" using False assms by simp
    ultimately show ?thesis using False by (simp only: div_of_offset if_False)
  qed
  have **: "(Suc N + n - 1 - i) div n = (if i \<le> N mod n then Suc q else q)"
  proof (cases "i \<le> N mod n")
    case True
    then have "Suc N + n - 1 - i = (N mod n - i) + Suc q * n" using q by simp
    with True lt show ?thesis by (simp only: div_of_offset less_imp_diff_less if_True)
  next
    case False
    then have "Suc N + n - 1 - i = (N mod n + n - i) + q * n" using q assms by arith
    moreover have "N mod n + n - i < n" using False assms by simp
    ultimately show ?thesis using False by (simp only: div_of_offset if_False)
  qed
  show ?case unfolding split using Suc * ** by auto
qed

lemma residue_class_bounds:
  fixes n :: nat
  assumes "i < n"
  shows "N div n \<le> card {p. p < N \<and> p mod n = i} \<and> card {p. p < N \<and> p mod n = i} \<le> N div n + 1"
proof -
  have "N div n \<le> (N + n - 1 - i) div n" using assms by (intro div_le_mono) simp
  moreover have "(N + n - 1 - i) div n \<le> (N + n) div n" by (intro div_le_mono) simp
  moreover have "(N + n) div n = N div n + 1" using assms by (intro div_add_self2) simp
  ultimately show ?thesis using card_residue_class [OF assms] by simp
qed

subsection \<open>Old and new owners\<close>

lemma hm_get_note_old_owners:
  "hm_get (note_old_owners (p, q) old) p' =
     (if p' = p then Some (case hm_get old p of
          Some os \<Rightarrow> hs_insert (p_master q) (hs_extend os (p_replicas q))
        | None \<Rightarrow> hs_insert (p_master q) (p_replicas q))
      else hm_get old p')"
  by (auto simp: note_old_owners_def split: option.split)

lemma hm_wf_note_old_owners: "hm_wf old \<Longrightarrow> hm_wf (note_old_owners e old)"
  by (cases e) (auto simp: note_old_owners_def split: option.split)

lemma noted_owners_fold:
  assumes "hm_wf m" and "hm_wf old"
  shows "hm_wf (fold note_old_owners m old) \<and>
    (case hm_get (fold note_old_owners m old) p of Some os \<Rightarrow> set os | None \<Rightarrow> {}) = noted_owners m old p"
  using assms
proof (induction m arbitrary: old)
  case Nil
  then show ?case by (simp add: noted_owners_def)
next
  case (Cons e m)
  obtain p1 q where e: "e = (p1, q)" by (cases e)
  with Cons.prems have none: "hm_get m p1 = None" by (simp add: map_of_eq_None_iff)
  have "noted_owners m (note_old_owners e old) p = noted_owners (e # m) old p"
    by (auto simp: noted_owners_def e hm_get_note_old_owners none owners_def split: option.splits)
  with Cons.IH [of "note_old_owners e old"] Cons.prems show ?case
    by (simp add: hm_wf_note_old_owners)
qed

lemma copy_current_mapping_to_old_listed:
  assumes "hm_wf (mapping (m_partitions st))" and "hm_wf (old_replicas (m_partitions st))"
  shows "listed (old_replicas (m_partitions (copy_current_mapping_to_old keys st))) p =
      noted_owners (mapping (m_partitions st)) (old_replicas (m_partitions st)) p \<inter> set keys"
    and "hm_wf (old_replicas (m_partitions (copy_current_mapping_to_old keys st)))"
    and "hm_get (old_replicas (m_partitions (copy_current_mapping_to_old keys st))) p \<noteq> Some []"
proof -
  let ?noted = "fold note_old_owners (mapping (m_partitions st)) (old_replicas (m_partitions st))"
  let ?cut = "map (\<lambda>(p, o'). (p, filter (\<lambda>i. i \<in> set keys) o')) ?noted"
  note f = noted_owners_fold [OF assms]
  then have wf: "hm_wf ?noted" by blast
  then have wf': "hm_wf ?cut" by (simp only: hm_keys_map_values)
  have old: "old_replicas (m_partitions (copy_current_mapping_to_old keys st)) = hm_retain (\<lambda>_ o'. o' \<noteq> []) ?cut"
    by (simp add: copy_current_mapping_to_old_def Let_def)
  have get: "hm_get (hm_retain (\<lambda>_ o'. o' \<noteq> []) ?cut) p =
      (case hm_get ?noted p of None \<Rightarrow> None
       | Some os \<Rightarrow> if filter (\<lambda>i. i \<in> set keys) os \<noteq> [] then Some (filter (\<lambda>i. i \<in> set keys) os) else None)"
    unfolding hm_get_retain [OF wf'] hm_get_map_values by (cases "hm_get ?noted p") simp_all
  show "listed (old_replicas (m_partitions (copy_current_mapping_to_old keys st))) p =
      noted_owners (mapping (m_partitions st)) (old_replicas (m_partitions st)) p \<inter> set keys"
    using f [of p] unfolding old listed_def get
    by (cases "hm_get ?noted p") (auto simp: filter_empty_conv)
  show "hm_wf (old_replicas (m_partitions (copy_current_mapping_to_old keys st)))"
    unfolding old by (rule hm_wf_retain [OF wf'])
  show "hm_get (old_replicas (m_partitions (copy_current_mapping_to_old keys st))) p \<noteq> Some []"
    unfolding old get by (cases "hm_get ?noted p") auto
qed

lemma copy_current_mapping_to_old_frame [simp]:
  "mapping (m_partitions (copy_current_mapping_to_old keys st)) = mapping (m_partitions st)"
  "new_replicas (m_partitions (copy_current_mapping_to_old keys st)) = new_replicas (m_partitions st)"
  "m_nodes (copy_current_mapping_to_old keys st) = m_nodes st"
  "m_epoch (copy_current_mapping_to_old keys st) = m_epoch st"
  "m_elected_leader_id (copy_current_mapping_to_old keys st) = m_elected_leader_id st"
  "m_workers_with_calculated_partitions (copy_current_mapping_to_old keys st) =
     m_workers_with_calculated_partitions st"
  by (simp_all add: copy_current_mapping_to_old_def Let_def)

lemma hm_get_note_gained_fold:
  assumes "hm_wf m"
  shows "hm_get (fold (note_gained new) m g) p =
    (case hm_get m p of
       Some q \<Rightarrow> (case hm_get new p of Some n \<Rightarrow> Some (gained_owners q n) | None \<Rightarrow> hm_get g p)
     | None \<Rightarrow> hm_get g p)"
  using assms
proof (induction m arbitrary: g)
  case (Cons e m)
  obtain p1 q where e: "e = (p1, q)" by (cases e)
  with Cons.prems have "hm_get m p1 = None" by (simp add: map_of_eq_None_iff)
  with Cons e show ?case by (auto simp: note_gained_def split: option.split)
qed simp

lemma hm_wf_note_gained_fold: "hm_wf g \<Longrightarrow> hm_wf (fold (note_gained new) m g)"
  by (induction m arbitrary: g) (auto simp: note_gained_def split: option.split)

lemma worker_keys_sorted [simp]: "distinct (worker_keys st)" "sorted (worker_keys st)"
  by (auto simp: worker_keys_def bt_collect_def)

lemma set_worker_keys:
  "set (worker_keys st) = fst ` {e \<in> set (m_nodes st). is_worker (snd e)}"
  by (auto simp: worker_keys_def bt_collect_def)

subsection \<open>One recalculation\<close>

lemma worker_partitions_idle:
  "m_elected_leader_id st \<noteq> Some (me_id me) \<or> worker_keys st = m_workers_with_calculated_partitions st \<Longrightarrow>
   worker_partitions me rf st = Some (st, [])"
  by (auto simp: worker_partitions_def Let_def)

lemma worker_partitions_no_workers:
  assumes "m_elected_leader_id st = Some (me_id me)" and "worker_keys st = []"
    and "m_workers_with_calculated_partitions st \<noteq> []"
  shows "worker_partitions me rf st =
    Some ((copy_current_mapping_to_old [] st)\<lparr>m_workers_with_calculated_partitions := []\<rparr>, [])"
  using assms by (auto simp: worker_partitions_def Let_def)

definition recalculated :: "(partition_id, partition) hash_map \<Rightarrow> mstate \<Rightarrow> mstate" where
  "recalculated new st =
     (let st1 = copy_current_mapping_to_old (worker_keys st) st; parts = m_partitions st1
      in st1\<lparr>m_partitions := parts\<lparr>
           new_replicas := fold (note_gained new) (mapping parts) (new_replicas parts), mapping := new\<rparr>,
           m_workers_with_calculated_partitions := worker_keys st\<rparr>)"

lemma recalculated_simps [simp]:
  "mapping (m_partitions (recalculated new st)) = new"
  "old_replicas (m_partitions (recalculated new st)) =
     old_replicas (m_partitions (copy_current_mapping_to_old (worker_keys st) st))"
  "new_replicas (m_partitions (recalculated new st)) =
     fold (note_gained new) (mapping (m_partitions st)) (new_replicas (m_partitions st))"
  "m_nodes (recalculated new st) = m_nodes st"
  "m_epoch (recalculated new st) = m_epoch st"
  "m_elected_leader_id (recalculated new st) = m_elected_leader_id st"
  "m_workers_with_calculated_partitions (recalculated new st) = worker_keys st"
  by (simp_all add: recalculated_def Let_def)

lemma worker_partitions_recalc:
  assumes "m_elected_leader_id st = Some (me_id me)" and "m_epoch st = Some epoch"
    and "worker_keys st \<noteq> []" and "worker_keys st \<noteq> m_workers_with_calculated_partitions st"
  obtains new where "new_mapping_for PARTITIONS_AMOUNT rf (worker_keys st) = Some new"
    and "worker_partitions me rf st =
      Some (recalculated new st,
            map (\<lambda>i. MClusterState i \<lparr>cs_epoch = epoch, cs_leader_id = me_id me, cs_nodes = [],
                   cs_partitions = m_partitions (recalculated new st)\<rparr>)
              (filter (\<lambda>k. k \<noteq> me_id me) (hm_keys (m_nodes st))))"
proof -
  obtain new where new: "new_mapping_for PARTITIONS_AMOUNT rf (worker_keys st) = Some new"
    using new_mapping_for_eq [OF assms(3)] new_mapping_for_zero [OF assms(3)] by (cases rf) fastforce+
  show ?thesis
  proof (rule that [OF new])
    show "worker_partitions me rf st =
      Some (recalculated new st,
            map (\<lambda>i. MClusterState i \<lparr>cs_epoch = epoch, cs_leader_id = me_id me, cs_nodes = [],
                   cs_partitions = m_partitions (recalculated new st)\<rparr>)
              (filter (\<lambda>k. k \<noteq> me_id me) (hm_keys (m_nodes st))))"
      using assms
      by (simp add: worker_partitions_def Let_def calculate_new_mapping_def new
          create_new_workers_state_def recalculated_def)
  qed
qed

section \<open>Properties\<close>

definition demo_manager :: node where
  "demo_manager = \<lparr>n_host = ''m'', n_port = 1, n_last_heartbeat = 0, n_node_type = Manager\<rparr>"

definition demo_worker :: node where
  "demo_worker = \<lparr>n_host = ''w'', n_port = 2, n_last_heartbeat = 0, n_node_type = Worker\<rparr>"

definition demo_me :: me where
  "demo_me = \<lparr>me_id = NodeId ''m'', me_host = ''m'', me_port = 1\<rparr>"

text \<open>A leader that knows three workers, of which it has assigned partitions to two.\<close>

definition demo_leader :: mstate where
  "demo_leader = \<lparr>m_epoch = Some 1, m_elected_leader_id = Some (NodeId ''m''),
     m_nodes = [(NodeId ''m'', demo_manager), (NodeId ''c'', demo_worker), (NodeId ''a'', demo_worker),
                (NodeId ''b'', demo_worker)],
     m_partitions =
       \<lparr>mapping = [(PartitionId 0, \<lparr>p_master = NodeId ''a'', p_replicas = [NodeId ''d'']\<rparr>)],
        old_replicas = [], new_replicas = []\<rparr>,
     m_workers_with_calculated_partitions = [NodeId ''a'', NodeId ''d'']\<rparr>"

lemma demo_leader_simps [simp]:
  "worker_keys demo_leader = [NodeId ''a'', NodeId ''b'', NodeId ''c'']"
  "m_elected_leader_id demo_leader = Some (me_id demo_me)" "m_epoch demo_leader = Some 1"
  "m_workers_with_calculated_partitions demo_leader = [NodeId ''a'', NodeId ''d'']"
  "hm_wf (mapping (m_partitions demo_leader))" "hm_wf (old_replicas (m_partitions demo_leader))"
  by (code_simp | simp add: demo_leader_def demo_me_def)+

text \<open>
  C11: A leader that knows its epoch and has at least one worker, the set of workers having
  changed, recalculates without panicking. The new mapping holds exactly the 4096 partitions.
  Partition \<open>p\<close> is mastered by worker \<open>p mod n\<close> in the order of the node ids and its replicas are
  the \<open>rf - 1\<close> workers before it on the ring. Every other node is sent the new assignment under
  the leader's epoch.
\<close>

theorem recalculation_assigns_every_partition:
  assumes "m_elected_leader_id st = Some (me_id me)" and "m_epoch st = Some epoch"
    and "worker_keys st \<noteq> []" and "worker_keys st \<noteq> m_workers_with_calculated_partitions st"
    and "0 < rf"
  shows "\<exists>st' msgs. worker_partitions me rf st = Some (st', msgs) \<and>
    m_workers_with_calculated_partitions st' = worker_keys st \<and>
    (\<forall>p q. hm_get (mapping (m_partitions st')) p = Some q \<longleftrightarrow>
       (\<exists>part<4096. p = part_of_nat part \<and> q = layout (worker_keys st) rf part)) \<and>
    msgs = map (\<lambda>i. MClusterState i \<lparr>cs_epoch = epoch, cs_leader_id = me_id me, cs_nodes = [],
                   cs_partitions = m_partitions st'\<rparr>)
             (filter (\<lambda>k. k \<noteq> me_id me) (hm_keys (m_nodes st)))"
proof -
  obtain new where new: "new_mapping_for PARTITIONS_AMOUNT rf (worker_keys st) = Some new"
    and wp: "worker_partitions me rf st =
      Some (recalculated new st,
            map (\<lambda>i. MClusterState i \<lparr>cs_epoch = epoch, cs_leader_id = me_id me, cs_nodes = [],
                   cs_partitions = m_partitions (recalculated new st)\<rparr>)
              (filter (\<lambda>k. k \<noteq> me_id me) (hm_keys (m_nodes st))))"
    by (rule worker_partitions_recalc [OF assms(1-4)])
  have "hm_get new p = Some q \<longleftrightarrow>
      (\<exists>part<4096. p = part_of_nat part \<and> q = layout (worker_keys st) rf part)" for p q
    using new_mapping_for_get [OF assms(3,5) _ new]
    by (auto simp: PARTITIONS_AMOUNT_def)
  with wp show ?thesis by simp
qed

lemma recalculation_assigns_every_partition_witness:
  "\<exists>st' msgs. worker_partitions demo_me 2 demo_leader = Some (st', msgs) \<and>
    hm_get (mapping (m_partitions st')) (PartitionId 7) =
      Some \<lparr>p_master = NodeId ''b'', p_replicas = [NodeId ''a'']\<rparr> \<and> length msgs = 3"
proof -
  have seven: "part_of_nat 7 = PartitionId 7" by (simp add: part_of_nat_def)
  have lay: "layout [NodeId ''a'', NodeId ''b'', NodeId ''c''] 2 7 =
    \<lparr>p_master = NodeId ''b'', p_replicas = [NodeId ''a'']\<rparr>" by code_simp
  have len: "length (filter (\<lambda>k. k \<noteq> me_id demo_me) (hm_keys (m_nodes demo_leader))) = 3" by code_simp
  obtain st' msgs where w: "worker_partitions demo_me 2 demo_leader = Some (st', msgs)"
    and get: "\<forall>p q. hm_get (mapping (m_partitions st')) p = Some q \<longleftrightarrow>
      (\<exists>part<4096. p = part_of_nat part \<and> q = layout (worker_keys demo_leader) 2 part)"
    and msgs: "msgs = map (\<lambda>i. MClusterState i \<lparr>cs_epoch = 1, cs_leader_id = me_id demo_me, cs_nodes = [],
        cs_partitions = m_partitions st'\<rparr>) (filter (\<lambda>k. k \<noteq> me_id demo_me) (hm_keys (m_nodes demo_leader)))"
    using recalculation_assigns_every_partition [of demo_leader demo_me 1 2] by auto
  have "hm_get (mapping (m_partitions st')) (PartitionId 7) =
      Some \<lparr>p_master = NodeId ''b'', p_replicas = [NodeId ''a'']\<rparr>"
    unfolding get [rule_format] seven [symmetric] lay [symmetric] by (rule exI [of _ 7]) simp
  with w msgs len show ?thesis by simp
qed

text \<open>
  C12: With a replication factor between one and the number of workers, every partition of the
  new mapping is owned by exactly \<open>rf\<close> different live workers: the master is not among its
  replicas, and there are \<open>rf - 1\<close> distinct replicas.
\<close>

theorem partitions_replicated:
  assumes "new_mapping_for PARTITIONS_AMOUNT rf (worker_keys st) = Some new"
    and "0 < rf" and "rf \<le> length (worker_keys st)" and "hm_get new p = Some q"
  shows "p_master q \<notin> set (p_replicas q) \<and> distinct (p_replicas q) \<and>
    length (p_replicas q) = rf - 1 \<and> card (owners q) = rf \<and> owners q \<subseteq> set (worker_keys st)"
proof -
  have ne: "worker_keys st \<noteq> []" using assms(2,3) by auto
  obtain part where q: "q = layout (worker_keys st) rf part"
    using new_mapping_for_get(2) [OF ne assms(2) _ assms(1,4)] by (auto simp: PARTITIONS_AMOUNT_def)
  note d = layout_distinct [OF worker_keys_sorted(1) ne assms(3), of part, folded q]
  have "card (owners q) = Suc (length (p_replicas q))"
    using d by (simp add: owners_def distinct_card)
  moreover have "owners q \<subseteq> set (worker_keys st)"
    using owner_at_mem [OF ne] by (auto simp: q owners_layout)
  ultimately show ?thesis using d assms(2) by simp
qed

lemma partitions_replicated_witness:
  "\<exists>new. new_mapping_for PARTITIONS_AMOUNT 2 (worker_keys demo_leader) = Some new \<and>
     (\<exists>q. hm_get new (PartitionId 0) = Some q \<and> card (owners q) = 2)"
proof -
  have ne: "worker_keys demo_leader \<noteq> []" by simp
  obtain new where new: "new_mapping_for PARTITIONS_AMOUNT 2 (worker_keys demo_leader) = Some new"
    using new_mapping_for_eq [OF ne, of 2] by simp
  have "hm_get new (part_of_nat 0) = Some (layout (worker_keys demo_leader) 2 0)"
    using new_mapping_for_get(1) [OF ne _ _ new] by (simp add: PARTITIONS_AMOUNT_def)
  then obtain q where q: "hm_get new (PartitionId 0) = Some q" by (simp add: part_of_nat_def)
  from partitions_replicated [OF new _ _ q] have "card (owners q) = 2" by simp
  with new q show ?thesis by blast
qed

text \<open>
  C37: Masters are balanced: each of the \<open>n\<close> workers masters \<open>4096 div n\<close> partitions of the new
  mapping or one more.
\<close>

theorem masters_balanced:
  assumes "new_mapping_for PARTITIONS_AMOUNT rf (worker_keys st) = Some new"
    and "0 < rf" and "w \<in> set (worker_keys st)"
  shows "4096 div length (worker_keys st) \<le> card {part. part < 4096 \<and>
      map_option p_master (hm_get new (part_of_nat part)) = Some w} \<and>
    card {part. part < 4096 \<and> map_option p_master (hm_get new (part_of_nat part)) = Some w} \<le>
      4096 div length (worker_keys st) + 1"
proof -
  have ne: "worker_keys st \<noteq> []" using assms(3) by auto
  obtain i where i: "i < length (worker_keys st)" "worker_keys st ! i = w"
    using assms(3) by (auto simp: in_set_conv_nth)
  have "map_option p_master (hm_get new (part_of_nat part)) = Some w \<longleftrightarrow>
      part mod length (worker_keys st) = i" if "part < 4096" for part
    using new_mapping_for_get(1) [OF ne assms(2) _ assms(1), of part] that i ne
    by (auto simp: PARTITIONS_AMOUNT_def owner_at_0 nth_eq_iff_index_eq)
  then have "{part. part < 4096 \<and> map_option p_master (hm_get new (part_of_nat part)) = Some w} =
      {part. part < 4096 \<and> part mod length (worker_keys st) = i}" by blast
  then show ?thesis using residue_class_bounds [OF i(1), of 4096] by simp
qed

lemma masters_balanced_witness:
  "\<exists>new. new_mapping_for PARTITIONS_AMOUNT 2 (worker_keys demo_leader) = Some new \<and>
     1365 \<le> card {part. part < 4096 \<and>
       map_option p_master (hm_get new (part_of_nat part)) = Some (NodeId ''b'')}"
proof -
  have ne: "worker_keys demo_leader \<noteq> []" by simp
  obtain new where new: "new_mapping_for PARTITIONS_AMOUNT 2 (worker_keys demo_leader) = Some new"
    using new_mapping_for_eq [OF ne, of 2] by simp
  then show ?thesis using masters_balanced [OF new, of "NodeId ''b''"] by simp
qed

text \<open>
  C28: A recalculation forgets no source of data and names every new owner. Afterwards the old
  owners of a partition are the workers still present among its owners so far, in the mapping or
  in the table of old owners, and no partition has an empty entry. The new owners of a partition
  that was mapped before are those of the new mapping that did not own it in the old one.
\<close>

theorem recalculation_tracks_moves:
  assumes "m_elected_leader_id st = Some (me_id me)" and "m_epoch st = Some epoch"
    and "worker_keys st \<noteq> []" and "worker_keys st \<noteq> m_workers_with_calculated_partitions st"
    and "hm_wf (mapping (m_partitions st))" and "hm_wf (old_replicas (m_partitions st))"
  shows "\<exists>st' msgs. worker_partitions me rf st = Some (st', msgs) \<and>
    (\<forall>p. listed (old_replicas (m_partitions st')) p =
       noted_owners (mapping (m_partitions st)) (old_replicas (m_partitions st)) p \<inter> set (worker_keys st)) \<and>
    (\<forall>p. hm_get (old_replicas (m_partitions st')) p \<noteq> Some []) \<and>
    (\<forall>p q q'. hm_get (mapping (m_partitions st)) p = Some q \<longrightarrow>
       hm_get (mapping (m_partitions st')) p = Some q' \<longrightarrow>
       listed (new_replicas (m_partitions st')) p = owners q' - owners q)"
proof -
  obtain new where "worker_partitions me rf st =
      Some (recalculated new st,
            map (\<lambda>i. MClusterState i \<lparr>cs_epoch = epoch, cs_leader_id = me_id me, cs_nodes = [],
                   cs_partitions = m_partitions (recalculated new st)\<rparr>)
              (filter (\<lambda>k. k \<noteq> me_id me) (hm_keys (m_nodes st))))"
    by (rule worker_partitions_recalc [OF assms(1-4)])
  moreover have "listed (fold (note_gained new) (mapping (m_partitions st)) (new_replicas (m_partitions st))) p =
      owners q' - owners q"
    if "hm_get (mapping (m_partitions st)) p = Some q" "hm_get new p = Some q'" for p q q'
    using that by (simp add: listed_def hm_get_note_gained_fold [OF assms(5)] set_gained_owners)
  ultimately show ?thesis
    by (simp add: copy_current_mapping_to_old_listed [OF assms(5,6)])
qed

lemma recalculation_tracks_moves_witness:
  "\<exists>st' msgs. worker_partitions demo_me 2 demo_leader = Some (st', msgs) \<and>
     listed (old_replicas (m_partitions st')) (PartitionId 0) = {NodeId ''a''}"
proof -
  obtain st' msgs where "worker_partitions demo_me 2 demo_leader = Some (st', msgs)"
    and "\<forall>p. listed (old_replicas (m_partitions st')) p =
      noted_owners (mapping (m_partitions demo_leader)) (old_replicas (m_partitions demo_leader)) p \<inter>
      set (worker_keys demo_leader)"
    using recalculation_tracks_moves [of demo_leader demo_me 1 2] by auto
  moreover have "noted_owners (mapping (m_partitions demo_leader)) (old_replicas (m_partitions demo_leader))
      (PartitionId 0) = {NodeId ''a'', NodeId ''d''}"
    by (simp add: noted_owners_def demo_leader_def owners_def)
  ultimately show ?thesis by auto
qed

text \<open>
  Recalculation settles: run again on its own result it changes nothing and sends nothing,
  so the assignment changes only when the set of workers does. A manager that is not the leader
  never recalculates.
\<close>

theorem recalculation_settles:
  assumes "worker_partitions me rf st = Some (st', msgs)"
  shows "worker_partitions me rf st' = Some (st', []) \<and>
    (m_elected_leader_id st \<noteq> Some (me_id me) \<longrightarrow> st' = st \<and> msgs = [])"
proof (cases "m_elected_leader_id st \<noteq> Some (me_id me) \<or> worker_keys st = m_workers_with_calculated_partitions st")
  case True
  with worker_partitions_idle [OF True, of rf] assms show ?thesis by auto
next
  case False
  then have l: "m_elected_leader_id st = Some (me_id me)"
    and ch: "worker_keys st \<noteq> m_workers_with_calculated_partitions st" by auto
  have same: "worker_keys st' = worker_keys st" if "m_nodes st' = m_nodes st" for st'
    using that by (simp add: worker_keys_def)
  show ?thesis
  proof (cases "worker_keys st = []")
    case True
    with l ch worker_partitions_no_workers [OF l True] assms
    have "st' = (copy_current_mapping_to_old [] st)\<lparr>m_workers_with_calculated_partitions := []\<rparr>" by auto
    with True same [of st'] have "worker_keys st' = m_workers_with_calculated_partitions st'" by simp
    with l show ?thesis using worker_partitions_idle [of st' me rf] by simp
  next
    case ne: False
    then have ep: "\<exists>epoch. m_epoch st = Some epoch"
      using assms l ch
      by (cases "m_epoch st")
         (auto simp: worker_partitions_def Let_def calculate_new_mapping_def create_new_workers_state_def
          split: option.splits)
    then obtain epoch where "m_epoch st = Some epoch" by blast
    from worker_partitions_recalc [OF l this ne ch, of rf] assms obtain new where "st' = recalculated new st"
      by auto
    with same [of st'] have "worker_keys st' = m_workers_with_calculated_partitions st'" by simp
    with l show ?thesis using worker_partitions_idle [of st' me rf] by simp
  qed
qed

lemma recalculation_settles_witness:
  "\<exists>st' msgs. worker_partitions demo_me 2 demo_leader = Some (st', msgs) \<and>
     worker_partitions demo_me 2 st' = Some (st', [])"
proof -
  obtain st' msgs where w: "worker_partitions demo_me 2 demo_leader = Some (st', msgs)"
    by (rule worker_partitions_recalc [of demo_leader demo_me 1 2]) simp_all
  with recalculation_settles [OF w] show ?thesis by blast
qed

text \<open>
  With a replication factor above the number of workers the ring wraps: every worker is a
  replica of every partition, the master included, so a partition has fewer owners than its
  replication factor asks for and lists its master twice.
\<close>

theorem replication_factor_above_workers:
  assumes "new_mapping_for PARTITIONS_AMOUNT rf (worker_keys st) = Some new"
    and "worker_keys st \<noteq> []" and "length (worker_keys st) < rf" and "hm_get new p = Some q"
  shows "p_master q \<in> set (p_replicas q) \<and> card (owners q) < rf"
proof -
  have pos: "0 < rf" using assms(3) by auto
  obtain part where q: "q = layout (worker_keys st) rf part"
    using new_mapping_for_get(2) [OF assms(2) pos _ assms(1,4)] by (auto simp: PARTITIONS_AMOUNT_def)
  have "owner_at (worker_keys st) part (length (worker_keys st)) \<in> owner_at (worker_keys st) part ` {1..<rf}"
    using assms(2,3) by (intro imageI) (auto simp: Suc_le_eq)
  then have "p_master q \<in> set (p_replicas q)" by (simp add: q owner_at_period)
  moreover have "owners q \<subseteq> set (worker_keys st)"
    using owner_at_mem [OF assms(2)] by (auto simp: q owners_layout)
  then have "card (owners q) \<le> length (worker_keys st)"
    by (meson card_length card_mono finite_set le_trans)
  ultimately show ?thesis using assms(3) by simp
qed

lemma replication_factor_above_workers_witness:
  "\<exists>new q. new_mapping_for PARTITIONS_AMOUNT 4 (worker_keys demo_leader) = Some new \<and>
     hm_get new (PartitionId 0) = Some q \<and> p_master q \<in> set (p_replicas q)"
proof -
  have ne: "worker_keys demo_leader \<noteq> []" by simp
  obtain new where new: "new_mapping_for PARTITIONS_AMOUNT 4 (worker_keys demo_leader) = Some new"
    using new_mapping_for_eq [OF ne, of 4] by simp
  have "hm_get new (part_of_nat 0) = Some (layout (worker_keys demo_leader) 4 0)"
    using new_mapping_for_get(1) [OF ne _ _ new] by (simp add: PARTITIONS_AMOUNT_def)
  then obtain q where q: "hm_get new (PartitionId 0) = Some q" by (simp add: part_of_nat_def)
  from replication_factor_above_workers [OF new ne _ q] new q show ?thesis by auto
qed

end
