(* ===== verification/Manager_Service.thy ===== *)
theory Manager_Service
  imports Manager_Election Manager_Partitions
begin

text \<open>
  The manager's event loop (\<open>manager/service.rs\<close>): the initial messages, the periodic tick and the
  dispatch of a protocol message, each with the messages it emits. \<^const>\<open>None\<close> is a panic of the
  service task. One call of \<open>process\<close> or \<open>tick\<close> reads the clock and the random generator at
  several places; \<open>readings\<close> holds the values it gets.

  The lemmas show what every step keeps: the well-formedness of the state, the link between epoch
  and leader, and the order of epochs.
\<close>

section \<open>The service\<close>

record readings =
  hb_now :: u64
  hb_rnd :: u64
  el_now :: u64
  el_rnd :: u64
  conn_now :: u64

definition RANDOMIZED_ELECTION_TIMEOUT_INTERVAL :: "u64 \<times> u64" where
  "RANDOMIZED_ELECTION_TIMEOUT_INTERVAL = (500, 1000)"

text \<open>What \<open>get_random_number()\<close> may return.\<close>

definition random_number :: "u64 \<Rightarrow> bool" where
  "random_number r \<longleftrightarrow>
     fst RANDOMIZED_ELECTION_TIMEOUT_INTERVAL \<le> r \<and> r < snd RANDOMIZED_ELECTION_TIMEOUT_INTERVAL"

record mservice =
  ms_me :: me
  ms_state :: "mstate option"
  ms_elections :: elections

definition new_mservice :: "me \<Rightarrow> mservice" where
  "new_mservice me = \<lparr>ms_me = me, ms_state = None, ms_elections = []\<rparr>"

definition get_init_messages :: "config \<Rightarrow> u64 \<Rightarrow> mservice \<Rightarrow> mservice \<times> manager_protocol list" where
  "get_init_messages config now svc =
     (case ms_state svc of
        Some _ \<Rightarrow> (svc, [])
      | None \<Rightarrow>
          let me = ms_me svc;
              nodes = [(me_id me, \<lparr>n_host = me_host me, n_port = me_port me, n_last_heartbeat = now,
                          n_node_type = Manager\<rparr>)]
          in (case manager_host_port config of
                Some (host, port) \<Rightarrow>
                  (svc\<lparr>ms_state := Some (new_mstate nodes None)\<rparr>,
                   [MNewConnection None host (ucast port) True])
              | None \<Rightarrow> (svc\<lparr>ms_state := Some (new_mstate nodes (Some 0))\<rparr>, [])))"

definition tick :: "config \<Rightarrow> readings \<Rightarrow> mservice \<Rightarrow> (mservice \<times> manager_protocol list) option" where
  "tick config rd svc =
     (case ms_state svc of
        None \<Rightarrow> Some (svc, [])
      | Some st \<Rightarrow>
          let (st1, out1) = heartbeats (ms_me svc) (hb_now rd) (hb_rnd rd) st;
              (els, out2) = start_election_if_needed (ms_me svc) (el_now rd) (el_rnd rd) st1 (ms_elections svc)
          in (case config_replication_factor config of
                None \<Rightarrow> None
              | Some replication_factor \<Rightarrow>
                  (case worker_partitions (ms_me svc) replication_factor st1 of
                     None \<Rightarrow> None
                   | Some (st2, out3) \<Rightarrow>
                       Some (svc\<lparr>ms_state := Some st2, ms_elections := els\<rparr>, out1 @ out2 @ out3))))"

text \<open>The dispatch of one message, before the tick that ends \<open>process\<close>.\<close>

fun dispatch ::
  "me \<Rightarrow> readings \<Rightarrow> manager_protocol \<Rightarrow> mstate \<Rightarrow> elections \<Rightarrow> mstate \<times> elections \<times> manager_protocol list" where
  "dispatch me rd (MRemovePartitionFromReplica i replica_id p) st els =
     (let (st', out) = handle_remove_old_partition me i replica_id p st in (st', els, out))"
| "dispatch me rd (MNewConnection i host port manager) st els =
     (let (st', out) = handle_new_connection me (conn_now rd) i host port manager st in (st', els, out))"
| "dispatch me rd (MHeartbeat _ hb) st els =
     (let (st', out) = handle_heartbeat me (hb_id hb) (hb_ts hb) st in (st', els, out))"
| "dispatch me rd (MGetClusterState i) st els =
     (let (st', out) = handle_get_cluster_state i st in (st', els, out))"
| "dispatch me rd (MClusterState _ cs) st els =
     (let (st', out) = handle_cluster_state me (cs_epoch cs) (cs_leader_id cs) (cs_nodes cs)
                         (cs_partitions cs) st
      in (st', els, out))"
| "dispatch me rd (MVoteRequest i epoch ts) st els =
     (let (els', out) = handle_vote_request i epoch ts st els in (st, els', out))"
| "dispatch me rd (MVoteResponse i leader_id ts) st els = handle_vote_response me i leader_id ts st els"
| "dispatch me rd (MLeader i epoch ts) st els = handle_leader me i epoch ts st els"
| "dispatch me rd (MNodeDisconnected i) st els = (handle_node_disconnected i st, els, [])"

definition process ::
  "config \<Rightarrow> readings \<Rightarrow> manager_protocol \<Rightarrow> mservice \<Rightarrow> (mservice \<times> manager_protocol list) option" where
  "process config rd msg svc =
     (let (svc1, out1) =
        (case ms_state svc of
           None \<Rightarrow> (svc, [])
         | Some st \<Rightarrow>
             (let (st', els, out) = dispatch (ms_me svc) rd msg st (ms_elections svc)
              in (svc\<lparr>ms_state := Some st', ms_elections := els\<rparr>, out)))
      in case tick config rd svc1 of
           None \<Rightarrow> None
         | Some (svc2, out2) \<Rightarrow> Some (svc2, out1 @ out2))"

text \<open>
  The states the service passes through, after the initial messages and after every step, when the
  messages it receives satisfy \<open>allowed\<close>.
\<close>

inductive manager_reachable ::
  "(manager_protocol \<Rightarrow> bool) \<Rightarrow> config \<Rightarrow> me \<Rightarrow> mservice \<Rightarrow> bool" for allowed config me where
  init: "manager_reachable allowed config me (fst (get_init_messages config now (new_mservice me)))"
| msg: "manager_reachable allowed config me svc \<Longrightarrow> process config rd m svc = Some (svc', out) \<Longrightarrow>
     allowed m \<Longrightarrow> manager_reachable allowed config me svc'"
| tick: "manager_reachable allowed config me svc \<Longrightarrow> tick config rd svc = Some (svc', out) \<Longrightarrow>
     manager_reachable allowed config me svc'"

section \<open>What every step keeps\<close>

lemma copy_current_mapping_to_old_wf:
  "mstate_wf st \<Longrightarrow> mstate_wf (copy_current_mapping_to_old keys st)"
  by (simp add: mstate_wf_def parts_wf_def copy_current_mapping_to_old_listed)

lemma recalculated_wf: "mstate_wf st \<Longrightarrow> hm_wf new \<Longrightarrow> mstate_wf (recalculated new st)"
  by (simp add: mstate_wf_def parts_wf_def copy_current_mapping_to_old_listed hm_wf_note_gained_fold)

lemma new_mapping_for_wf:
  assumes "vec \<noteq> []" and "new_mapping_for PARTITIONS_AMOUNT rf vec = Some m"
  shows "hm_wf m"
proof (cases "rf = 0")
  case True
  with assms new_mapping_for_zero [OF assms(1), of PARTITIONS_AMOUNT] show ?thesis by simp
next
  case False
  show ?thesis
    by (rule new_mapping_for_get(3) [OF assms(1) _ _ assms(2)])
       (use False in \<open>simp_all add: PARTITIONS_AMOUNT_def\<close>)
qed

lemma worker_partitions_keeps:
  assumes "mstate_wf st"
  obtains st' out where "worker_partitions me rf st = Some (st', out)" "mstate_wf st'"
    "m_epoch st' = m_epoch st" "m_elected_leader_id st' = m_elected_leader_id st" "m_nodes st' = m_nodes st"
proof (cases "m_elected_leader_id st \<noteq> Some (me_id me) \<or> worker_keys st = m_workers_with_calculated_partitions st")
  case True
  from worker_partitions_idle [OF True, of rf] show ?thesis by (rule that) (simp_all add: assms)
next
  case False
  then have l: "m_elected_leader_id st = Some (me_id me)"
    and ch: "worker_keys st \<noteq> m_workers_with_calculated_partitions st" by auto
  with assms obtain epoch where ep: "m_epoch st = Some epoch" by (auto simp: mstate_wf_def)
  show ?thesis
  proof (cases "worker_keys st = []")
    case True
    with ch have "m_workers_with_calculated_partitions st \<noteq> []" by auto
    from worker_partitions_no_workers [OF l True this, of rf] show ?thesis
      by (rule that) (use copy_current_mapping_to_old_wf [OF assms, of "[]"] in \<open>simp_all add: mstate_wf_def\<close>)
  next
    case ne: False
    show ?thesis
      by (rule worker_partitions_recalc [OF l ep ne ch, of rf], rule that, assumption)
         (simp_all add: recalculated_wf assms new_mapping_for_wf [OF ne])
  qed
qed

text \<open>The tick on its own state: heartbeats, then the election, then the partitions.\<close>

lemma tick_step:
  assumes "ms_state svc = Some st" and "mstate_wf st" and "config_replication_factor config = Some rf"
  obtains st' els out where "tick config rd svc = Some (svc\<lparr>ms_state := Some st', ms_elections := els\<rparr>, out)"
    and "mstate_wf st'" and "advances st st'" and "m_epoch st' = m_epoch st"
    and "els = fst (start_election_if_needed (ms_me svc) (el_now rd) (el_rnd rd)
                      (fst (heartbeats (ms_me svc) (hb_now rd) (hb_rnd rd) st)) (ms_elections svc))"
proof -
  obtain st1 o1 where h: "heartbeats (ms_me svc) (hb_now rd) (hb_rnd rd) st = (st1, o1)" by fastforce
  have h1: "mstate_wf st1" "advances st st1"
    using heartbeats_keeps [OF assms(2), of "ms_me svc" "hb_now rd" "hb_rnd rd"] h by simp_all
  have ep: "m_epoch st1 = m_epoch st"
    using h by (auto simp: heartbeats_def Let_def split: option.splits if_splits)
  obtain st2 o3 where w: "worker_partitions (ms_me svc) rf st1 = Some (st2, o3)" "mstate_wf st2"
    "m_epoch st2 = m_epoch st1" "m_elected_leader_id st2 = m_elected_leader_id st1"
    by (rule worker_partitions_keeps [OF h1(1)])
  obtain els o2 where e: "start_election_if_needed (ms_me svc) (el_now rd) (el_rnd rd) st1 (ms_elections svc) = (els, o2)"
    by fastforce
  have "advances st st2" using h1(2) w(3,4) by (simp add: advances_def split: option.splits)
  moreover have "tick config rd svc = Some (svc\<lparr>ms_state := Some st2, ms_elections := els\<rparr>, o1 @ o2 @ o3)"
    by (simp add: tick_def assms h e w)
  ultimately show ?thesis using that w ep h e by simp
qed

lemma dispatch_wf:
  assumes "mstate_wf st" and "manager_msg_wf m"
  shows "mstate_wf (fst (dispatch me rd m st els))"
  using assms
  by (cases m)
     (simp_all add: handle_remove_old_partition_keeps handle_new_connection_keeps handle_heartbeat_keeps
       handle_get_cluster_state_def handle_cluster_state_keeps handle_vote_response_wf handle_leader_keeps
       handle_node_disconnected_keeps case_prod_unfold Let_def)

lemma dispatch_advances:
  assumes "mstate_wf st" and "manager_msg_wf m"
    and "(\<exists>i l ts. m = MVoteResponse i l ts) \<Longrightarrow> election_current st els"
  shows "advances st (fst (dispatch me rd m st els))"
  using assms
  by (cases m)
     (simp_all add: handle_remove_old_partition_keeps handle_new_connection_keeps handle_heartbeat_keeps
       handle_get_cluster_state_def handle_cluster_state_keeps handle_vote_response_advances handle_leader_keeps
       handle_node_disconnected_keeps case_prod_unfold Let_def)

lemma dispatch_single_election:
  "length els \<le> 1 \<Longrightarrow> length (fst (snd (dispatch me rd m st els))) \<le> 1"
  by (cases m) (simp_all add: single_elections [simplified] case_prod_unfold Let_def)

definition mservice_ok :: "me \<Rightarrow> mservice \<Rightarrow> bool" where
  "mservice_ok me svc \<longleftrightarrow> ms_me svc = me \<and> length (ms_elections svc) \<le> 1 \<and>
     (\<exists>st. ms_state svc = Some st \<and> mstate_wf st)"

lemma tick_ok:
  assumes "mservice_ok me svc" and "config_replication_factor config = Some rf"
  obtains svc' out where "tick config rd svc = Some (svc', out)" "mservice_ok me svc'"
    "advances (the (ms_state svc)) (the (ms_state svc'))"
proof -
  from assms(1) obtain st where st: "ms_state svc = Some st" "mstate_wf st" by (auto simp: mservice_ok_def)
  from tick_step [OF st assms(2), of rd] obtain st' els out where
    t: "tick config rd svc = Some (svc\<lparr>ms_state := Some st', ms_elections := els\<rparr>, out)" "mstate_wf st'"
      "advances st st'" "els = fst (start_election_if_needed (ms_me svc) (el_now rd) (el_rnd rd)
                      (fst (heartbeats (ms_me svc) (hb_now rd) (hb_rnd rd) st)) (ms_elections svc))"
    by blast
  then have "mservice_ok me (svc\<lparr>ms_state := Some st', ms_elections := els\<rparr>)"
    using assms(1) by (simp add: mservice_ok_def single_elections [simplified])
  from that [OF t(1) this] t st show ?thesis by simp
qed

lemma process_step:
  assumes "ms_state svc = Some st" and "mservice_ok me svc" and "config_replication_factor config = Some rf"
    and "manager_msg_wf m"
  obtains svc' out where "process config rd m svc = Some (svc', out)" "mservice_ok me svc'"
    "advances (fst (dispatch me rd m st (ms_elections svc))) (the (ms_state svc'))"
proof -
  obtain st1 els o1 where d: "dispatch me rd m st (ms_elections svc) = (st1, els, o1)"
    by (cases "dispatch me rd m st (ms_elections svc)")
  let ?svc1 = "svc\<lparr>ms_state := Some st1, ms_elections := els\<rparr>"
  have "mservice_ok me ?svc1"
    using assms dispatch_wf [of st m me rd "ms_elections svc"]
      dispatch_single_election [of "ms_elections svc" me rd m st]
    by (auto simp: mservice_ok_def d)
  from tick_ok [OF this assms(3), of rd] obtain svc' o2 where
    t: "tick config rd ?svc1 = Some (svc', o2)" "mservice_ok me svc'" "advances st1 (the (ms_state svc'))"
    by auto
  have "process config rd m svc = Some (svc', o1 @ o2)"
    using assms(1,2) d t(1) by (simp add: process_def mservice_ok_def)
  from that [OF this] t d show ?thesis by simp
qed

lemma reachable_ok:
  assumes "config_replication_factor config = Some rf" and "manager_reachable manager_msg_wf config me svc"
  shows "mservice_ok me svc"
  using assms(2)
proof (induction rule: manager_reachable.induct)
  case (init now)
  then show ?case
    by (auto simp: mservice_ok_def get_init_messages_def new_mservice_def new_mstate_def mstate_wf_def Let_def
        split: option.split)
next
  case (msg svc rd m svc' out)
  from msg.IH obtain st where "ms_state svc = Some st" by (auto simp: mservice_ok_def)
  from process_step [OF this msg.IH assms(1) msg.hyps(3), of rd] msg.hyps(2) show ?case by auto
next
  case (tick svc rd svc' out)
  from tick_ok [OF tick.IH assms(1), of rd] tick.hyps(2) show ?case by auto
qed

section \<open>A manager without peers\<close>

text \<open>The messages the sessions with workers deliver.\<close>

fun from_worker :: "manager_protocol \<Rightarrow> bool" where
  "from_worker (MNewConnection _ _ _ manager) = (\<not> manager)"
| "from_worker (MHeartbeat _ _) = True"
| "from_worker (MGetClusterState _) = True"
| "from_worker (MNodeDisconnected _) = True"
| "from_worker (MRemovePartitionFromReplica _ _ _) = True"
| "from_worker _ = False"

definition leaderless :: "mservice \<Rightarrow> bool" where
  "leaderless svc \<longleftrightarrow> (\<exists>st. ms_state svc = Some st \<and> m_elected_leader_id st = None \<and>
     m_partitions st = default_partitions)"

lemma dispatch_leaderless:
  assumes "from_worker m" and "m_elected_leader_id st = None" and "m_partitions st = default_partitions"
  shows "m_elected_leader_id (fst (dispatch me rd m st els)) = None \<and>
    m_partitions (fst (dispatch me rd m st els)) = default_partitions"
  using assms
  by (cases m)
     (auto simp: handle_new_connection_def handle_heartbeat_def handle_get_cluster_state_def
       handle_node_disconnected_def handle_remove_old_partition_def default_partitions_def Let_def
       split: option.splits)

lemma tick_leaderless:
  assumes "leaderless svc" and "tick config rd svc = Some (svc', out)"
  shows "leaderless svc'"
  using assms
  by (auto simp: leaderless_def tick_def heartbeats_def worker_partitions_def Let_def
      split: option.splits prod.splits if_splits)

section \<open>Collecting votes\<close>

text \<open>The candidate receives the approvals of its own election one after the other.\<close>

fun collect_votes ::
  "me \<Rightarrow> u64 \<Rightarrow> node_id list \<Rightarrow> mstate \<times> elections \<times> manager_protocol list \<Rightarrow>
   mstate \<times> elections \<times> manager_protocol list" where
  "collect_votes me ts [] s = s"
| "collect_votes me ts (v # vs) (st, els, out) =
     (let (st', els', o') = handle_vote_response me v (me_id me) ts st els
      in collect_votes me ts vs (st', els', out @ o'))"

lemma collect_votes_wins:
  assumes "distinct (as @ vs)" and "set (as @ vs) = set (other_managers (me_id me) st)"
    and "distinct (other_managers (me_id me) st)" and "vs \<noteq> []"
  shows "collect_votes me ts vs (st, [(epoch, Mine ts as)], out) =
    (st\<lparr>m_elected_leader_id := Some (me_id me), m_epoch := Some epoch\<rparr>, [],
     out @ map (\<lambda>k. MLeader k epoch ts) (filter (\<lambda>k. k \<noteq> me_id me) (hm_keys (m_nodes st))))"
  using assms
proof (induction vs arbitrary: as)
  case (Cons v vs)
  have len: "length (other_managers (me_id me) st) = length as + 1 + length vs"
    using Cons.prems distinct_card [of "as @ v # vs"] distinct_card [of "other_managers (me_id me) st"] by simp
  have ins: "hs_insert v as = as @ [v]" using Cons.prems(1) by (simp add: hs_insert_def)
  show ?case
  proof (cases "vs = []")
    case True
    with Cons.prems(2) len show ?thesis
      by (simp add: handle_vote_response_mine ins list_all_iff)
  next
    case False
    with len have "length (as @ [v]) \<noteq> length (other_managers (me_id me) st)" by simp
    then have "handle_vote_response me v (me_id me) ts st [(epoch, Mine ts as)] =
        (st, [(epoch, Mine ts (as @ [v]))], [])"
      by (simp add: handle_vote_response_mine ins)
    with Cons.IH [of "as @ [v]"] Cons.prems False show ?thesis by simp
  qed
qed simp

section \<open>Properties\<close>

definition demo_config :: config where
  "demo_config = ConfigManager 1 (''m'', 1) None 2"

definition demo_readings :: "u64 \<Rightarrow> readings" where
  "demo_readings now = \<lparr>hb_now = now, hb_rnd = 500, el_now = now, el_rnd = 500, conn_now = now\<rparr>"

definition run_msg :: "u64 \<Rightarrow> manager_protocol \<Rightarrow> mservice \<Rightarrow> mservice" where
  "run_msg now m svc = fst (the (process demo_config (demo_readings now) m svc))"

definition demo_started :: mservice where
  "demo_started = fst (get_init_messages demo_config 0 (new_mservice demo_me))"

text \<open>The manager after a second one, \<open>b\<close>, has connected: it has started the election of epoch 1.\<close>

definition demo_electing :: mservice where
  "demo_electing = run_msg 10 (MNewConnection (Some (NodeId ''b'')) ''b'' 2 True) demo_started"

definition demo_moved_on :: mservice where
  "demo_moved_on = run_msg 20 (MClusterState (NodeId ''m'')
     \<lparr>cs_epoch = 7, cs_leader_id = NodeId ''c'', cs_nodes = [], cs_partitions = default_partitions\<rparr>) demo_electing"

lemma run_msg_reachable:
  assumes "manager_reachable allowed demo_config me svc" and "allowed m"
    and "process demo_config (demo_readings now) m svc \<noteq> None"
  shows "manager_reachable allowed demo_config me (run_msg now m svc)"
  using assms by (auto simp: run_msg_def intro: manager_reachable.msg)

lemma demo_started_reachable: "manager_reachable allowed demo_config demo_me demo_started"
  unfolding demo_started_def by (rule manager_reachable.init)

lemma demo_electing_reachable: "manager_reachable manager_msg_wf demo_config demo_me demo_electing"
  unfolding demo_electing_def
  by (rule run_msg_reachable [OF demo_started_reachable]) (simp, code_simp)

lemma demo_moved_on_reachable: "manager_reachable manager_msg_wf demo_config demo_me demo_moved_on"
  unfolding demo_moved_on_def
  by (rule run_msg_reachable [OF demo_electing_reachable]) (simp, code_simp)

text \<open>
  The service task of a manager never panics. In every reachable state the service has a
  well-formed cluster state and at most one pending election, and whatever message it gets next,
  whatever the clock and the random generator return, \<open>process\<close> and \<open>tick\<close> complete.
\<close>

theorem manager_never_panics:
  assumes "manager_reachable manager_msg_wf config me svc" and "config_replication_factor config = Some rf"
  shows "\<exists>st. ms_state svc = Some st \<and> mstate_wf st \<and> length (ms_elections svc) \<le> 1 \<and>
    (\<forall>rd m. manager_msg_wf m \<longrightarrow> process config rd m svc \<noteq> None) \<and> (\<forall>rd. tick config rd svc \<noteq> None)"
proof -
  have ok: "mservice_ok me svc" by (rule reachable_ok [OF assms(2,1)])
  then obtain st where st: "ms_state svc = Some st" "mstate_wf st" "length (ms_elections svc) \<le> 1"
    by (auto simp: mservice_ok_def)
  have "process config rd m svc \<noteq> None" if "manager_msg_wf m" for rd m
    by (rule process_step [OF st(1) ok assms(2) that, of rd]) simp
  moreover have "tick config rd svc \<noteq> None" for rd by (rule tick_ok [OF ok assms(2), of rd]) simp
  ultimately show ?thesis using st by blast
qed

lemma manager_never_panics_witness:
  "process demo_config (demo_readings 30) (MLeader (NodeId ''b'') 9 30) demo_moved_on \<noteq> None"
  using manager_never_panics [OF demo_moved_on_reachable, of 2] by (auto simp: demo_config_def)

text \<open>
  One step of a reachable manager; a vote response finds no election pending for an epoch the
  manager has already passed.
\<close>

definition manager_moves :: "config \<Rightarrow> me \<Rightarrow> mservice \<Rightarrow> mservice \<Rightarrow> bool" where
  "manager_moves config me svc svc' \<longleftrightarrow> manager_reachable manager_msg_wf config me svc \<and>
     config_replication_factor config \<noteq> None \<and>
     ((\<exists>rd m out. manager_msg_wf m \<and> process config rd m svc = Some (svc', out) \<and>
         ((\<exists>i l ts. m = MVoteResponse i l ts) \<longrightarrow> election_current (the (ms_state svc)) (ms_elections svc))) \<or>
      (\<exists>rd out. tick config rd svc = Some (svc', out)))"

text \<open>The epoch of a manager and the leader it knows in it.\<close>

definition manager_age :: "mservice \<Rightarrow> nat" where
  "manager_age svc = (case ms_state svc of None \<Rightarrow> 0 | Some st \<Rightarrow> epoch_age (m_epoch st))"

definition manager_leader :: "mservice \<Rightarrow> node_id option" where
  "manager_leader svc = Option.bind (ms_state svc) (\<lambda>st. if m_epoch st = None then None else m_elected_leader_id st)"

lemma manager_moves_advances:
  assumes "manager_moves config me svc svc'"
  obtains st st' where "ms_state svc = Some st" "ms_state svc' = Some st'" "advances st st'"
proof -
  obtain rf where rf: "config_replication_factor config = Some rf" using assms by (auto simp: manager_moves_def)
  have ok: "mservice_ok me svc" using assms reachable_ok [OF rf] by (simp add: manager_moves_def)
  then obtain st where st: "ms_state svc = Some st" "mstate_wf st" by (auto simp: mservice_ok_def)
  have "mservice_ok me svc' \<and> advances st (the (ms_state svc'))"
    using assms unfolding manager_moves_def
  proof (elim conjE disjE exE)
    fix rd m out
    assume m: "manager_msg_wf m" "process config rd m svc = Some (svc', out)"
      "(\<exists>i l ts. m = MVoteResponse i l ts) \<longrightarrow> election_current (the (ms_state svc)) (ms_elections svc)"
    from process_step [OF st(1) ok rf m(1), of rd] m(2)
    have "mservice_ok me svc'" "advances (fst (dispatch me rd m st (ms_elections svc))) (the (ms_state svc'))" by auto
    moreover have "advances st (fst (dispatch me rd m st (ms_elections svc)))"
      by (rule dispatch_advances [OF st(2) m(1)]) (use m(3) st(1) in auto)
    ultimately show ?thesis by (auto intro: advances_trans)
  next
    fix rd out
    assume "tick config rd svc = Some (svc', out)"
    with tick_ok [OF ok rf, of rd] st show ?thesis by auto
  qed
  with st that show ?thesis by (auto simp: mservice_ok_def)
qed

interpretation mg: leader_forgetter manager_age manager_leader "manager_moves config me" for config me
proof
  show "manager_age svc \<le> manager_age svc'" if "manager_moves config me svc svc'" for svc svc'
    by (rule manager_moves_advances [OF that])
      (auto simp: manager_age_def advances_def epoch_age_def word_less_nat_alt split: option.splits)
  show "manager_leader svc = Some l"
    if "manager_moves config me svc svc'" "manager_age svc' = manager_age svc" "manager_leader svc' = Some l" for svc svc' l
    by (rule manager_moves_advances [OF that(1)])
      (use that(2,3) in \<open>auto simp: manager_age_def manager_leader_def advances_def epoch_age_eq split: option.splits if_splits\<close>)
qed

text \<open>
  C19: Epochs advance. Along every run of a manager its epoch never goes back, and within an epoch it
  has at most one leader, which it may forget but not replace; the one condition, part of each
  step, is that a vote response finds no election pending for an epoch the manager has already
  passed.
\<close>

theorem epochs_advance:
  assumes "(manager_moves config me)\<^sup>*\<^sup>* svc svc'" and "ms_state svc = Some st" and "ms_state svc' = Some st'"
  shows "opt_less (m_epoch st) (m_epoch st') \<or>
    m_epoch st' = m_epoch st \<and>
      (m_epoch st \<noteq> None \<longrightarrow> m_elected_leader_id st' = m_elected_leader_id st \<or> m_elected_leader_id st' = None)"
proof (cases "m_epoch st' = m_epoch st")
  case True
  then have same: "manager_age svc' = manager_age svc" using assms(2,3) by (simp add: manager_age_def)
  have "m_elected_leader_id st' = m_elected_leader_id st" if "m_epoch st \<noteq> None" "m_elected_leader_id st' = Some l" for l
    using mg.run_origin [OF assms(1) same, of l] that assms(2,3) True by (simp add: manager_leader_def)
  with True show ?thesis by (cases "m_elected_leader_id st'") auto
next
  case False
  then show ?thesis
    using mg.run_age [OF assms(1)] assms(2,3)
    by (auto simp: manager_age_def epoch_age_less)
qed

lemma epochs_advance_witness:
  "\<exists>st st'. ms_state demo_electing = Some st \<and> ms_state demo_moved_on = Some st' \<and>
     (opt_less (m_epoch st) (m_epoch st') \<or> m_epoch st' = m_epoch st)"
proof -
  let ?m = "MClusterState (NodeId ''m'') \<lparr>cs_epoch = 7, cs_leader_id = NodeId ''c'', cs_nodes = [],
    cs_partitions = default_partitions\<rparr>"
  obtain st where st: "ms_state demo_electing = Some st"
    using reachable_ok [OF _ demo_electing_reachable, of 2] by (auto simp: mservice_ok_def demo_config_def)
  obtain out where "process demo_config (demo_readings 20) ?m demo_electing = Some (demo_moved_on, out)"
  proof -
    have "process demo_config (demo_readings 20) ?m demo_electing \<noteq> None" by code_simp
    then show ?thesis using that by (cases "process demo_config (demo_readings 20) ?m demo_electing")
        (auto simp: demo_moved_on_def run_msg_def)
  qed
  then have "manager_moves demo_config demo_me demo_electing demo_moved_on"
    using demo_electing_reachable unfolding manager_moves_def
    by (intro conjI disjI1 exI [of _ "demo_readings 20"] exI [of _ ?m] exI [of _ out]) (simp_all add: demo_config_def)
  then have run: "(manager_moves demo_config demo_me)\<^sup>*\<^sup>* demo_electing demo_moved_on" by simp
  obtain st' where st': "ms_state demo_moved_on = Some st'"
    using reachable_ok [OF _ demo_moved_on_reachable, of 2] by (auto simp: mservice_ok_def demo_config_def)
  from epochs_advance [OF run st st'] st st' show ?thesis by blast
qed

text \<open>The leader a tick leaves in place: the tick then starts no election and keeps the epoch.\<close>

lemma tick_leader:
  assumes "tick config rd svc = Some (svc', out)" and "ms_state svc = Some st" and "mstate_wf st"
  obtains st' where "ms_state svc' = Some st'" and "m_epoch st' = m_epoch st"
    and "m_elected_leader_id st' \<noteq> None \<Longrightarrow> ms_elections svc' = ms_elections svc"
    and "m_elected_leader_id st = Some (me_id (ms_me svc)) \<Longrightarrow> m_elected_leader_id st' = m_elected_leader_id st"
proof -
  obtain st1 o1 where h: "heartbeats (ms_me svc) (hb_now rd) (hb_rnd rd) st = (st1, o1)" by fastforce
  have ep: "m_epoch st1 = m_epoch st"
    and own: "m_elected_leader_id st = Some (me_id (ms_me svc)) \<Longrightarrow> m_elected_leader_id st1 = m_elected_leader_id st"
    using h by (auto simp: heartbeats_def Let_def split: option.splits if_splits)
  have "mstate_wf st1" using heartbeats_keeps(1) [OF assms(3), of "ms_me svc" "hb_now rd" "hb_rnd rd"] h by simp
  then have w: "\<exists>st2 o3. worker_partitions (ms_me svc) rf st1 = Some (st2, o3) \<and>
      m_epoch st2 = m_epoch st1 \<and> m_elected_leader_id st2 = m_elected_leader_id st1" for rf
    by (rule worker_partitions_keeps) blast
  from assms(1,2) h obtain rf where rf: "config_replication_factor config = Some rf"
    by (auto simp: tick_def Let_def split: option.splits prod.splits)
  from w [of rf] obtain st2 o3 where w2: "worker_partitions (ms_me svc) rf st1 = Some (st2, o3)"
    "m_epoch st2 = m_epoch st1" "m_elected_leader_id st2 = m_elected_leader_id st1" by blast
  with assms(1,2) h rf have "svc' = svc\<lparr>ms_state := Some st2, ms_elections :=
      fst (start_election_if_needed (ms_me svc) (el_now rd) (el_rnd rd) st1 (ms_elections svc))\<rparr>"
    by (auto simp: tick_def split: prod.splits)
  moreover have "fst (start_election_if_needed (ms_me svc) (el_now rd) (el_rnd rd) st1 (ms_elections svc)) = ms_elections svc"
    if "m_elected_leader_id st1 \<noteq> None" using that by (auto simp: start_election_if_needed_def split: option.split)
  ultimately show ?thesis using that [of st2] w2 ep own by simp
qed

text \<open>One message, taken apart into its dispatch and the tick after it.\<close>

lemma process_parts:
  assumes "process config rd m svc = Some (svc', out)" and "ms_state svc = Some st"
    and "dispatch (ms_me svc) rd m st (ms_elections svc) = (st1, els, o1)"
  obtains o2 where "tick config rd (svc\<lparr>ms_state := Some st1, ms_elections := els\<rparr>) = Some (svc', o2)"
    and "out = o1 @ o2"
  using assms by (auto simp: process_def split: option.splits prod.splits)

text \<open>
  C25: The condition of the previous property is needed. Adopting another leader's newer cluster
  state does not drop the election a manager has pending, and the vote that completes it may still
  arrive: whenever a reachable manager with an election of its own pending accepts the cluster
  state of a later epoch and keeps its leader, the election stays, and the last missing approval then
  takes the manager back to the earlier epoch with itself as leader, which it announces to every
  other node.
\<close>

theorem late_vote_takes_epoch_back:
  assumes "manager_reachable manager_msg_wf config me svc" and "config_replication_factor config \<noteq> None"
    and "ms_state svc = Some st" and "ms_elections svc = [(e, Mine ts as)]"
    and "accepts_state (m_epoch st) (m_elected_leader_id st) (cs_epoch cs) (cs_leader_id cs)"
    and "parts_wf (cs_partitions cs)" and "e < cs_epoch cs"
    and "process config rd (MClusterState r cs) svc = Some (svc1, out1)" and "ms_state svc1 = Some st1"
    and "m_elected_leader_id st1 \<noteq> None"
    and "distinct (i # as)" and "set (i # as) = set (other_managers (me_id me) st1)"
  shows "m_epoch st1 = Some (cs_epoch cs) \<and> ms_elections svc1 = [(e, Mine ts as)] \<and>
    (\<exists>svc2 st2 out2. process config rd' (MVoteResponse i (me_id me) ts) svc1 = Some (svc2, out2) \<and>
       ms_state svc2 = Some st2 \<and> m_epoch st2 = Some e \<and> m_elected_leader_id st2 = Some (me_id me) \<and>
       (\<forall>k. k \<in> set (hm_keys (m_nodes st1)) \<longrightarrow> k \<noteq> me_id me \<longrightarrow> MLeader k e ts \<in> set out2))"
proof -
  obtain rf where rf: "config_replication_factor config = Some rf" using assms(2) by blast
  have ok: "mservice_ok me svc" by (rule reachable_ok [OF rf assms(1)])
  then have me: "ms_me svc = me" and wf: "mstate_wf st" using assms(3) by (auto simp: mservice_ok_def)
  have r1: "manager_reachable manager_msg_wf config me svc1"
    using manager_reachable.msg [OF assms(1,8)] assms(6) by simp
  from reachable_ok [OF rf this] have ok1: "mservice_ok me svc1" .
  then have me1: "ms_me svc1 = me" and wf1: "mstate_wf st1" using assms(9) by (auto simp: mservice_ok_def)
  obtain sta o1 where h: "handle_cluster_state me (cs_epoch cs) (cs_leader_id cs) (cs_nodes cs) (cs_partitions cs) st = (sta, o1)"
    by fastforce
  have sta: "mstate_wf sta" "m_epoch sta = Some (cs_epoch cs)"
    using handle_cluster_state_keeps(1) [OF wf assms(6), of me "cs_epoch cs" "cs_leader_id cs" "cs_nodes cs"]
      handle_cluster_state_cases [of me "cs_epoch cs" "cs_leader_id cs" "cs_nodes cs" "cs_partitions cs" st] h assms(5)
    by auto
  obtain o2 where t: "tick config rd (svc\<lparr>ms_state := Some sta, ms_elections := ms_elections svc\<rparr>) = Some (svc1, o2)"
    by (rule process_parts [OF assms(8,3), of sta "ms_elections svc" o1]) (simp_all add: me h)
  have one: "m_epoch st1 = Some (cs_epoch cs) \<and> ms_elections svc1 = [(e, Mine ts as)]"
    by (rule tick_leader [OF t, of sta]) (use sta assms(4,9,10) in auto)
  have "distinct (other_managers (me_id me) st1)"
    using wf1 by (auto simp: mstate_wf_def other_managers_def distinct_map_filter)
  with collect_votes_wins [of as "[i]" me st1 ts e "[]"] assms(11,12)
  have win: "handle_vote_response me i (me_id me) ts st1 [(e, Mine ts as)] =
      (st1\<lparr>m_elected_leader_id := Some (me_id me), m_epoch := Some e\<rparr>, [],
       map (\<lambda>k. MLeader k e ts) (filter (\<lambda>k. k \<noteq> me_id me) (hm_keys (m_nodes st1))))"
    by (auto split: prod.splits)
  obtain svc2 out2 where p: "process config rd' (MVoteResponse i (me_id me) ts) svc1 = Some (svc2, out2)"
    by (rule process_step [OF assms(9) ok1 rf, of "MVoteResponse i (me_id me) ts" rd']) auto
  let ?st = "st1\<lparr>m_elected_leader_id := Some (me_id me), m_epoch := Some e\<rparr>"
  obtain o3 where t2: "tick config rd' (svc1\<lparr>ms_state := Some ?st, ms_elections := []\<rparr>) = Some (svc2, o3)"
    and out2: "out2 = map (\<lambda>k. MLeader k e ts) (filter (\<lambda>k. k \<noteq> me_id me) (hm_keys (m_nodes st1))) @ o3"
    by (rule process_parts [OF p assms(9)]) (use one win me1 in simp)+
  obtain st2 where "ms_state svc2 = Some st2" "m_epoch st2 = Some e" "m_elected_leader_id st2 = Some (me_id me)"
    by (rule tick_leader [OF t2, of ?st]) (use wf1 me1 in \<open>auto simp: mstate_wf_def\<close>)
  with one p out2 show ?thesis by auto
qed

lemma late_vote_takes_epoch_back_witness:
  "\<exists>svc2 st2 out2. process demo_config (demo_readings 30) (MVoteResponse (NodeId ''b'') (NodeId ''m'') 10) demo_moved_on =
       Some (svc2, out2) \<and> ms_state svc2 = Some st2 \<and> m_epoch st2 = Some 1"
proof -
  let ?cs = "\<lparr>cs_epoch = 7, cs_leader_id = NodeId ''c'', cs_nodes = [], cs_partitions = default_partitions\<rparr>"
  let ?m = "MClusterState (NodeId ''m'') ?cs"
  obtain st st1 where st: "ms_state demo_electing = Some st" and st1: "ms_state demo_moved_on = Some st1"
    using reachable_ok [OF _ demo_electing_reachable, of 2] reachable_ok [OF _ demo_moved_on_reachable, of 2]
    by (auto simp: mservice_ok_def demo_config_def)
  have "process demo_config (demo_readings 20) ?m demo_electing \<noteq> None" by code_simp
  then obtain out1 where p: "process demo_config (demo_readings 20) ?m demo_electing = Some (demo_moved_on, out1)"
    by (cases "process demo_config (demo_readings 20) ?m demo_electing") (auto simp: demo_moved_on_def run_msg_def)
  have els: "ms_elections demo_electing = [(1, Mine 10 [])]" by code_simp
  have "accepts_state (m_epoch (the (ms_state demo_electing))) (m_elected_leader_id (the (ms_state demo_electing))) 7 (NodeId ''c'')"
    by code_simp
  then have acc: "accepts_state (m_epoch st) (m_elected_leader_id st) (cs_epoch ?cs) (cs_leader_id ?cs)" using st by simp
  have "m_elected_leader_id (the (ms_state demo_moved_on)) \<noteq> None" by code_simp
  then have l: "m_elected_leader_id st1 \<noteq> None" using st1 by simp
  have "other_managers (me_id demo_me) (the (ms_state demo_moved_on)) = [NodeId ''b'']" by code_simp
  then have others: "set [NodeId ''b''] = set (other_managers (me_id demo_me) st1)" using st1 by simp
  have rf: "config_replication_factor demo_config \<noteq> None" by (simp add: demo_config_def)
  from late_vote_takes_epoch_back [OF demo_electing_reachable rf st els acc _ _ p st1 l _ others, of "demo_readings 30"]
  show ?thesis by (auto simp: demo_me_def)
qed

text \<open>
  C26: A candidate that receives the approval of every other manager it knows, in any order, wins on
  the last one and not before: it becomes the leader of the epoch of its election, drops the
  election and announces itself to every other node.
\<close>

theorem unanimous_candidate_wins:
  assumes "mstate_wf st" and "mset votes = mset (other_managers (me_id me) st)" and "votes \<noteq> []"
  shows "collect_votes me ts votes (st, [(epoch, Mine ts [])], []) =
      (st\<lparr>m_elected_leader_id := Some (me_id me), m_epoch := Some epoch\<rparr>, [],
       map (\<lambda>k. MLeader k epoch ts) (filter (\<lambda>k. k \<noteq> me_id me) (hm_keys (m_nodes st)))) \<and>
    (\<forall>v. v \<in> set votes \<longrightarrow>
       fst (collect_votes me ts (remove1 v votes) (st, [(epoch, Mine ts [])], [])) = st)"
proof -
  let ?om = "other_managers (me_id me) st"
  have d: "distinct ?om"
    using assms(1) by (auto simp: mstate_wf_def other_managers_def distinct_map_filter)
  have set: "set votes = set ?om" and dv: "distinct votes"
    using assms(2) d by (metis mset_eq_setD, metis mset_eq_imp_distinct_iff)
  have win: "collect_votes me ts votes (st, [(epoch, Mine ts [])], []) =
      (st\<lparr>m_elected_leader_id := Some (me_id me), m_epoch := Some epoch\<rparr>, [],
       map (\<lambda>k. MLeader k epoch ts) (filter (\<lambda>k. k \<noteq> me_id me) (hm_keys (m_nodes st))))"
    using collect_votes_wins [of "[]" votes me st] d dv set assms(3) by simp
  have wait: "collect_votes me ts vs (st, [(epoch, Mine ts as)], []) = (st, [(epoch, Mine ts (as @ vs))], [])"
    if "distinct (as @ vs)" "length (as @ vs) < length ?om" for as vs
    using that
  proof (induction vs arbitrary: as)
    case (Cons v vs)
    then have "hs_insert v as = as @ [v]" by (simp add: hs_insert_def)
    then have "handle_vote_response me v (me_id me) ts st [(epoch, Mine ts as)] =
        (st, [(epoch, Mine ts (as @ [v]))], [])"
      using Cons.prems by (simp add: handle_vote_response_mine)
    with Cons.IH [of "as @ [v]"] Cons.prems show ?case by simp
  qed simp
  have "fst (collect_votes me ts (remove1 v votes) (st, [(epoch, Mine ts [])], [])) = st"
    if v: "v \<in> set votes" for v
  proof -
    have "length (remove1 v votes) < length ?om"
      using v mset_eq_length [OF assms(2)] length_pos_if_in_set [OF v] by (simp add: length_remove1)
    then show ?thesis using wait [of "[]" "remove1 v votes"] dv by (simp add: distinct_remove1)
  qed
  with win show ?thesis by blast
qed

lemma unanimous_candidate_wins_witness:
  "m_elected_leader_id (fst (collect_votes demo_me 10 [NodeId ''b'']
     (the (ms_state demo_electing), [(1, Mine 10 [])], []))) = Some (NodeId ''m'')"
proof -
  obtain st where st: "ms_state demo_electing = Some st" and wf: "mstate_wf st"
    using reachable_ok [OF _ demo_electing_reachable, of 2] by (auto simp: mservice_ok_def demo_config_def)
  have "other_managers (me_id demo_me) (the (ms_state demo_electing)) = [NodeId ''b'']" by code_simp
  with unanimous_candidate_wins [OF wf, of "[NodeId ''b'']" demo_me 10 1] st show ?thesis
    by (simp add: demo_me_def)
qed

text \<open>
  A vote request gets at most one response. A response is given only for an epoch beyond the
  voter's own, and it names the candidate and the time stamp of the election the voter then holds
  as its only pending one, so a voter never has an election of its own running while it supports
  another. A voter gives up the candidate it supports only for a later epoch or an earlier start.
\<close>

theorem votes_are_recorded:
  assumes "length els \<le> 1" and "handle_vote_request i epoch ts st els = (els', out)"
  shows "(out = [] \<and> els' = els) \<or>
    (\<exists>c t. out = [MVoteResponse i c t] \<and> els' = [(epoch, Other t c)] \<and> opt_less (m_epoch st) (Some epoch) \<and>
       (els' = els \<or> c = i \<and> t = ts \<and>
          (\<forall>e t' c'. els = [(e, Other t' c')] \<longrightarrow> e < epoch \<or> ts < t')))"
proof (cases els)
  case Nil
  with assms(2) show ?thesis
    by (auto simp: handle_vote_request_def last_election_def split: if_splits)
next
  case (Cons x xs)
  with assms(1) obtain e el where els: "els = [(e, el)]" by (cases x) auto
  with assms(2) show ?thesis
    by (cases el) (auto simp: handle_vote_request_def last_election_def Let_def split: if_splits option.splits)
qed

lemma votes_are_recorded_witness:
  "\<exists>els' out. handle_vote_request (NodeId ''b'') 3 5 (the (ms_state demo_electing)) [(1, Mine 10 [])] = (els', out) \<and>
     (\<exists>c t. els' = [(3, Other t c)])"
proof -
  obtain els' out where h:
    "handle_vote_request (NodeId ''b'') 3 5 (the (ms_state demo_electing)) [(1, Mine 10 [])] = (els', out)"
    by fastforce
  moreover have "snd (handle_vote_request (NodeId ''b'') 3 5 (the (ms_state demo_electing)) [(1, Mine 10 [])]) \<noteq> []"
    by code_simp
  ultimately show ?thesis using votes_are_recorded [OF _ h] by auto
qed

text \<open>
  C40: A manager without other managers never leads: started as the bootstrap manager and hearing
  only from workers, it elects no leader and assigns no partition, however many workers join and
  however long it runs.
\<close>

theorem sole_manager_never_leads:
  assumes "manager_reachable from_worker config me svc"
  shows "\<exists>st. ms_state svc = Some st \<and> m_elected_leader_id st = None \<and> mapping (m_partitions st) = []"
proof -
  have "leaderless svc" using assms
  proof (induction rule: manager_reachable.induct)
    case (init now)
    then show ?case
      by (auto simp: leaderless_def get_init_messages_def new_mservice_def new_mstate_def Let_def split: option.split)
  next
    case (msg svc rd m svc' out)
    from msg.IH obtain st where st: "ms_state svc = Some st" "m_elected_leader_id st = None"
      "m_partitions st = default_partitions" by (auto simp: leaderless_def)
    obtain st1 els o1 where d: "dispatch (ms_me svc) rd m st (ms_elections svc) = (st1, els, o1)"
      by (cases "dispatch (ms_me svc) rd m st (ms_elections svc)")
    have "leaderless (svc\<lparr>ms_state := Some st1, ms_elections := els\<rparr>)"
      using dispatch_leaderless [OF msg.hyps(3) st(2,3), of "ms_me svc" rd "ms_elections svc"] d
      by (simp add: leaderless_def)
    with msg.hyps(2) st(1) d show ?case
      by (auto simp: process_def split: option.splits intro: tick_leaderless)
  next
    case (tick svc rd svc' out)
    then show ?case by (blast intro: tick_leaderless)
  qed
  then show ?thesis by (auto simp: leaderless_def default_partitions_def)
qed

lemma sole_manager_never_leads_witness:
  "\<exists>st. ms_state (run_msg 10 (MNewConnection (Some (NodeId ''w'')) ''w'' 2 False) demo_started) = Some st \<and>
     m_elected_leader_id st = None"
proof -
  have "manager_reachable from_worker demo_config demo_me
      (run_msg 10 (MNewConnection (Some (NodeId ''w'')) ''w'' 2 False) demo_started)"
    by (rule run_msg_reachable [OF demo_started_reachable]) (simp, code_simp)
  from sole_manager_never_leads [OF this] show ?thesis by blast
qed

end
