(* ===== verification/Manager_Grpc.thy ===== *)
theory Manager_Grpc
  imports Sessions Manager_Service
begin

text \<open>
  The manager's gRPC layer (\<open>manager/grpc.rs\<close> and \<open>manager/grpc/\<close>): sessions with managers, workers
  and clients; the events written for each protocol message; the protocol messages read from
  each event. A connection the output loop is opening stands in \<open>mg_dials\<close>, the messages for
  its service in \<open>mg_tx\<close>.
\<close>

section \<open>State\<close>

record mgrpc =
  mg_me :: me
  mg_manager_sessions :: "(node_id, manager_event session) hash_map"
  mg_worker_sessions :: "(node_id, worker_event session) hash_map"
  mg_client_sessions :: "(node_id, grpc_cluster_state session) hash_map"
  mg_config :: config
  mg_tx :: "manager_protocol list"
  mg_dials :: "(string \<times> u32 \<times> nat) list"

definition new_mgrpc :: "me \<Rightarrow> config \<Rightarrow> mgrpc" where
  "new_mgrpc me config =
     \<lparr>mg_me = me, mg_manager_sessions = [], mg_worker_sessions = [], mg_client_sessions = [],
      mg_config = config, mg_tx = [], mg_dials = []\<rparr>"

section \<open>Output\<close>

definition to_manager :: "manager_event \<Rightarrow> node_id \<Rightarrow> mgrpc \<Rightarrow> mgrpc" where
  "to_manager event i g =
     (let (sessions, gone) = handle_common event i (mg_manager_sessions g)
      in g\<lparr>mg_manager_sessions := sessions, mg_tx := mg_tx g @ map MNodeDisconnected gone\<rparr>)"

definition to_worker :: "worker_event \<Rightarrow> node_id \<Rightarrow> mgrpc \<Rightarrow> mgrpc" where
  "to_worker event i g =
     (let (sessions, gone) = handle_common event i (mg_worker_sessions g)
      in g\<lparr>mg_worker_sessions := sessions, mg_tx := mg_tx g @ map MNodeDisconnected gone\<rparr>)"

definition has_worker_session :: "node_id \<Rightarrow> mgrpc \<Rightarrow> bool" where
  "has_worker_session i g \<longleftrightarrow> hm_get (mg_worker_sessions g) i \<noteq> None"

definition handle_output_leader :: "node_id \<Rightarrow> u64 \<Rightarrow> u64 \<Rightarrow> mgrpc \<Rightarrow> mgrpc" where
  "handle_output_leader i epoch ts g =
     (let leader = node_id_to_string (me_id (mg_me g))
      in if has_worker_session i g then to_worker (WEManagerLeader leader epoch ts) i g
         else to_manager (MELeader leader epoch ts) i g)"

definition handle_output_vote_response :: "node_id \<Rightarrow> node_id \<Rightarrow> u64 \<Rightarrow> mgrpc \<Rightarrow> mgrpc" where
  "handle_output_vote_response i leader_id ts g =
     to_manager (MEVoteResponse (node_id_to_string leader_id) ts) i g"

definition handle_output_vote_request :: "node_id \<Rightarrow> u64 \<Rightarrow> u64 \<Rightarrow> mgrpc \<Rightarrow> mgrpc" where
  "handle_output_vote_request i epoch ts g = to_manager (MEVoteRequest epoch ts) i g"

definition broadcast_to_client ::
  "node_id \<Rightarrow> grpc_cluster_state \<Rightarrow> node_id \<times> grpc_cluster_state session \<Rightarrow>
   (node_id, grpc_cluster_state session) hash_map \<Rightarrow> (node_id, grpc_cluster_state session) hash_map" where
  "broadcast_to_client i state = (\<lambda>(client_id, s) sessions.
     if client_id = i then sessions
     else if closed s then hm_remove client_id sessions
     else hm_update client_id (session_send state) sessions)"

definition handle_output_cluster_state :: "node_id \<Rightarrow> cluster_state \<Rightarrow> mgrpc \<Rightarrow> mgrpc" where
  "handle_output_cluster_state i cs g =
     (let state = cluster_state_to_grpc cs;
          g1 = (if hm_get (mg_client_sessions g) i \<noteq> None
                then g\<lparr>mg_client_sessions := hm_update i (session_send state) (mg_client_sessions g)\<rparr>
                else if has_worker_session i g then to_worker (WEClusterState state) i g
                else to_manager (MEClusterState state) i g);
          clients = mg_client_sessions g1
      in g1\<lparr>mg_client_sessions := fold (broadcast_to_client i state) clients clients\<rparr>)"

definition handle_output_get_cluster_state :: "node_id \<Rightarrow> mgrpc \<Rightarrow> mgrpc" where
  "handle_output_get_cluster_state i g = to_manager MEGetClusterState i g"

definition handle_output_heartbeat :: "node_id \<Rightarrow> node_id \<Rightarrow> u64 \<Rightarrow> mgrpc \<Rightarrow> mgrpc" where
  "handle_output_heartbeat i n ts g =
     (if has_worker_session i g then to_worker (WEHeartbeat (node_id_to_string n) ts) i g
      else to_manager (MEHeartbeat (node_id_to_string n) ts) i g)"

definition handle_output_remove_partition_from_replica ::
  "node_id \<Rightarrow> node_id \<Rightarrow> partition_id \<Rightarrow> mgrpc \<Rightarrow> mgrpc" where
  "handle_output_remove_partition_from_replica recipient_id replica_id p g =
     (let r = node_id_to_string replica_id; n = ucast (partition_number p)
      in if has_worker_session recipient_id g then to_worker (WERemovePartitionFromReplica r n) recipient_id g
         else to_manager (MERemovePartitionFromReplica r n) recipient_id g)"

text \<open>One message of the output loop; \<^const>\<open>None\<close> is a panic of the loop.\<close>

fun mg_output :: "manager_protocol \<Rightarrow> mgrpc \<Rightarrow> mgrpc option" where
  "mg_output (MRemovePartitionFromReplica i replica_id p) g =
     Some (handle_output_remove_partition_from_replica i replica_id p g)"
| "mg_output (MHeartbeat i hb) g = Some (handle_output_heartbeat i (hb_id hb) (hb_ts hb) g)"
| "mg_output (MNewConnection _ host port manager) g =
     (case config_replication_factor (mg_config g) of
        None \<Rightarrow> None
      | Some replication_factor \<Rightarrow>
          Some (if manager then g\<lparr>mg_dials := mg_dials g @ [(host, port, replication_factor)]\<rparr> else g))"
| "mg_output (MGetClusterState i) g = Some (handle_output_get_cluster_state i g)"
| "mg_output (MClusterState i cs) g = Some (handle_output_cluster_state i cs g)"
| "mg_output (MVoteRequest i epoch ts) g = Some (handle_output_vote_request i epoch ts g)"
| "mg_output (MVoteResponse i leader_id ts) g = Some (handle_output_vote_response i leader_id ts g)"
| "mg_output (MLeader i epoch ts) g = Some (handle_output_leader i epoch ts g)"
| "mg_output (MNodeDisconnected _) g = None"

section \<open>Input\<close>

text \<open>One event of a worker's stream, read for the session of node \<open>i\<close>.\<close>

fun on_worker_event :: "(string \<Rightarrow> string option) \<Rightarrow> node_id \<Rightarrow> worker_event \<Rightarrow> manager_protocol action" where
  "on_worker_event uuid i (WERemovePartitionFromReplica replica_id p) =
     emit_with (\<lambda>r. MRemovePartitionFromReplica i r (PartitionId (ucast p))) (node_id_from_string uuid replica_id)"
| "on_worker_event uuid i (WEHeartbeat n ts) =
     emit_with (\<lambda>j. MHeartbeat i \<lparr>hb_id = j, hb_ts = ts\<rparr>) (node_id_from_string uuid n)"
| "on_worker_event uuid i WEGetClusterState = Emit (MGetClusterState i)"
| "on_worker_event uuid i (WEClusterState _) = Break"
| "on_worker_event uuid i (WEManagerLeader _ _ _) = Break"
| "on_worker_event uuid i (WEConnect _ _ _) = Break"
| "on_worker_event uuid i (WEConnectResponse _) = Break"

definition input_from_worker ::
  "(string \<Rightarrow> string option) \<Rightarrow> node_id \<Rightarrow> string \<Rightarrow> u32 \<Rightarrow> worker_event list \<Rightarrow> manager_protocol list \<times> bool" where
  "input_from_worker uuid i host port events =
     (let (ms, panicked) = read_stream (on_worker_event uuid i) events
      in (MNewConnection (Some i) host port False # ms, panicked))"

fun on_manager_event ::
  "(string \<Rightarrow> string option) \<Rightarrow> me \<Rightarrow> node_id \<Rightarrow> manager_event \<Rightarrow> manager_protocol action" where
  "on_manager_event uuid me i (MERemovePartitionFromReplica replica_id p) =
     emit_with (\<lambda>r. MRemovePartitionFromReplica i r (PartitionId (ucast p))) (node_id_from_string uuid replica_id)"
| "on_manager_event uuid me i (MEHeartbeat n ts) =
     emit_with (\<lambda>j. MHeartbeat i \<lparr>hb_id = j, hb_ts = ts\<rparr>) (node_id_from_string uuid n)"
| "on_manager_event uuid me i MEGetClusterState = Emit (MGetClusterState i)"
| "on_manager_event uuid me i (MEClusterState cs) =
     (case gc_partitions cs of
        None \<Rightarrow> Break
      | Some parts \<Rightarrow>
          (case grpc_cluster_state_to_domain uuid cs parts of
             None \<Rightarrow> Panic
           | Some state \<Rightarrow> Emit (MClusterState (me_id me) state)))"
| "on_manager_event uuid me i (MEVoteRequest epoch ts) = Emit (MVoteRequest i epoch ts)"
| "on_manager_event uuid me i (MEVoteResponse leader_id ts) =
     emit_with (\<lambda>l. MVoteResponse i l ts) (node_id_from_string uuid leader_id)"
| "on_manager_event uuid me i (MELeader l epoch ts) =
     emit_with (\<lambda>j. MLeader j epoch ts) (node_id_from_string uuid l)"
| "on_manager_event uuid me i (MEConnect _ _ _) = Break"
| "on_manager_event uuid me i (MEConnectResponse _) = Break"

definition input_from_manager ::
  "(string \<Rightarrow> string option) \<Rightarrow> me \<Rightarrow> node_id \<Rightarrow> string \<Rightarrow> u32 \<Rightarrow> manager_event list \<Rightarrow>
   manager_protocol list \<times> bool" where
  "input_from_manager uuid me i host port events =
     (let (ms, panicked) = read_stream (on_manager_event uuid me i) events
      in (MNewConnection (Some i) host port True # ms, panicked))"

section \<open>Connections\<close>

text \<open>
  The accepted streams. A stream that does not start with the expected \<open>Connect\<close> is ignored. The
  session is entered before its first event is answered; when the reader ends without a panic
  the session is removed and the node reported as disconnected.
\<close>

definition open_connection ::
  "(string \<Rightarrow> string option) \<Rightarrow> manager_event option \<Rightarrow> mgrpc \<Rightarrow> mgrpc \<times> (node_id \<times> grpc_addr) option" where
  "open_connection uuid first g =
     (case first of
        Some (MEConnect i (Some addr) (Some replication_factor)) \<Rightarrow>
          (case set_replication_factor (unat replication_factor) (mg_config g) of
             None \<Rightarrow> (g, None)
           | Some config \<Rightarrow>
               (let g1 = g\<lparr>mg_config := config\<rparr>
                in case node_id_from_string uuid i of
                     None \<Rightarrow> (g1, None)
                   | Some j \<Rightarrow>
                       (g1\<lparr>mg_manager_sessions := hm_insert j
                             (open_session [MEConnectResponse (node_id_to_string (me_id (mg_me g)))])
                             (mg_manager_sessions g1)\<rparr>, Some (j, addr))))
      | _ \<Rightarrow> (g, None))"

definition open_worker_connection ::
  "(string \<Rightarrow> string option) \<Rightarrow> worker_event option \<Rightarrow> mgrpc \<Rightarrow> mgrpc \<times> (node_id \<times> grpc_addr) option" where
  "open_worker_connection uuid first g =
     (case first of
        Some (WEConnect i (Some addr) _) \<Rightarrow>
          (case node_id_from_string uuid i of
             None \<Rightarrow> (g, None)
           | Some j \<Rightarrow>
               (g\<lparr>mg_worker_sessions := hm_insert j
                     (open_session [WEConnectResponse (node_id_to_string (me_id (mg_me g)))])
                     (mg_worker_sessions g)\<rparr>, Some (j, addr)))
      | _ \<Rightarrow> (g, None))"

definition open_client_connection :: "(string \<Rightarrow> string option) \<Rightarrow> string \<Rightarrow> mgrpc \<Rightarrow> mgrpc option" where
  "open_client_connection uuid i g =
     map_option (\<lambda>j. g\<lparr>mg_client_sessions := hm_insert j (open_session []) (mg_client_sessions g),
                       mg_tx := mg_tx g @ [MGetClusterState j]\<rparr>)
       (node_id_from_string uuid i)"

text \<open>
  A connection this manager opened, with the answer to its \<open>Connect\<close>. The result is \<open>None\<close> when the
  loop panics on the id of the answer.
\<close>

definition start_communication_with_manager ::
  "(string \<Rightarrow> string option) \<Rightarrow> nat \<Rightarrow> manager_event option \<Rightarrow> mgrpc \<Rightarrow> (mgrpc \<times> node_id option) option" where
  "start_communication_with_manager uuid replication_factor answer g =
     (case answer of
        Some (MEConnectResponse i) \<Rightarrow>
          (case node_id_from_string uuid i of
             None \<Rightarrow> None
           | Some j \<Rightarrow>
               Some (g\<lparr>mg_manager_sessions := hm_insert j
                     (open_session [MEConnect (node_id_to_string (me_id (mg_me g)))
                        (Some (me_host (mg_me g), me_port (mg_me g))) (Some (word_of_nat replication_factor))])
                     (mg_manager_sessions g)\<rparr>, Some j))
      | _ \<Rightarrow> Some (g, None))"

definition new_manager_connection ::
  "(string \<Rightarrow> string option) \<Rightarrow> nat \<Rightarrow> manager_event dial_outcome \<Rightarrow> mgrpc \<Rightarrow> (mgrpc \<times> node_id option) option" where
  "new_manager_connection uuid replication_factor outcome g =
     (case outcome of
        ConnectFails _ \<Rightarrow> Some (g, None)
      | OpenFails _ \<Rightarrow> Some (g, None)
      | StreamOpens answer \<Rightarrow> start_communication_with_manager uuid replication_factor answer g)"

text \<open>The reader task of a manager session and of a worker session, from start to end.\<close>

definition manager_session_task ::
  "(string \<Rightarrow> string option) \<Rightarrow> node_id \<Rightarrow> grpc_addr \<Rightarrow> manager_event list \<Rightarrow> mgrpc \<Rightarrow> mgrpc" where
  "manager_session_task uuid i addr events g =
     (let (ms, panicked) = input_from_manager uuid (mg_me g) i (fst addr) (snd addr) events;
          g1 = g\<lparr>mg_tx := mg_tx g @ ms\<rparr>
      in if panicked then g1
         else g1\<lparr>mg_manager_sessions := hm_remove i (mg_manager_sessions g1),
                 mg_tx := mg_tx g1 @ [MNodeDisconnected i]\<rparr>)"

definition worker_session_task ::
  "(string \<Rightarrow> string option) \<Rightarrow> node_id \<Rightarrow> grpc_addr \<Rightarrow> worker_event list \<Rightarrow> mgrpc \<Rightarrow> mgrpc" where
  "worker_session_task uuid i addr events g =
     (let (ms, panicked) = input_from_worker uuid i (fst addr) (snd addr) events;
          g1 = g\<lparr>mg_tx := mg_tx g @ ms\<rparr>
      in if panicked then g1
         else g1\<lparr>mg_worker_sessions := hm_remove i (mg_worker_sessions g1),
                 mg_tx := mg_tx g1 @ [MNodeDisconnected i]\<rparr>)"

section \<open>Delivery\<close>

text \<open>
  What the layer promises: a message addressed to a manager with an open session arrives there as
  the message of the same kind, with the sender in the place of the addressee.
\<close>

fun addressee :: "manager_protocol \<Rightarrow> node_id option" where
  "addressee (MNewConnection _ _ _ _) = None"
| "addressee (MHeartbeat i _) = Some i"
| "addressee (MGetClusterState i) = Some i"
| "addressee (MClusterState i _) = Some i"
| "addressee (MVoteRequest i _ _) = Some i"
| "addressee (MVoteResponse i _ _) = Some i"
| "addressee (MLeader i _ _) = Some i"
| "addressee (MNodeDisconnected _) = None"
| "addressee (MRemovePartitionFromReplica i _ _) = Some i"

fun received :: "node_id \<Rightarrow> node_id \<Rightarrow> manager_protocol \<Rightarrow> manager_protocol" where
  "received s r (MHeartbeat _ hb) = MHeartbeat s hb"
| "received s r (MGetClusterState _) = MGetClusterState s"
| "received s r (MClusterState _ cs) = MClusterState r cs"
| "received s r (MVoteRequest _ epoch ts) = MVoteRequest s epoch ts"
| "received s r (MVoteResponse _ l ts) = MVoteResponse s l ts"
| "received s r (MLeader _ epoch ts) = MLeader s epoch ts"
| "received s r (MRemovePartitionFromReplica _ x p) = MRemovePartitionFromReplica s x p"
| "received s r m = m"

fun msg_canonical :: "(string \<Rightarrow> string option) \<Rightarrow> manager_protocol \<Rightarrow> bool" where
  "msg_canonical uuid (MHeartbeat _ hb) = canonical uuid (hb_id hb)"
| "msg_canonical uuid (MClusterState _ cs) = state_canonical uuid cs"
| "msg_canonical uuid (MVoteResponse _ l _) = canonical uuid l"
| "msg_canonical uuid (MRemovePartitionFromReplica _ r _) = canonical uuid r"
| "msg_canonical uuid _ = True"

text \<open>The event a message becomes on a session between managers.\<close>

fun manager_event_of :: "me \<Rightarrow> manager_protocol \<Rightarrow> manager_event" where
  "manager_event_of me (MHeartbeat _ hb) = MEHeartbeat (node_id_to_string (hb_id hb)) (hb_ts hb)"
| "manager_event_of me (MClusterState _ cs) = MEClusterState (cluster_state_to_grpc cs)"
| "manager_event_of me (MVoteRequest _ epoch ts) = MEVoteRequest epoch ts"
| "manager_event_of me (MVoteResponse _ l ts) = MEVoteResponse (node_id_to_string l) ts"
| "manager_event_of me (MLeader _ epoch ts) = MELeader (node_id_to_string (me_id me)) epoch ts"
| "manager_event_of me (MRemovePartitionFromReplica _ r p) =
     MERemovePartitionFromReplica (node_id_to_string r) (ucast (partition_number p))"
| "manager_event_of me _ = MEGetClusterState"

lemma to_manager_sends:
  assumes "hm_get (mg_manager_sessions g) i = Some s" and "\<not> closed s"
  shows "to_manager event i g =
    g\<lparr>mg_manager_sessions := hm_update i (session_send event) (mg_manager_sessions g)\<rparr>"
  using assms by (simp add: to_manager_def handle_common_open)

lemma mg_output_sends:
  assumes "addressee m = Some i" and "hm_get (mg_manager_sessions g) i = Some s" and "\<not> closed s"
    and "hm_get (mg_worker_sessions g) i = None" and "hm_get (mg_client_sessions g) i = None"
  shows "\<exists>g'. mg_output m g = Some g' \<and>
    mg_manager_sessions g' = hm_update i (session_send (manager_event_of (mg_me g) m)) (mg_manager_sessions g) \<and>
    mg_tx g' = mg_tx g"
  using assms
  by (cases m)
     (auto simp: handle_output_remove_partition_from_replica_def handle_output_heartbeat_def
       handle_output_get_cluster_state_def handle_output_cluster_state_def handle_output_vote_request_def
       handle_output_vote_response_def handle_output_leader_def has_worker_session_def to_manager_sends Let_def)

lemma manager_event_read:
  assumes "addressee m = Some i" and "msg_canonical uuid m" and "canonical uuid (me_id sender)"
  shows "on_manager_event uuid me' (me_id sender) (manager_event_of sender m) =
    Emit (received (me_id sender) (me_id me') m)"
proof (cases m)
  case (MClusterState j cs)
  with assms(2) have c: "state_canonical uuid cs" by simp
  then have "grpc_cluster_state_to_domain uuid (cluster_state_to_grpc cs)
      (domain_partitions_to_grpc (cs_partitions cs)) = Some cs"
    using nodes_round_trip_state [of uuid cs]
    by (auto simp: grpc_cluster_state_to_domain_def state_canonical_def node_id_round_trip partitions_round_trip
        cluster_state_to_grpc_def)
  then show ?thesis using MClusterState by (simp add: cluster_state_to_grpc_def)
qed (use assms in \<open>auto simp: emit_with_def node_id_round_trip partition_number_round_trip\<close>)

lemma on_manager_event_wf:
  "on_manager_event uuid me i e = Emit m \<Longrightarrow> manager_msg_wf m"
  by (cases e) (auto simp: emit_with_def decoded_state_wf split: option.splits)

lemma on_worker_event_from_worker:
  "on_worker_event uuid i e = Emit m \<Longrightarrow> manager_msg_wf m \<and> from_worker m"
  by (cases e) (auto simp: emit_with_def split: option.splits)

section \<open>Properties\<close>

text \<open>
  C30: Whatever arrives on the streams, the messages the input layer hands to the manager service
  are well-formed, and those read from a worker's stream are of the kinds workers send. This
  discharges the assumption under which the service never panics.
\<close>

theorem input_messages_wf:
  "list_all manager_msg_wf (fst (input_from_manager uuid me i host port events)) \<and>
   list_all (\<lambda>m. manager_msg_wf m \<and> from_worker m) (fst (input_from_worker uuid i host port wevents))"
proof -
  have "list_all manager_msg_wf (fst (read_stream (on_manager_event uuid me i) events))"
    by (rule read_stream_all) (rule on_manager_event_wf)
  moreover have "list_all (\<lambda>m. manager_msg_wf m \<and> from_worker m) (fst (read_stream (on_worker_event uuid i) wevents))"
    by (rule read_stream_all) (rule on_worker_event_from_worker)
  ultimately show ?thesis
    by (auto simp: input_from_manager_def input_from_worker_def split: prod.splits)
qed

text \<open>
  Delivery between managers. A protocol message addressed to a manager with an open session is
  written to exactly that session, and what the receiving manager reads from it is the same
  message with the sender's id in place of the addressee's; no message is reported or lost. Node
  ids on the wire must be canonical UUID texts.
\<close>

theorem manager_messages_delivered:
  assumes "addressee m = Some i" and "hm_get (mg_manager_sessions g) i = Some s" and "\<not> closed s"
    and "hm_get (mg_worker_sessions g) i = None" and "hm_get (mg_client_sessions g) i = None"
    and "msg_canonical uuid m" and "canonical uuid (me_id (mg_me g))"
  shows "\<exists>g' ev. mg_output m g = Some g' \<and> mg_tx g' = mg_tx g \<and>
    hm_get (mg_manager_sessions g') i = Some (s\<lparr>sent := sent s @ [ev]\<rparr>) \<and>
    (\<forall>j. j \<noteq> i \<longrightarrow> hm_get (mg_manager_sessions g') j = hm_get (mg_manager_sessions g) j) \<and>
    on_manager_event uuid me' (me_id (mg_me g)) ev = Emit (received (me_id (mg_me g)) (me_id me') m)"
proof -
  obtain g' where g': "mg_output m g = Some g'" "mg_tx g' = mg_tx g"
    "mg_manager_sessions g' = hm_update i (session_send (manager_event_of (mg_me g) m)) (mg_manager_sessions g)"
    using mg_output_sends [OF assms(1-5)] by blast
  moreover have "session_send (manager_event_of (mg_me g) m) s = s\<lparr>sent := sent s @ [manager_event_of (mg_me g) m]\<rparr>"
    using assms(3) by (simp add: session_send_def)
  ultimately show ?thesis
    using assms(2) manager_event_read [OF assms(1,6,7)] by auto
qed

definition demo_mgrpc :: mgrpc where
  "demo_mgrpc = (new_mgrpc demo_me demo_config)\<lparr>mg_manager_sessions := [(NodeId ''b'', open_session [])]\<rparr>"

lemma manager_messages_delivered_witness:
  "\<exists>g' ev. mg_output (MVoteRequest (NodeId ''b'') 4 9) demo_mgrpc = Some g' \<and>
     on_manager_event demo_uuid \<lparr>me_id = NodeId ''b'', me_host = ''b'', me_port = 2\<rparr> (NodeId ''m'') ev =
       Emit (MVoteRequest (NodeId ''m'') 4 9)"
  using manager_messages_delivered [of "MVoteRequest (NodeId ''b'') 4 9" "NodeId ''b''" demo_mgrpc
      "open_session []" demo_uuid "\<lparr>me_id = NodeId ''b'', me_host = ''b'', me_port = 2\<rparr>"]
  by (auto simp: demo_mgrpc_def new_mgrpc_def open_session_def canonical_def demo_uuid_def demo_me_def)

end
