(* ===== verification/Election_Safety.thy ===== *)
theory Election_Safety
  imports Manager_Grpc
begin

text \<open>
  Safety of the leader election across managers: two managers that count each other among the
  managers do not both win the election of the same epoch.

  The system is a set of managers, each with its service, and the messages they have sent. A message
  is delivered as the gRPC layer delivers it (\<open>received\<close>), any number of times, in any order, or never.
  Every other message a manager can receive (cluster states, announcements of leaders, connections,
  heartbeats) is arbitrary: only votes have to be genuine. \<open>process\<close> is a delivery followed by a tick.

  Two assumptions are part of the steps: the clock of a manager shows a different time for each
  election it starts, and the epoch counter does not overflow.
\<close>

section \<open>Elections in a cluster\<close>

text \<open>What happens in elections, newest event first; an election is named by its candidate, epoch and time.\<close>

datatype election_event =
    Started node_id u64 u64
  | Voted node_id node_id u64 u64
  | Won node_id u64 u64 "node_id list"

fun event_node :: "election_event \<Rightarrow> node_id" where
  "event_node (Started a _ _) = a"
| "event_node (Voted a _ _ _) = a"
| "event_node (Won a _ _ _) = a"

record cluster =
  c_service :: "node_id \<Rightarrow> mservice"
  c_sent :: "(node_id \<times> manager_protocol) list"
  c_log :: "election_event list"

fun is_vote :: "manager_protocol \<Rightarrow> bool" where
  "is_vote (MVoteRequest _ _ _) = True"
| "is_vote (MVoteResponse _ _ _) = True"
| "is_vote _ = False"

text \<open>The events of a step, read off the messages it sends and the election it starts.\<close>

fun vote_event :: "node_id \<Rightarrow> u64 \<Rightarrow> manager_protocol \<Rightarrow> election_event option" where
  "vote_event a epoch (MVoteResponse _ candidate ts) = Some (Voted a candidate epoch ts)"
| "vote_event a epoch _ = None"

fun win_event :: "node_id \<Rightarrow> mstate \<Rightarrow> manager_protocol \<Rightarrow> election_event option" where
  "win_event a st (MLeader _ epoch ts) = Some (Won a epoch ts (other_managers a st))"
| "win_event a st _ = None"

fun dispatch_events :: "node_id \<Rightarrow> mstate \<Rightarrow> manager_protocol \<Rightarrow> manager_protocol list \<Rightarrow> election_event list" where
  "dispatch_events a st (MVoteRequest _ epoch _) out = List.map_filter (vote_event a epoch) out"
| "dispatch_events a st (MVoteResponse _ _ _) out = List.map_filter (win_event a st) out"
| "dispatch_events a st _ out = []"

fun started_event :: "node_id \<Rightarrow> u64 \<times> election \<Rightarrow> election_event option" where
  "started_event a (epoch, Mine ts _) = Some (Started a epoch ts)"
| "started_event a (epoch, Other _ _) = None"

definition tick_events :: "node_id \<Rightarrow> elections \<Rightarrow> elections \<Rightarrow> election_event list" where
  "tick_events a els els' = (if els' = els then [] else List.map_filter (started_event a) els')"

definition delivered :: "cluster \<Rightarrow> node_id \<Rightarrow> manager_protocol \<Rightarrow> bool" where
  "delivered c a m \<longleftrightarrow>
     (is_vote m \<longrightarrow> list_ex (\<lambda>(s, m'). addressee m' = Some a \<and> m = received s a m') (c_sent c))"

inductive cluster_reachable :: "(node_id \<Rightarrow> config) \<Rightarrow> (node_id \<Rightarrow> me) \<Rightarrow> cluster \<Rightarrow> bool" for cfg mes where
  cluster_start:
    "(\<And>a. me_id (mes a) = a) \<Longrightarrow> (\<And>a. config_replication_factor (cfg a) \<noteq> None) \<Longrightarrow>
     cluster_reachable cfg mes
       \<lparr>c_service = (\<lambda>a. fst (get_init_messages (cfg a) (now a) (new_mservice (mes a)))), c_sent = [], c_log = []\<rparr>"
| cluster_deliver:
    "cluster_reachable cfg mes c \<Longrightarrow> ms_state (c_service c a) = Some st \<Longrightarrow> manager_msg_wf m \<Longrightarrow> delivered c a m \<Longrightarrow>
     dispatch (ms_me (c_service c a)) rd m st (ms_elections (c_service c a)) = (st', els', out) \<Longrightarrow>
     cluster_reachable cfg mes
       (c\<lparr>c_service := (c_service c)(a := (c_service c a)\<lparr>ms_state := Some st', ms_elections := els'\<rparr>),
          c_sent := map (Pair a) out @ c_sent c, c_log := dispatch_events a st m out @ c_log c\<rparr>)"
| cluster_tick:
    "cluster_reachable cfg mes c \<Longrightarrow> tick (cfg a) rd (c_service c a) = Some (svc', out) \<Longrightarrow>
     list_all (\<lambda>ev. case ev of Started b _ ts \<Rightarrow> b = a \<longrightarrow> ts \<noteq> el_now rd | _ \<Rightarrow> True) (c_log c) \<Longrightarrow>
     ms_state (c_service c a) = Some st \<Longrightarrow> m_epoch st \<noteq> Some (- 1) \<Longrightarrow>
     cluster_reachable cfg mes
       (c\<lparr>c_service := (c_service c)(a := svc'), c_sent := map (Pair a) out @ c_sent c,
          c_log := tick_events a (ms_elections (c_service c a)) (ms_elections svc') @ c_log c\<rparr>)"

section \<open>The invariant\<close>

text \<open>No vote of \<open>a\<close> since it started its election.\<close>

definition quiet_since :: "node_id \<Rightarrow> u64 \<Rightarrow> u64 \<Rightarrow> election_event list \<Rightarrow> bool" where
  "quiet_since a e ts log \<longleftrightarrow>
     (\<exists>post pre. log = post @ Started a e ts # pre \<and> (\<forall>b e' t'. Voted a b e' t' \<notin> set post))"

fun log_wf :: "election_event list \<Rightarrow> bool" where
  "log_wf [] = True"
| "log_wf (Started a e ts # log) = (log_wf log \<and> (\<forall>e'. Started a e' ts \<notin> set log))"
| "log_wf (Voted a b e ts # log) =
     (log_wf log \<and> Started b e ts \<in> set log \<and> (\<forall>ts' others. Won a e ts' others \<notin> set log))"
| "log_wf (Won a e ts others # log) =
     (log_wf log \<and> quiet_since a e ts log \<and> (\<forall>b\<in>set others. Voted b a e ts \<in> set log))"

fun election_ok :: "node_id \<Rightarrow> election_event list \<Rightarrow> u64 \<times> election \<Rightarrow> bool" where
  "election_ok a log (e, Mine ts approvers) \<longleftrightarrow>
     quiet_since a e ts log \<and> (\<forall>b\<in>set approvers. Voted b a e ts \<in> set log)"
| "election_ok a log (e, Other ts candidate) \<longleftrightarrow> Voted a candidate e ts \<in> set log"

definition wins_past :: "node_id \<Rightarrow> mstate \<Rightarrow> elections \<Rightarrow> election_event list \<Rightarrow> bool" where
  "wins_past a st els log \<longleftrightarrow>
     (\<forall>e ts others. Won a e ts others \<in> set log \<longrightarrow>
        (\<exists>e'. m_epoch st = Some e' \<and> e \<le> e') \<and> (\<forall>e2\<in>set (map fst els). e < e2))"

definition node_ok :: "node_id \<Rightarrow> mservice \<Rightarrow> election_event list \<Rightarrow> bool" where
  "node_ok a svc log \<longleftrightarrow>
     me_id (ms_me svc) = a \<and> length (ms_elections svc) \<le> 1 \<and> list_all (election_ok a log) (ms_elections svc) \<and>
     (case ms_state svc of None \<Rightarrow> False | Some st \<Rightarrow> mstate_wf st \<and> wins_past a st (ms_elections svc) log)"

fun sent_ok :: "election_event list \<Rightarrow> node_id \<times> manager_protocol \<Rightarrow> bool" where
  "sent_ok log (s, MVoteRequest _ e ts) \<longleftrightarrow> Started s e ts \<in> set log"
| "sent_ok log (s, MVoteResponse _ candidate ts) \<longleftrightarrow> (\<exists>e. Voted s candidate e ts \<in> set log)"
| "sent_ok log _ \<longleftrightarrow> True"

definition cluster_ok :: "cluster \<Rightarrow> bool" where
  "cluster_ok c \<longleftrightarrow>
     log_wf (c_log c) \<and> (\<forall>a. node_ok a (c_service c a) (c_log c)) \<and> list_all (sent_ok (c_log c)) (c_sent c)"

text \<open>A run with two managers: \<open>a\<close> starts an election, \<open>b\<close> approves, \<open>a\<close> wins.\<close>

definition deliver_to :: "node_id \<Rightarrow> readings \<Rightarrow> manager_protocol \<Rightarrow> cluster \<Rightarrow> cluster" where
  "deliver_to a rd m c =
     (case ms_state (c_service c a) of
        None \<Rightarrow> c
      | Some st \<Rightarrow>
          (case dispatch (ms_me (c_service c a)) rd m st (ms_elections (c_service c a)) of
             (st', els', out) \<Rightarrow>
               c\<lparr>c_service := (c_service c)(a := (c_service c a)\<lparr>ms_state := Some st', ms_elections := els'\<rparr>),
                 c_sent := map (Pair a) out @ c_sent c, c_log := dispatch_events a st m out @ c_log c\<rparr>))"

definition tick_at :: "(node_id \<Rightarrow> config) \<Rightarrow> node_id \<Rightarrow> readings \<Rightarrow> cluster \<Rightarrow> cluster" where
  "tick_at cfg a rd c =
     (case tick (cfg a) rd (c_service c a) of
        None \<Rightarrow> c
      | Some (svc', out) \<Rightarrow>
          c\<lparr>c_service := (c_service c)(a := svc'), c_sent := map (Pair a) out @ c_sent c,
            c_log := tick_events a (ms_elections (c_service c a)) (ms_elections svc') @ c_log c\<rparr>)"

definition demo_cfg :: "node_id \<Rightarrow> config" where
  "demo_cfg _ = ConfigManager 1 (''m'', 1) None 1"

definition demo_mes :: "node_id \<Rightarrow> me" where
  "demo_mes a = \<lparr>me_id = a, me_host = ''m'', me_port = 1\<rparr>"

definition demo_cluster0 :: cluster where
  "demo_cluster0 =
     \<lparr>c_service = (\<lambda>a. fst (get_init_messages (demo_cfg a) 0 (new_mservice (demo_mes a)))), c_sent = [], c_log = []\<rparr>"

definition demo_cluster1 :: cluster where
  "demo_cluster1 = deliver_to (NodeId ''a'') (demo_readings 1) (MNewConnection (Some (NodeId ''b'')) ''m'' 1 True) demo_cluster0"

definition demo_cluster2 :: cluster where
  "demo_cluster2 = tick_at demo_cfg (NodeId ''a'') (demo_readings 2) demo_cluster1"

definition demo_cluster3 :: cluster where
  "demo_cluster3 = deliver_to (NodeId ''b'') (demo_readings 3) (MVoteRequest (NodeId ''a'') 1 2) demo_cluster2"

definition demo_cluster4 :: cluster where
  "demo_cluster4 = deliver_to (NodeId ''a'') (demo_readings 4) (MVoteResponse (NodeId ''b'') (NodeId ''a'') 2) demo_cluster3"

section \<open>Logs\<close>

lemma log_wf_suffix: "log_wf (xs @ ys) \<Longrightarrow> log_wf ys"
  by (induction xs) (auto elim: log_wf.elims)

lemma log_wf_append_Started: "log_wf (xs @ Started a e ts # ys) \<Longrightarrow> Started a e' ts \<notin> set xs \<union> set ys"
proof (induction xs)
  case (Cons x xs)
  then show ?case by (cases x) auto
qed simp

lemma started_unique:
  assumes "log_wf log" and "Started a e ts \<in> set log" and "Started a e' ts \<in> set log"
  shows "e = e'"
proof -
  obtain xs ys where "log = xs @ Started a e ts # ys" using assms(2) by (meson split_list)
  with log_wf_append_Started [of xs a e ts ys e'] assms(1,3) show ?thesis by auto
qed

lemma voted_started: "log_wf log \<Longrightarrow> Voted a b e ts \<in> set log \<Longrightarrow> Started b e ts \<in> set log"
proof (induction log)
  case (Cons x log)
  then show ?case by (cases x) auto
qed simp

text \<open>A winner's votes for others in the same epoch came before its own election.\<close>

lemma winner_votes_before:
  assumes "log_wf log" and "Won a e ts others \<in> set log" and "Voted a b e ts' \<in> set log"
  shows "\<exists>post pre. log = post @ Started a e ts # pre \<and> Voted a b e ts' \<in> set pre"
proof -
  obtain xs ys where log: "log = xs @ Won a e ts others # ys" using assms(2) by (meson split_list)
  have ys: "log_wf (Won a e ts others # ys)" using assms(1) unfolding log by (rule log_wf_suffix)
  then obtain post pre where pre: "ys = post @ Started a e ts # pre" "\<forall>b e' t'. Voted a b e' t' \<notin> set post"
    by (auto simp: quiet_since_def)
  have "Voted a b e ts' \<notin> set xs"
  proof
    assume "Voted a b e ts' \<in> set xs"
    then obtain us vs where "xs = us @ Voted a b e ts' # vs" by (meson split_list)
    then have "log_wf (us @ (Voted a b e ts' # vs @ Won a e ts others # ys))" using assms(1) by (simp add: log)
    then have "log_wf (Voted a b e ts' # vs @ Won a e ts others # ys)" by (rule log_wf_suffix)
    then show False by auto
  qed
  then have "Voted a b e ts' \<in> set pre" using assms(3) pre by (auto simp: log)
  then show ?thesis using log pre(1) by (metis append.assoc append_Cons)
qed

lemma winners_exclude:
  assumes "log_wf log" and "Won a e ts others \<in> set log" and "Won b e ts' others' \<in> set log"
    and "b \<in> set others" and "a \<in> set others'"
  shows "a = b"
proof (rule ccontr)
  assume "a \<noteq> b"
  have votes: "Voted b a e ts \<in> set log" "Voted a b e ts' \<in> set log"
  proof -
    have "Voted y x e t \<in> set log" if "Won x e t os \<in> set log" "y \<in> set os" for x y t os
      using assms(1) that
    proof (induction log)
      case (Cons z log)
      then show ?case by (cases z) auto
    qed simp
    then show "Voted b a e ts \<in> set log" "Voted a b e ts' \<in> set log" using assms(2-5) by blast+
  qed
  obtain post pre where a: "log = post @ Started a e ts # pre" "Voted a b e ts' \<in> set pre"
    using winner_votes_before [OF assms(1,2) votes(2)] by blast
  obtain post' pre' where b: "log = post' @ Started b e ts' # pre'" "Voted b a e ts \<in> set pre'"
    using winner_votes_before [OF assms(1,3) votes(1)] by blast
  have wf: "log_wf pre" "log_wf pre'"
    using assms(1) log_wf_suffix [of "post @ [Started a e ts]" pre] log_wf_suffix [of "post' @ [Started b e ts']" pre'] a b
    by simp_all
  have "Started b e ts' \<in> set pre" "Started a e ts \<in> set pre'"
    using voted_started [OF wf(1) a(2)] voted_started [OF wf(2) b(2)] by simp_all
  moreover have "Started a e ts \<notin> set pre" "Started b e ts' \<notin> set post' \<union> set pre'"
    using log_wf_append_Started [of post a e ts pre e] log_wf_append_Started [of post' b e ts' pre' e] assms(1) a(1) b(1)
    by auto
  ultimately show False
    using a(1) b(1) by (auto simp: append_eq_append_conv2 append_eq_Cons_conv Cons_eq_append_conv)
qed

section \<open>Steps of one manager\<close>

lemma quiet_since_started: "quiet_since a e ts log \<Longrightarrow> Started a e ts \<in> set log"
  by (auto simp: quiet_since_def)

lemma quiet_since_append:
  assumes "quiet_since a e ts log" and "\<And>b e' t'. Voted a b e' t' \<notin> set evs"
  shows "quiet_since a e ts (evs @ log)"
proof -
  obtain post pre where "log = post @ Started a e ts # pre" "\<forall>b e' t'. Voted a b e' t' \<notin> set post"
    using assms(1) by (auto simp: quiet_since_def)
  with assms(2) show ?thesis unfolding quiet_since_def by (intro exI [of _ "evs @ post"] exI [of _ pre]) auto
qed

lemma election_ok_append:
  assumes "election_ok a log x" and "\<And>b e' t'. Voted a b e' t' \<notin> set evs"
  shows "election_ok a (evs @ log) x"
  using assms quiet_since_append by (cases "(a, log, x)" rule: election_ok.cases) auto

lemma sent_ok_append: "sent_ok log x \<Longrightarrow> sent_ok (evs @ log) x"
  by (cases "(log, x)" rule: sent_ok.cases) auto

text \<open>A step of one manager leaves the others as they are.\<close>

lemma node_ok_other:
  assumes "node_ok b svc log" and "\<forall>ev\<in>set evs. event_node ev \<noteq> b"
  shows "node_ok b svc (evs @ log)"
proof -
  have "list_all (election_ok b (evs @ log)) (ms_elections svc)"
    using assms election_ok_append [of b log _ evs] by (fastforce simp: node_ok_def list_all_iff)
  moreover have "Won b e ts os \<in> set (evs @ log) \<longleftrightarrow> Won b e ts os \<in> set log" for e ts os
    using assms(2) by force
  ultimately show ?thesis using assms(1) by (simp add: node_ok_def wins_past_def split: option.splits)
qed

lemma cluster_step_ok:
  assumes "cluster_ok c" and "\<forall>ev\<in>set evs. event_node ev = a" and "log_wf (evs @ c_log c)"
    and "node_ok a svc' (evs @ c_log c)" and "list_all (sent_ok (evs @ c_log c)) (map (Pair a) out)"
  shows "cluster_ok (c\<lparr>c_service := (c_service c)(a := svc'), c_sent := map (Pair a) out @ c_sent c,
    c_log := evs @ c_log c\<rparr>)"
proof -
  have "list_all (sent_ok (evs @ c_log c)) (c_sent c)"
    using assms(1) sent_ok_append by (auto simp: cluster_ok_def list_all_iff)
  moreover have "node_ok b (c_service c b) (evs @ c_log c)" if "b \<noteq> a" for b
    using assms(1,2) that node_ok_other by (auto simp: cluster_ok_def)
  ultimately show ?thesis using assms(3-5) by (simp add: cluster_ok_def)
qed

lemma wins_past_advances:
  assumes "wins_past a st els log" and "advances st st'" and "set els' \<subseteq> set els"
  shows "wins_past a st' els' log"
  using assms unfolding wins_past_def advances_def
  by (fastforce split: option.splits)

text \<open>Messages other than votes start no election and send no vote.\<close>

lemma merge_item_no_votes:
  "list_all (\<lambda>m. \<not> is_vote m) (snd s) \<Longrightarrow> list_all (\<lambda>m. \<not> is_vote m) (snd (fold merge_item items s))"
  by (induction items arbitrary: s)
    (auto simp: merge_item_def split: prod.splits option.splits node_type.splits)

lemma dispatch_no_vote:
  assumes "\<not> is_vote m" and "dispatch me rd m st els = (st', els', out)"
  shows "set els' \<subseteq> set els \<and> length els' \<le> length els \<and> list_all (\<lambda>m. \<not> is_vote m) out"
proof (cases m)
  case (MClusterState i cs)
  let ?kept = "if cs_nodes cs \<noteq> [] then hm_retain (\<lambda>i _. i = me_id me \<or> i \<in> set (map cn_id (cs_nodes cs))) (m_nodes st)
      else m_nodes st"
  have "list_all (\<lambda>m. \<not> is_vote m) (snd (fold merge_item (cs_nodes cs) (?kept, [])))" by (rule merge_item_no_votes) simp
  with assms(2) MClusterState show ?thesis
    by (auto simp: handle_cluster_state_def Let_def split: prod.splits if_splits)
next
  case (MRemovePartitionFromReplica i j p)
  with assms(2) show ?thesis
    by (auto simp: handle_remove_old_partition_def Let_def list_all_iff split: prod.splits option.splits if_splits)
qed (use assms in \<open>auto simp: handle_new_connection_def handle_heartbeat_def handle_get_cluster_state_def
    handle_leader_def list_all_iff split: prod.splits option.splits if_splits\<close>)

lemma dispatch_other_ok:
  assumes ok: "cluster_ok c" and st: "ms_state (c_service c a) = Some st" and m: "manager_msg_wf m" "\<not> is_vote m"
    and step: "dispatch (ms_me (c_service c a)) rd m st (ms_elections (c_service c a)) = (st', els', out)"
  shows "cluster_ok (c\<lparr>c_service := (c_service c)(a := (c_service c a)\<lparr>ms_state := Some st', ms_elections := els'\<rparr>),
    c_sent := map (Pair a) out @ c_sent c, c_log := dispatch_events a st m out @ c_log c\<rparr>)"
proof -
  have node: "node_ok a (c_service c a) (c_log c)" using ok by (simp add: cluster_ok_def)
  then have wf: "mstate_wf st" and wins: "wins_past a st (ms_elections (c_service c a)) (c_log c)"
    using st by (simp_all add: node_ok_def)
  note keeps = dispatch_no_vote [OF m(2) step]
  have "mstate_wf st'" "advances st st'"
    using dispatch_wf [OF wf m(1)] dispatch_advances [OF wf m(1)] step m(2)
    by (metis fst_conv is_vote.simps(2))+
  with keeps node wins have "node_ok a ((c_service c a)\<lparr>ms_state := Some st', ms_elections := els'\<rparr>) (c_log c)"
    using wins_past_advances by (auto simp: node_ok_def list_all_iff)
  moreover have "list_all (sent_ok (c_log c)) (map (Pair a) out)"
    using keeps by (auto simp: list_all_iff elim!: is_vote.elims(3))
  moreover have "dispatch_events a st m out = []" using m(2) by (cases m) auto
  moreover have "log_wf (c_log c)" using ok by (simp add: cluster_ok_def)
  ultimately show ?thesis using cluster_step_ok [OF ok, of "[]" a _ out] by simp
qed

text \<open>A vote, given or repeated, is for an epoch the voter has not won, and its candidate is a candidate.\<close>

lemma vote_delivered:
  assumes "cluster_ok c" and "delivered c a m"
  shows "m = MVoteRequest i e ts \<Longrightarrow> Started i e ts \<in> set (c_log c)"
    and "m = MVoteResponse i l ts \<Longrightarrow> \<exists>e. Voted i l e ts \<in> set (c_log c)"
proof -
  have sent: "sent_ok (c_log c) x" if "x \<in> set (c_sent c)" for x
    using assms(1) that by (simp add: cluster_ok_def list_all_iff)
  have src: "\<exists>s m'. (s, m') \<in> set (c_sent c) \<and> m = received s a m'" if "is_vote m"
    using assms(2) that by (auto simp: delivered_def list_ex_iff)
  show "Started i e ts \<in> set (c_log c)" if "m = MVoteRequest i e ts"
  proof -
    obtain s m' where m': "(s, m') \<in> set (c_sent c)" "m = received s a m'" using src \<open>m = _\<close> by auto
    with that have "m' = MVoteRequest (case m' of MVoteRequest x _ _ \<Rightarrow> x) e ts" "s = i" by (cases m'; simp)+
    with sent [OF m'(1)] show ?thesis by (metis sent_ok.simps(1))
  qed
  show "\<exists>e. Voted i l e ts \<in> set (c_log c)" if "m = MVoteResponse i l ts"
  proof -
    obtain s m' where m': "(s, m') \<in> set (c_sent c)" "m = received s a m'" using src \<open>m = _\<close> by auto
    with that have "m' = MVoteResponse (case m' of MVoteResponse x _ _ \<Rightarrow> x) l ts" "s = i" by (cases m'; simp)+
    with sent [OF m'(1)] show ?thesis by (metis sent_ok.simps(2))
  qed
qed

lemma voted_node_ok:
  assumes node: "node_ok a svc log" "ms_state svc = Some st" and wf: "log_wf log"
    and cand: "Started candidate e ts \<in> set log" and epoch: "opt_less (m_epoch st) (Some e)"
  shows "log_wf (Voted a candidate e ts # log)"
    and "node_ok a (svc\<lparr>ms_state := Some st, ms_elections := [(e, Other ts candidate)]\<rparr>) (Voted a candidate e ts # log)"
proof -
  have wins: "mstate_wf st" "wins_past a st (ms_elections svc) log" using node by (simp_all add: node_ok_def)
  have below: "e' < e" if "Won a e' t os \<in> set log" for e' t os
  proof -
    from wins(2) that obtain x where "m_epoch st = Some x" "e' \<le> x" unfolding wins_past_def by blast
    with epoch show ?thesis by simp
  qed
  then show "log_wf (Voted a candidate e ts # log)" using wf cand by auto
  show "node_ok a (svc\<lparr>ms_state := Some st, ms_elections := [(e, Other ts candidate)]\<rparr>) (Voted a candidate e ts # log)"
    using node wins below by (auto simp: node_ok_def wins_past_def)
qed

lemma dispatch_request_ok:
  assumes ok: "cluster_ok c" and st: "ms_state (c_service c a) = Some st" and del: "delivered c a (MVoteRequest i e ts)"
    and step: "handle_vote_request i e ts st (ms_elections (c_service c a)) = (els', out)"
  shows "cluster_ok (c\<lparr>c_service := (c_service c)(a := (c_service c a)\<lparr>ms_state := Some st, ms_elections := els'\<rparr>),
    c_sent := map (Pair a) out @ c_sent c, c_log := List.map_filter (vote_event a e) out @ c_log c\<rparr>)"
proof -
  let ?els = "ms_elections (c_service c a)" and ?log = "c_log c"
  have node: "node_ok a (c_service c a) ?log" and wf: "log_wf ?log" using ok by (simp_all add: cluster_ok_def)
  have single: "length ?els \<le> 1" and els: "list_all (election_ok a ?log) ?els" using node by (simp_all add: node_ok_def)
  have vote: "\<exists>candidate t. els' = [(e, Other t candidate)] \<and> out = [MVoteResponse i candidate t] \<and>
      Started candidate e t \<in> set ?log \<and> opt_less (m_epoch st) (Some e)"
    if "out \<noteq> []"
  proof (cases "hm_get ?els e")
    case None
    with step that vote_delivered(1) [OF ok del refl] show ?thesis
      by (auto simp: handle_vote_request_def Let_def split: if_splits)
  next
    case (Some x)
    then have x: "?els = [(e, x)]" using single by (cases ?els) (auto split: if_splits)
    have "Started candidate e t \<in> set ?log" if "x = Other t candidate" for t candidate
      using els voted_started [OF wf] that by (simp add: x)
    with step that x Some vote_delivered(1) [OF ok del refl] show ?thesis
      by (cases x) (auto simp: handle_vote_request_def Let_def split: if_splits)
  qed
  show ?thesis
  proof (cases "out = []")
    case True
    then have "els' = ?els" using step by (auto simp: handle_vote_request_def Let_def split: if_splits option.splits election.splits)
    moreover have "(c_service c a)\<lparr>ms_state := Some st, ms_elections := ?els\<rparr> = c_service c a" using st by simp
    ultimately show ?thesis using ok True by (simp add: map_filter_def)
  next
    case False
    then obtain candidate t where v: "els' = [(e, Other t candidate)]" "out = [MVoteResponse i candidate t]"
        "Started candidate e t \<in> set ?log" "opt_less (m_epoch st) (Some e)" using vote by blast
    note new = voted_node_ok [OF node st wf v(3,4)]
    have "List.map_filter (vote_event a e) out = [Voted a candidate e t]" by (simp add: v(2) map_filter_def)
    with cluster_step_ok [OF ok, of "[Voted a candidate e t]" a _ out] new v(1,2) show ?thesis by auto
  qed
qed

text \<open>A response counts for the election it was given for; the last one makes a winner.\<close>

lemma won_node_ok:
  assumes node: "node_ok a svc log" "ms_state svc = Some st" and els: "ms_elections svc = [(e, Mine ts as)]"
    and wf: "log_wf log" and votes: "\<forall>b\<in>set others. Voted b a e ts \<in> set log"
  shows "log_wf (replicate n (Won a e ts others) @ log)"
    and "node_ok a (svc\<lparr>ms_state := Some (st\<lparr>m_elected_leader_id := Some a, m_epoch := Some e\<rparr>), ms_elections := []\<rparr>)
      (replicate n (Won a e ts others) @ log)"
proof -
  have quiet: "quiet_since a e ts log" and wins: "mstate_wf st" "wins_past a st [(e, Mine ts as)] log"
    using node els by (simp_all add: node_ok_def)
  show "log_wf (replicate n (Won a e ts others) @ log)"
  proof (induction n)
    case (Suc n)
    have "quiet_since a e ts (replicate n (Won a e ts others) @ log)" using quiet by (rule quiet_since_append) simp
    with Suc votes show ?case by simp
  qed (simp add: wf)
  have "e' \<le> e" if "Won a e' t os \<in> set log" for e' t os
    using wins(2) that unfolding wins_past_def by fastforce
  then show "node_ok a (svc\<lparr>ms_state := Some (st\<lparr>m_elected_leader_id := Some a, m_epoch := Some e\<rparr>), ms_elections := []\<rparr>)
      (replicate n (Won a e ts others) @ log)"
    using node(1) wins(1) by (auto simp: node_ok_def wins_past_def mstate_wf_def)
qed

lemma win_events_replicate:
  "List.map_filter (win_event a st) (map (\<lambda>k. MLeader k e ts) ks) = replicate (length ks) (Won a e ts (other_managers a st))"
  by (induction ks) (simp_all add: map_filter_simps)

lemma dispatch_response_ok:
  assumes ok: "cluster_ok c" and st: "ms_state (c_service c a) = Some st" and del: "delivered c a (MVoteResponse i l ts)"
    and step: "handle_vote_response (ms_me (c_service c a)) i l ts st (ms_elections (c_service c a)) = (st', els', out)"
  shows "cluster_ok (c\<lparr>c_service := (c_service c)(a := (c_service c a)\<lparr>ms_state := Some st', ms_elections := els'\<rparr>),
    c_sent := map (Pair a) out @ c_sent c, c_log := List.map_filter (win_event a st) out @ c_log c\<rparr>)"
proof -
  let ?svc = "c_service c a" and ?log = "c_log c"
  have node: "node_ok a ?svc ?log" and wf: "log_wf ?log" using ok by (simp_all add: cluster_ok_def)
  have me: "me_id (ms_me ?svc) = a" and single: "length (ms_elections ?svc) \<le> 1" using node by (simp_all add: node_ok_def)
  show ?thesis
  proof (cases "\<exists>e as. ms_elections ?svc = [(e, Mine ts as)] \<and> l = a")
    case True
    then obtain e as where els: "ms_elections ?svc = [(e, Mine ts as)]" and l: "l = a" by blast
    have mine: "quiet_since a e ts ?log" "\<forall>b\<in>set as. Voted b a e ts \<in> set ?log" using node by (simp_all add: node_ok_def els)
    obtain e' where "Voted i a e' ts \<in> set ?log" using vote_delivered(2) [OF ok del] l by blast
    moreover from this have "e' = e"
      using started_unique [OF wf voted_started [OF wf] quiet_since_started [OF mine(1)]] by blast
    ultimately have approved: "\<forall>b\<in>set (hs_insert i as). Voted b a e ts \<in> set ?log" using mine(2) by auto
    note resp = handle_vote_response_mine [of "ms_me ?svc" i ts st e as, unfolded me]
    show ?thesis
    proof (cases "length (hs_insert i as) = length (other_managers a st) \<and>
        list_all (\<lambda>j. j \<in> set (hs_insert i as)) (other_managers a st)")
      case True
      let ?ks = "filter (\<lambda>k. k \<noteq> a) (hm_keys (m_nodes st))"
      from True step resp have r: "st' = st\<lparr>m_elected_leader_id := Some a, m_epoch := Some e\<rparr>" "els' = []"
          "out = map (\<lambda>k. MLeader k e ts) ?ks"
        by (simp_all add: els l)
      have "\<forall>b\<in>set (other_managers a st). Voted b a e ts \<in> set ?log" using True approved by (auto simp: list_all_iff)
      note new = won_node_ok [OF node st els wf this, of "length ?ks"]
      show ?thesis
        using cluster_step_ok [OF ok, of "replicate (length ?ks) (Won a e ts (other_managers a st))" a _ out] new
        by (simp add: r win_events_replicate list_all_iff)
    next
      case False
      with step resp have r: "st' = st" "els' = [(e, Mine ts (hs_insert i as))]" "out = []" by (auto simp: els l)
      have "node_ok a (?svc\<lparr>ms_state := Some st, ms_elections := els'\<rparr>) ?log"
        using node st mine approved by (auto simp: node_ok_def els r wins_past_def)
      with cluster_step_ok [OF ok, of "[]" a _ "[]"] wf show ?thesis by (simp add: r map_filter_def)
    qed
  next
    case False
    have same: "st' = st" "els' = ms_elections ?svc" "list_all (\<lambda>m. \<not> is_vote m) out" "List.map_filter (win_event a st) out = []"
      using step False single me
      by (auto simp: handle_vote_response_def last_election_single Let_def map_filter_def list_all_iff
          split: option.splits election.splits if_splits)
    have "list_all (sent_ok ?log) (map (Pair a) out)" using same(3) by (auto simp: list_all_iff elim!: is_vote.elims(3))
    moreover have "?svc\<lparr>ms_state := Some st, ms_elections := ms_elections ?svc\<rparr> = ?svc" using st by simp
    ultimately show ?thesis using cluster_step_ok [OF ok, of "[]" a ?svc out] wf node by (simp add: same)
  qed
qed

text \<open>A tick starts at most one election, for an epoch beyond the current one.\<close>

lemma heartbeats_no_votes: "list_all (\<lambda>m. \<not> is_vote m) (snd (heartbeats me now rnd st))"
  by (auto simp: heartbeats_def Let_def list_all_iff split: option.split)

lemma worker_partitions_no_votes: "worker_partitions me rf st = Some (st', out) \<Longrightarrow> list_all (\<lambda>m. \<not> is_vote m) out"
  by (auto simp: worker_partitions_def Let_def list_all_iff split: option.splits if_splits prod.splits)

lemma start_election_cases:
  assumes "start_election_if_needed me now rnd st els = (els', out)" and "m_epoch st \<noteq> Some (- 1)"
  shows "(els' = els \<and> out = []) \<or>
    (\<exists>epoch e. m_epoch st = Some epoch \<and> epoch < e \<and> els' = [(e, Mine now [])] \<and>
       (\<forall>m\<in>set out. \<exists>i. m = MVoteRequest i e now))"
proof (cases "out = [] \<and> els' = els")
  case False
  then obtain epoch where ep: "m_epoch st = Some epoch"
    using assms(1) by (auto simp: start_election_if_needed_def split: option.splits)
  have "unat epoch \<noteq> unat (- 1 :: u64)" using assms(2) ep by (metis word_unat_eq_iff)
  then have "unat epoch + 1 < 2 ^ 64"
    using unsigned_less [of epoch, where 'a = nat] by (simp add: unsigned_minus_1_eq_mask mask_eq_exp_minus_1)
  then have "epoch < epoch + 1" by (rule less_succ_u64)
  then have "epoch < max x (epoch + 1)" for x by (simp add: less_max_iff_disj)
  with assms(1) ep False \<open>epoch < epoch + 1\<close> show ?thesis
    by (auto simp: start_election_if_needed_def Let_def split: option.splits if_splits)
qed simp

lemma tick_elections:
  assumes "ms_state svc = Some st" and "mstate_wf st" and "config_replication_factor config \<noteq> None"
    and "tick config rd svc = Some (svc', out)" and "m_epoch st \<noteq> Some (- 1)"
  obtains st' els' o1 o2 o3 where "svc' = svc\<lparr>ms_state := Some st', ms_elections := els'\<rparr>" "mstate_wf st'"
    "m_epoch st' = m_epoch st" "out = o1 @ o2 @ o3" "list_all (\<lambda>m. \<not> is_vote m) o1" "list_all (\<lambda>m. \<not> is_vote m) o3"
    "(els' = ms_elections svc \<and> o2 = []) \<or>
     (\<exists>epoch e. m_epoch st = Some epoch \<and> epoch < e \<and> els' = [(e, Mine (el_now rd) [])] \<and>
       (\<forall>m\<in>set o2. \<exists>i. m = MVoteRequest i e (el_now rd)))"
proof -
  obtain rf where rf: "config_replication_factor config = Some rf" using assms(3) by blast
  obtain st1 o1 where h: "heartbeats (ms_me svc) (hb_now rd) (hb_rnd rd) st = (st1, o1)" by fastforce
  have ep: "m_epoch st1 = m_epoch st" using h by (auto simp: heartbeats_def Let_def split: option.splits if_splits)
  have "mstate_wf st1" using heartbeats_keeps(1) [OF assms(2)] h by (metis fst_conv)
  then obtain st2 o3 where w: "worker_partitions (ms_me svc) rf st1 = Some (st2, o3)" "mstate_wf st2" "m_epoch st2 = m_epoch st1"
    by (rule worker_partitions_keeps)
  obtain els o2 where e: "start_election_if_needed (ms_me svc) (el_now rd) (el_rnd rd) st1 (ms_elections svc) = (els, o2)"
    by fastforce
  have t: "svc' = svc\<lparr>ms_state := Some st2, ms_elections := els\<rparr>" "out = o1 @ o2 @ o3"
    using assms(1,4) by (simp_all add: tick_def rf h e w(1))
  have "m_epoch st2 = m_epoch st" using w(3) ep by simp
  moreover have "list_all (\<lambda>m. \<not> is_vote m) o1" using heartbeats_no_votes h by (metis snd_conv)
  ultimately show thesis
    using that [OF t(1) w(2) _ t(2) _ worker_partitions_no_votes [OF w(1)]] start_election_cases [OF e] assms(5) ep by simp
qed

lemma no_votes_sent_ok: "list_all (\<lambda>m. \<not> is_vote m) out \<Longrightarrow> list_all (sent_ok log) (map (Pair a) out)"
  by (auto simp: list_all_iff elim!: is_vote.elims(3))

lemma started_node_ok:
  assumes node: "node_ok a svc log" "ms_state svc = Some st" and st': "mstate_wf st'" "m_epoch st' = m_epoch st"
    and e: "m_epoch st = Some epoch" "epoch < e"
  shows "node_ok a (svc\<lparr>ms_state := Some st', ms_elections := [(e, Mine now [])]\<rparr>) (Started a e now # log)"
proof -
  have "wins_past a st (ms_elections svc) log" using node by (simp add: node_ok_def)
  then have "e' \<le> epoch" if "Won a e' t os \<in> set log" for e' t os
    using that e(1) unfolding wins_past_def by fastforce
  then have "wins_past a st' [(e, Mine now [])] (Started a e now # log)"
    using st'(2) e by (fastforce simp: wins_past_def)
  moreover have "quiet_since a e now (Started a e now # log)" unfolding quiet_since_def
    by (intro exI [of _ "[]"] exI [of _ log]) simp
  ultimately show ?thesis using node(1) st'(1) by (simp add: node_ok_def)
qed

lemma cluster_tick_ok:
  assumes ok: "cluster_ok c" and cfg: "config_replication_factor config \<noteq> None"
    and step: "tick config rd (c_service c a) = Some (svc', out)"
    and fresh: "list_all (\<lambda>ev. case ev of Started b _ ts \<Rightarrow> b = a \<longrightarrow> ts \<noteq> el_now rd | _ \<Rightarrow> True) (c_log c)"
    and st: "ms_state (c_service c a) = Some st" "m_epoch st \<noteq> Some (- 1)"
  shows "cluster_ok (c\<lparr>c_service := (c_service c)(a := svc'), c_sent := map (Pair a) out @ c_sent c,
    c_log := tick_events a (ms_elections (c_service c a)) (ms_elections svc') @ c_log c\<rparr>)"
proof -
  let ?svc = "c_service c a" and ?log = "c_log c"
  have node: "node_ok a ?svc ?log" and wf: "log_wf ?log" using ok by (simp_all add: cluster_ok_def)
  have mwf: "mstate_wf st" and wins: "wins_past a st (ms_elections ?svc) ?log" using node st by (simp_all add: node_ok_def)
  have new: "Started a e (el_now rd) \<notin> set ?log" for e using fresh by (auto simp: list_all_iff)
  show ?thesis
  proof (rule tick_elections [OF st(1) mwf cfg step st(2)])
    fix st' els' o1 o2 o3
    assume t: "svc' = ?svc\<lparr>ms_state := Some st', ms_elections := els'\<rparr>" "mstate_wf st'" "m_epoch st' = m_epoch st"
      "out = o1 @ o2 @ o3" "list_all (\<lambda>m. \<not> is_vote m) o1" "list_all (\<lambda>m. \<not> is_vote m) o3"
    and cases: "(els' = ms_elections ?svc \<and> o2 = []) \<or>
     (\<exists>epoch e. m_epoch st = Some epoch \<and> epoch < e \<and> els' = [(e, Mine (el_now rd) [])] \<and>
       (\<forall>m\<in>set o2. \<exists>i. m = MVoteRequest i e (el_now rd)))"
  from cases show ?thesis
  proof
    assume same: "els' = ms_elections ?svc \<and> o2 = []"
    have "node_ok a svc' ?log" using node t(1-3) same wins by (simp add: node_ok_def wins_past_def)
    with cluster_step_ok [OF ok, of "[]" a svc' out] wf no_votes_sent_ok t(1,4-6) same show ?thesis
      by (simp add: tick_events_def)
  next
    assume "\<exists>epoch e. m_epoch st = Some epoch \<and> epoch < e \<and> els' = [(e, Mine (el_now rd) [])] \<and>
       (\<forall>m\<in>set o2. \<exists>i. m = MVoteRequest i e (el_now rd))"
    then obtain epoch e where e: "m_epoch st = Some epoch" "epoch < e" "els' = [(e, Mine (el_now rd) [])]"
        "\<forall>m\<in>set o2. \<exists>i. m = MVoteRequest i e (el_now rd)" by blast
    have "els' \<noteq> ms_elections ?svc"
    proof
      assume "els' = ms_elections ?svc"
      with e(3) have "ms_elections ?svc = [(e, Mine (el_now rd) [])]" by simp
      with node have "quiet_since a e (el_now rd) ?log" by (simp add: node_ok_def)
      with new quiet_since_started show False by blast
    qed
    then have evs: "tick_events a (ms_elections ?svc) (ms_elections svc') = [Started a e (el_now rd)]"
      by (simp add: tick_events_def t(1) e(3) map_filter_def)
    have "list_all (sent_ok ([Started a e (el_now rd)] @ ?log)) (map (Pair a) o2)" using e(4) by (auto simp: list_all_iff)
    then have "list_all (sent_ok ([Started a e (el_now rd)] @ ?log)) (map (Pair a) out)"
      using no_votes_sent_ok t(4-6) by simp
    moreover have "node_ok a svc' ([Started a e (el_now rd)] @ ?log)"
      using started_node_ok [OF node st(1) t(2,3) e(1,2)] by (simp add: t(1) e(3))
    moreover have "log_wf ([Started a e (el_now rd)] @ ?log)" using wf new by simp
    ultimately show ?thesis using cluster_step_ok [OF ok, of "[Started a e (el_now rd)]" a svc' out] by (simp add: evs)
  qed
  qed
qed

section \<open>At most one leader\<close>

lemma cluster_invariant:
  "cluster_reachable cfg mes c \<Longrightarrow> cluster_ok c \<and> (\<forall>a. config_replication_factor (cfg a) \<noteq> None)"
proof (induction rule: cluster_reachable.induct)
  case (cluster_start now)
  then show ?case
    by (auto simp: cluster_ok_def node_ok_def get_init_messages_def new_mservice_def new_mstate_def mstate_wf_def
        wins_past_def Let_def split: option.split)
next
  case (cluster_deliver c a st m rd st' els' out)
  then have ok: "cluster_ok c" by blast
  show ?case
  proof (cases "is_vote m")
    case False
    with dispatch_other_ok [OF ok cluster_deliver(2,3) _ cluster_deliver(5)] cluster_deliver(6) show ?thesis by blast
  next
    case True
    then show ?thesis
    proof (cases m)
      case (MVoteRequest i e ts)
      with dispatch_request_ok [OF ok cluster_deliver(2), of i e ts els' out] cluster_deliver(4-6) show ?thesis
        by (auto split: prod.splits)
    next
      case (MVoteResponse i l ts)
      with dispatch_response_ok [OF ok cluster_deliver(2), of i l ts st' els' out] cluster_deliver(4-6) show ?thesis by auto
    qed simp_all
  qed
next
  case (cluster_tick c a rd svc' out st)
  with cluster_tick_ok [of c "cfg a" rd a svc' out st] show ?case by blast
qed

lemma deliver_to_reachable:
  "cluster_reachable cfg mes c \<Longrightarrow> manager_msg_wf m \<Longrightarrow> delivered c a m \<Longrightarrow> cluster_reachable cfg mes (deliver_to a rd m c)"
  by (auto simp: deliver_to_def intro: cluster_deliver split: option.split prod.split)

lemma tick_at_reachable:
  "cluster_reachable cfg mes c \<Longrightarrow>
   list_all (\<lambda>ev. case ev of Started b _ ts \<Rightarrow> b = a \<longrightarrow> ts \<noteq> el_now rd | _ \<Rightarrow> True) (c_log c) \<Longrightarrow>
   ms_state (c_service c a) = Some st \<Longrightarrow> m_epoch st \<noteq> Some (- 1) \<Longrightarrow> cluster_reachable cfg mes (tick_at cfg a rd c)"
  unfolding tick_at_def by (auto intro: cluster_tick split: option.split prod.split)

lemma demo_cluster_reachable: "cluster_reachable demo_cfg demo_mes demo_cluster4"
proof -
  have "cluster_reachable demo_cfg demo_mes demo_cluster0"
    unfolding demo_cluster0_def by (rule cluster_start) (simp_all add: demo_mes_def demo_cfg_def)
  then have c1: "cluster_reachable demo_cfg demo_mes demo_cluster1"
    unfolding demo_cluster1_def by (rule deliver_to_reachable) (simp_all add: delivered_def)
  have "map_option (\<lambda>st. m_epoch st) (ms_state (c_service demo_cluster1 (NodeId ''a''))) = Some (Some 0)" by code_simp
  then obtain st where "ms_state (c_service demo_cluster1 (NodeId ''a'')) = Some st" "m_epoch st = Some 0" by auto
  moreover have "c_log demo_cluster1 = []" by code_simp
  ultimately have "cluster_reachable demo_cfg demo_mes demo_cluster2"
    unfolding demo_cluster2_def using tick_at_reachable [OF c1] by simp
  then have "cluster_reachable demo_cfg demo_mes demo_cluster3"
    unfolding demo_cluster3_def by (rule deliver_to_reachable) code_simp+
  then show ?thesis
    unfolding demo_cluster4_def by (rule deliver_to_reachable) code_simp+
qed

text \<open>
  C2: at most one of two managers that know each other wins the election of an epoch. When \<open>a\<close> has
  won an epoch with \<open>b\<close> among the managers it counted, \<open>b\<close> never wins that epoch with \<open>a\<close> among the
  managers it counts, whatever messages are lost, repeated, delayed or reordered.
\<close>

theorem one_leader_per_epoch:
  assumes "cluster_reachable cfg mes c" and "Won a epoch ts others \<in> set (c_log c)" and "b \<in> set others" and "a \<noteq> b"
  shows "\<not> (\<exists>ts' others'. Won b epoch ts' others' \<in> set (c_log c) \<and> a \<in> set others')"
  using cluster_invariant [OF assms(1)] winners_exclude [OF _ assms(2) _ assms(3)] assms(4)
  unfolding cluster_ok_def by blast

theorem one_leader_per_epoch_witness:
  "Won (NodeId ''a'') 1 2 [NodeId ''b''] \<in> set (c_log demo_cluster4) \<and>
   \<not> (\<exists>ts' others'. Won (NodeId ''b'') 1 ts' others' \<in> set (c_log demo_cluster4) \<and> NodeId ''a'' \<in> set others')"
proof -
  have won: "Won (NodeId ''a'') 1 2 [NodeId ''b''] \<in> set (c_log demo_cluster4)" by code_simp
  with one_leader_per_epoch [OF demo_cluster_reachable won] show ?thesis by simp
qed

end
