(* ===== verification/Runtime_Store.thy ===== *)
theory Runtime_Store
  imports Cluster_Common
begin

text \<open>
  The in-memory store of a worker (\<open>worker/runtime_store.rs\<close>): records and tombstones per
  partition, a journal of changed keys by revision, and the counter of writers in flight.

  A write takes the exclusive shard guard of its partition (\<open>DashMap::entry\<close>) for its whole
  body, so \<open>put\<close> and \<open>delete_at\<close> are single steps of the model. Inside the step the order of
  the source is kept: the writer is counted, the record is written, and the guard's \<open>Drop\<close>
  takes a revision, appends the key to the journal and releases the writer. The four atomic
  reads of \<open>stable_revision\<close> are arguments of \<open>stable_revision_reads\<close>, so a concurrent writer
  can change them in between. \<open>Arc\<close> is dropped, \<open>now_millis()\<close> is the argument \<open>now\<close>.

  The abstract store \<open>store_lookup\<close> is the map from keys to their newest mutation; every
  operation is shown to refine its map-level meaning and to keep \<open>store_wf\<close>.
\<close>

section \<open>Data\<close>

record stored_record =
  sr_expiration_time_ms :: u64
  sr_creation_time_ms :: u64
  sr_value :: "u8 list"

datatype mutation = Put stored_record | Delete u64

fun version :: "mutation \<Rightarrow> u64" where
  "version (Put r) = sr_creation_time_ms r"
| "version (Delete deletion_time_ms) = deletion_time_ms"

record partition_store =
  records :: "(key \<times> mutation) list"
  changes :: "(u64 \<times> key) list"
  active_writers :: nat
  revision :: u64

definition default_partition_store :: partition_store where
  "default_partition_store = \<lparr>records = [], changes = [], active_writers = 0, revision = 0\<rparr>"

record runtime_store =
  cache :: "(partition_id, partition_store) hash_map"
  next_revision :: u64

definition new_runtime_store :: runtime_store where
  "new_runtime_store = \<lparr>cache = [], next_revision = 0\<rparr>"

definition key_partition :: "key \<Rightarrow> partition_id" where
  "key_partition k = PartitionId (word_of_nat (unat (key_value k) mod PARTITIONS_AMOUNT))"

section \<open>Operations\<close>

definition writer :: "partition_store \<Rightarrow> partition_store" where
  "writer ps = ps\<lparr>active_writers := active_writers ps + 1\<rparr>"

text \<open>\<open>Drop for WriterGuard\<close>; the global revision counter is threaded through.\<close>

definition writer_drop :: "key option \<Rightarrow> u64 \<times> partition_store \<Rightarrow> u64 \<times> partition_store" where
  "writer_drop changed_key = (\<lambda>(nr, ps).
     let rev = nr + 1;
         ps1 = (case changed_key of
                  Some k \<Rightarrow> ps\<lparr>changes := sm_insert rev k (changes ps)\<rparr>
                | None \<Rightarrow> ps)
     in (nr + 1, ps1\<lparr>revision := rev, active_writers := active_writers ps1 - 1\<rparr>))"

definition stable_revision_reads :: "u64 \<Rightarrow> nat \<Rightarrow> u64 \<Rightarrow> nat \<Rightarrow> u64 option" where
  "stable_revision_reads revision_before writers revision_after writers_after =
     (if writers \<noteq> 0 then None
      else if revision_before = revision_after \<and> writers_after = 0 then Some revision_after
      else None)"

definition stable_revision :: "partition_store \<Rightarrow> u64 option" where
  "stable_revision ps =
     stable_revision_reads (revision ps) (active_writers ps) (revision ps) (active_writers ps)"

definition get_partition_mutations ::
  "runtime_store \<Rightarrow> partition_id \<Rightarrow> nat \<Rightarrow> key option \<Rightarrow> (key \<times> mutation) list" where
  "get_partition_mutations s p amount after_key =
     (case hm_get (cache s) p of
        None \<Rightarrow> []
      | Some ps \<Rightarrow> take amount (after_cursor after_key (records ps)))"

definition stable_partition_revision :: "runtime_store \<Rightarrow> partition_id \<Rightarrow> u64 option" where
  "stable_partition_revision s p =
     (case hm_get (cache s) p of Some ps \<Rightarrow> stable_revision ps | None \<Rightarrow> Some 0)"

definition get_partition_changes ::
  "runtime_store \<Rightarrow> partition_id \<Rightarrow> u64 \<Rightarrow> nat \<Rightarrow> (u64 \<times> (key \<times> mutation) list) option" where
  "get_partition_changes s p after_revision amount =
     (case hm_get (cache s) p of
        None \<Rightarrow> None
      | Some ps \<Rightarrow>
          (let ch = take amount (after_cursor (Some after_revision) (changes ps))
           in if ch = [] then None
              else Some (fst (last ch),
                     List.map_filter (\<lambda>(_, k). map_option (\<lambda>m. (k, m)) (hm_get (records ps) k)) ch)))"

fun prune_changes :: "u64 \<Rightarrow> (u64 \<times> key) list \<Rightarrow> (u64 \<times> key) list" where
  "prune_changes through [] = []"
| "prune_changes through (e # cs) = (if through < fst e then e # cs else prune_changes through cs)"

definition prune_partition_changes :: "runtime_store \<Rightarrow> partition_id \<Rightarrow> u64 \<Rightarrow> runtime_store" where
  "prune_partition_changes s p through_revision =
     s\<lparr>cache := hm_update p (\<lambda>ps. ps\<lparr>changes := prune_changes through_revision (changes ps)\<rparr>) (cache s)\<rparr>"

definition remove_partition_if_empty :: "runtime_store \<Rightarrow> partition_id \<Rightarrow> runtime_store" where
  "remove_partition_if_empty s p =
     (case hm_get (cache s) p of
        Some ps \<Rightarrow> if records ps = [] then s\<lparr>cache := hm_remove p (cache s)\<rparr> else s
      | None \<Rightarrow> s)"

definition remove_partition :: "runtime_store \<Rightarrow> partition_id \<Rightarrow> runtime_store" where
  "remove_partition s p = s\<lparr>cache := hm_remove p (cache s)\<rparr>"

text \<open>The body \<open>put\<close> and \<open>delete_at\<close> share: enter the partition, write under a writer guard, drop it.\<close>

definition mutate :: "runtime_store \<Rightarrow> key \<Rightarrow> mutation \<Rightarrow> runtime_store" where
  "mutate s k m =
     (let p = key_partition k;
          ps = writer (hm_or_default default_partition_store p (cache s));
          ps1 = ps\<lparr>records := sm_compare_insert k m (\<lambda>old. version old \<le> version m) (records ps)\<rparr>;
          (nr, ps2) = writer_drop (Some k) (next_revision s, ps1)
      in s\<lparr>cache := hm_insert p ps2 (cache s), next_revision := nr\<rparr>)"

definition delete_at :: "runtime_store \<Rightarrow> key \<Rightarrow> u64 \<Rightarrow> runtime_store" where
  "delete_at s k deletion_time_ms = mutate s k (Delete deletion_time_ms)"

definition put :: "runtime_store \<Rightarrow> key \<Rightarrow> stored_record \<Rightarrow> runtime_store" where
  "put s k r = mutate s k (Put r)"

definition get_versioned :: "runtime_store \<Rightarrow> u64 \<Rightarrow> key \<Rightarrow> runtime_store \<times> mutation option" where
  "get_versioned s now k =
     (let p = key_partition k in
      case hm_get (cache s) p of
        None \<Rightarrow> (s, None)
      | Some ps \<Rightarrow>
          (case hm_get (records ps) k of
             None \<Rightarrow> (s, None)
           | Some (Delete t) \<Rightarrow> (s, Some (Delete t))
           | Some (Put r) \<Rightarrow>
               if sr_expiration_time_ms r = 0 \<or> now < sr_expiration_time_ms r
               then (s, Some (Put r))
               else
                 (let ps1 = writer ps;
                      (nr, ps2) = writer_drop None
                        (next_revision s, ps1\<lparr>records := hm_remove k (records ps1)\<rparr>);
                      s1 = s\<lparr>cache := hm_insert p ps2 (cache s), next_revision := nr\<rparr>
                  in (remove_partition_if_empty s1 p, None))))"

fun expired :: "u64 \<Rightarrow> mutation \<Rightarrow> bool" where
  "expired now (Put r) \<longleftrightarrow> sr_expiration_time_ms r \<noteq> 0 \<and> sr_expiration_time_ms r \<le> now"
| "expired now (Delete _) \<longleftrightarrow> False"

text \<open>The scan of one partition: its entries in order, each expired one removed under a guard.\<close>

fun expire_records ::
  "u64 \<Rightarrow> (key \<times> mutation) list \<Rightarrow> u64 \<times> partition_store \<times> nat \<Rightarrow> u64 \<times> partition_store \<times> nat" where
  "expire_records now [] st = st"
| "expire_records now (e # es) (nr, ps, removed) =
     (if expired now (snd e)
      then let ps1 = writer ps;
               (nr2, ps2) = writer_drop None (nr, ps1\<lparr>records := hm_remove (fst e) (records ps1)\<rparr>)
           in expire_records now es (nr2, ps2, removed + 1)
      else expire_records now es (nr, ps, removed))"

definition expire_partition ::
  "u64 \<Rightarrow> partition_id \<Rightarrow> runtime_store \<times> nat \<Rightarrow> runtime_store \<times> nat" where
  "expire_partition now p = (\<lambda>(s, removed).
     let (s1, removed1) =
           (case hm_get (cache s) p of
              None \<Rightarrow> (s, removed)
            | Some ps \<Rightarrow>
                (let (nr, ps1, n) = expire_records now (records ps) (next_revision s, ps, removed)
                 in (s\<lparr>cache := hm_insert p ps1 (cache s), next_revision := nr\<rparr>, n)))
     in (remove_partition_if_empty s1 p, removed1))"

definition remove_expired :: "runtime_store \<Rightarrow> u64 \<Rightarrow> runtime_store \<times> nat" where
  "remove_expired s now = fold (expire_partition now) (hm_keys (cache s)) (s, 0)"

section \<open>Abstraction and invariants\<close>

definition store_lookup :: "runtime_store \<Rightarrow> key \<Rightarrow> mutation option" where
  "store_lookup s k =
     (case hm_get (cache s) (key_partition k) of
        None \<Rightarrow> None
      | Some ps \<Rightarrow> hm_get (records ps) k)"

definition part_wf :: "partition_id \<Rightarrow> partition_store \<Rightarrow> bool" where
  "part_wf p ps \<longleftrightarrow> sm_wf (records ps) \<and> sm_wf (changes ps) \<and>
     list_all (\<lambda>e. key_partition (fst e) = p) (records ps) \<and>
     list_all (\<lambda>e. key_partition (snd e) = p) (changes ps)"

definition store_wf :: "runtime_store \<Rightarrow> bool" where
  "store_wf s \<longleftrightarrow> hm_wf (cache s) \<and> list_all (\<lambda>(p, ps). part_wf p ps) (cache s)"

text \<open>Every journal entry and every partition revision was handed out by the global counter.\<close>

definition journal_wf :: "runtime_store \<Rightarrow> bool" where
  "journal_wf s \<longleftrightarrow>
     list_all (\<lambda>(p, ps). revision ps \<le> next_revision s \<and>
       list_all (\<lambda>e. fst e \<le> revision ps) (changes ps)) (cache s)"

definition quiescent :: "runtime_store \<Rightarrow> bool" where
  "quiescent s \<longleftrightarrow> list_all (\<lambda>(p, ps). active_writers ps = 0) (cache s)"

text \<open>One client write, as the operation its kind selects.\<close>

definition apply_mutation :: "key \<times> mutation \<Rightarrow> runtime_store \<Rightarrow> runtime_store" where
  "apply_mutation u s =
     (case snd u of Put r \<Rightarrow> put s (fst u) r | Delete t \<Rightarrow> delete_at s (fst u) t)"

text \<open>What an expiration scan leaves under a key, and how many records of a partition it takes.\<close>

definition purge :: "u64 \<Rightarrow> mutation option \<Rightarrow> mutation option" where
  "purge now m = (case m of Some v \<Rightarrow> if expired now v then None else Some v | None \<Rightarrow> None)"

definition expired_count :: "u64 \<Rightarrow> partition_store option \<Rightarrow> nat" where
  "expired_count now ps =
     (case ps of None \<Rightarrow> 0 | Some q \<Rightarrow> length (filter (\<lambda>e. expired now (snd e)) (records q)))"

text \<open>
  The snapshot a sender reads page by page, each page starting after the last key of the
  previous one, until a page is empty.
\<close>

fun read_pages ::
  "nat \<Rightarrow> runtime_store \<Rightarrow> partition_id \<Rightarrow> nat \<Rightarrow> key option \<Rightarrow> (key \<times> mutation) list option" where
  "read_pages 0 s p amount c = None"
| "read_pages (Suc fuel) s p amount c =
     (let page = get_partition_mutations s p amount c
      in if page = [] then Some []
         else map_option ((@) page) (read_pages fuel s p amount (Some (fst (last page)))))"

section \<open>Lemmas\<close>

lemma word_mod_4096: "(k::u64) mod 4096 = word_of_nat (unat k mod 4096)"
  by (rule word_unat_eq_iff [THEN iffD2]) (simp add: unat_mod_distrib unsigned_of_nat take_bit_nat_eq_self)

text \<open>The same on words, for evaluation.\<close>

lemma key_partition_word [code]: "key_partition k = PartitionId (ucast (key_value k mod 4096))"
  by (simp add: key_partition_def PARTITIONS_AMOUNT_def word_mod_4096 unsigned_of_nat take_bit_nat_eq_self)

lemma apply_mutation_mutate: "apply_mutation u s = mutate s (fst u) (snd u)"
  by (simp add: apply_mutation_def put_def delete_at_def split: mutation.split)

lemma writer_simps [simp]:
  "records (writer ps) = records ps" "changes (writer ps) = changes ps"
  "active_writers (writer ps) = active_writers ps + 1" "revision (writer ps) = revision ps"
  by (simp_all add: writer_def)

lemma writer_drop_eq [simp]:
  "writer_drop None (nr, ps) =
     (nr + 1, ps\<lparr>revision := nr + 1, active_writers := active_writers ps - 1\<rparr>)"
  "writer_drop (Some k) (nr, ps) =
     (nr + 1, ps\<lparr>changes := sm_insert (nr + 1) k (changes ps), revision := nr + 1,
                active_writers := active_writers ps - 1\<rparr>)"
  by (simp_all add: writer_drop_def Let_def)

lemma stable_revision_eq: "stable_revision ps = (if active_writers ps = 0 then Some (revision ps) else None)"
  by (simp add: stable_revision_def stable_revision_reads_def)

lemma default_partition_store_simps [simp]:
  "records default_partition_store = []" "changes default_partition_store = []"
  "active_writers default_partition_store = 0" "revision default_partition_store = 0"
  by (simp_all add: default_partition_store_def)

lemma part_wf_default [simp]: "part_wf p default_partition_store"
  by (simp add: part_wf_def)

lemma store_wf_get: "store_wf s \<Longrightarrow> hm_get (cache s) p = Some ps \<Longrightarrow> part_wf p ps"
  by (auto simp: store_wf_def hm_all_iff)

lemma store_wf_or_default: "store_wf s \<Longrightarrow> part_wf p (hm_or_default default_partition_store p (cache s))"
  by (auto simp: hm_or_default_def store_wf_get split: option.split)

lemma store_wf_insert:
  "store_wf s \<Longrightarrow> part_wf p ps \<Longrightarrow> store_wf (s\<lparr>cache := hm_insert p ps (cache s), next_revision := n\<rparr>)"
  by (auto simp: store_wf_def hm_all_iff)

lemma store_wf_remove: "store_wf s \<Longrightarrow> store_wf (s\<lparr>cache := hm_remove p (cache s)\<rparr>)"
  by (auto simp: store_wf_def hm_all_iff)

lemma store_wf_update:
  "store_wf s \<Longrightarrow> (\<And>ps. part_wf p ps \<Longrightarrow> part_wf p (f ps)) \<Longrightarrow>
   store_wf (s\<lparr>cache := hm_update p f (cache s)\<rparr>)"
  by (auto simp: store_wf_def hm_all_iff split: if_splits)

lemma part_wf_keys:
  "part_wf p ps \<Longrightarrow> hm_get (records ps) k = Some m \<Longrightarrow> key_partition k = p"
  by (auto simp: part_wf_def list_all_iff dest!: map_of_SomeD)

lemma prune_changes_filter: "sm_wf cs \<Longrightarrow> prune_changes r cs = filter (\<lambda>e. r < fst e) cs"
proof (induction cs)
  case (Cons e cs)
  show ?case
  proof (cases "r < fst e")
    case True
    with Cons.prems have "\<forall>x\<in>set cs. r < fst x" by force
    with True show ?thesis by simp
  qed (use Cons in simp)
qed simp

lemma mutate_eq:
  "mutate s k m =
     (let p = key_partition k; ps = hm_or_default default_partition_store p (cache s);
          n = next_revision s + 1
      in s\<lparr>cache := hm_insert p
             (ps\<lparr>records := sm_compare_insert k m (\<lambda>old. version old \<le> version m) (records ps),
                changes := sm_insert n k (changes ps), revision := n\<rparr>) (cache s),
           next_revision := n\<rparr>)"
  by (simp add: mutate_def Let_def writer_def)

lemma part_wf_mutated:
  assumes "part_wf p ps" and "key_partition k = p"
  shows "part_wf p (ps\<lparr>records := sm_compare_insert k m a (records ps),
           changes := sm_insert n k (changes ps), revision := n'\<rparr>)"
  using assms
  by (simp add: part_wf_def sm_compare_insert_def list_all_sm_insert split: option.split)

lemma store_wf_new [simp]: "store_wf new_runtime_store"
  by (simp add: store_wf_def new_runtime_store_def)

lemma store_lookup_new [simp]: "store_lookup new_runtime_store k = None"
  by (simp add: store_lookup_def new_runtime_store_def)

lemma store_wf_mutate: "store_wf s \<Longrightarrow> store_wf (mutate s k m)"
  by (simp add: mutate_eq Let_def store_wf_insert part_wf_mutated store_wf_or_default)

lemma store_lookup_mutate:
  assumes "store_wf s"
  shows "store_lookup (mutate s k m) = (store_lookup s)(k \<mapsto> newer version (store_lookup s k) m)"
proof -
  let ?ps = "hm_or_default default_partition_store (key_partition k) (cache s)"
  have wf: "sm_wf (records ?ps)"
    using store_wf_or_default [OF assms] by (simp add: part_wf_def)
  have look: "store_lookup s k' = hm_get (records ?ps) k'" if "key_partition k' = key_partition k" for k'
    using that by (simp add: store_lookup_def hm_or_default_def split: option.split)
  show ?thesis
  proof
    fix k'
    show "store_lookup (mutate s k m) k' =
      ((store_lookup s)(k \<mapsto> newer version (store_lookup s k) m)) k'"
    proof (cases "key_partition k' = key_partition k")
      case True
      have "store_lookup (mutate s k m) k' =
        hm_get (sm_compare_insert k m (\<lambda>old. version old \<le> version m) (records ?ps)) k'"
        using True by (simp add: store_lookup_def mutate_eq Let_def)
      also have "\<dots> = ((hm_get (records ?ps))(k \<mapsto> newer version (hm_get (records ?ps) k) m)) k'"
        using sm_get_compare_insert [OF wf] by metis
      finally show ?thesis using look [OF True] look [of k] by simp
    next
      case False
      then show ?thesis by (auto simp: store_lookup_def mutate_eq Let_def)
    qed
  qed
qed

lemma store_wf_apply: "store_wf s \<Longrightarrow> store_wf (apply_mutation u s)"
  by (simp add: apply_mutation_mutate store_wf_mutate)

interpretation rs: versioned_map store_wf store_lookup apply_mutation version
  by unfold_locales (simp_all add: apply_mutation_mutate store_wf_mutate store_lookup_mutate)

lemma store_wf_remove_if_empty: "store_wf s \<Longrightarrow> store_wf (remove_partition_if_empty s p)"
  by (simp add: remove_partition_if_empty_def store_wf_remove split: option.split)

lemma store_lookup_remove_if_empty [simp]:
  "store_lookup (remove_partition_if_empty s p) = store_lookup s"
  by (auto simp: fun_eq_iff store_lookup_def remove_partition_if_empty_def split: option.split)

lemma store_wf_remove_partition: "store_wf s \<Longrightarrow> store_wf (remove_partition s p)"
  by (simp add: remove_partition_def store_wf_remove)

lemma store_lookup_remove_partition:
  "store_lookup (remove_partition s p) k = (if key_partition k = p then None else store_lookup s k)"
  by (simp add: remove_partition_def store_lookup_def)

lemma store_wf_prune: "store_wf s \<Longrightarrow> store_wf (prune_partition_changes s p r)"
  unfolding prune_partition_changes_def
  by (rule store_wf_update)
     (auto simp: part_wf_def prune_changes_filter sm_wf_filter list_all_iff)

lemma store_lookup_prune [simp]: "store_lookup (prune_partition_changes s p r) = store_lookup s"
  by (auto simp: fun_eq_iff store_lookup_def prune_partition_changes_def split: option.split)

lemma part_wf_record_removed:
  "part_wf p ps \<Longrightarrow>
   part_wf p (ps\<lparr>records := hm_remove k (records ps), revision := n\<rparr>)"
  by (auto simp: part_wf_def sm_wf_filter list_all_iff AList.delete_eq)

lemma get_versioned_expired_eq:
  assumes "hm_get (cache s) (key_partition k) = Some ps" and "hm_get (records ps) k = Some (Put r)"
    and "sr_expiration_time_ms r \<noteq> 0" and "sr_expiration_time_ms r \<le> now"
  shows "get_versioned s now k =
    (remove_partition_if_empty
       (s\<lparr>cache := hm_insert (key_partition k)
            (ps\<lparr>records := hm_remove k (records ps), revision := next_revision s + 1\<rparr>) (cache s),
          next_revision := next_revision s + 1\<rparr>) (key_partition k), None)"
  using assms by (simp add: get_versioned_def Let_def writer_def not_less)

lemma get_versioned_keeps:
  assumes "\<And>r. store_lookup s k = Some (Put r) \<Longrightarrow> \<not> expired now (Put r)"
  shows "get_versioned s now k = (s, store_lookup s k)"
  using assms
  by (auto simp: get_versioned_def store_lookup_def Let_def split: option.splits mutation.splits)

lemma store_wf_get_versioned:
  assumes "store_wf s" shows "store_wf (fst (get_versioned s now k))"
proof (cases "\<exists>r. store_lookup s k = Some (Put r) \<and> expired now (Put r)")
  case True
  then obtain r ps where ps: "hm_get (cache s) (key_partition k) = Some ps"
      "hm_get (records ps) k = Some (Put r)" and "expired now (Put r)"
    by (auto simp: store_lookup_def split: option.splits)
  moreover have "part_wf (key_partition k)
      (ps\<lparr>records := hm_remove k (records ps), revision := next_revision s + 1\<rparr>)"
    by (rule part_wf_record_removed [OF store_wf_get [OF assms ps(1)]])
  ultimately show ?thesis
    using assms by (simp add: get_versioned_expired_eq store_wf_remove_if_empty store_wf_insert)
next
  case False
  with assms show ?thesis by (subst get_versioned_keeps) auto
qed

subsection \<open>The expiration scan\<close>

lemma expire_records_result:
  assumes "expire_records now es (nr, ps, n) = (nr', ps', n')"
  shows "records ps' = filter (\<lambda>e. fst e \<notin> fst ` {x \<in> set es. expired now (snd x)}) (records ps)
    \<and> changes ps' = changes ps \<and> active_writers ps' = active_writers ps
    \<and> n' = n + length (filter (\<lambda>e. expired now (snd e)) es)"
  using assms
proof (induction es arbitrary: nr ps n)
  case (Cons e es)
  show ?case
  proof (cases "expired now (snd e)")
    case True
    let ?ps = "ps\<lparr>records := hm_remove (fst e) (records ps), revision := nr + 1\<rparr>"
    have "expire_records now es (nr + 1, ?ps, n + 1) = (nr', ps', n')"
      using Cons.prems True by (simp add: Let_def writer_def)
    from Cons.IH [OF this] show ?thesis
      using True by (auto simp: AList.delete_eq intro!: filter_cong)
  next
    case False
    then have "{x \<in> set (e # es). expired now (snd x)} = {x \<in> set es. expired now (snd x)}" by auto
    with Cons.IH [of nr ps n] Cons.prems False show ?thesis by simp
  qed
qed simp

lemma expire_records_own:
  assumes "sm_wf (records ps)" and "expire_records now (records ps) (nr, ps, n) = (nr', ps', n')"
  shows "records ps' = filter (\<lambda>e. \<not> expired now (snd e)) (records ps)"
proof -
  have "e1 = e2" if "e1 \<in> set (records ps)" "e2 \<in> set (records ps)" "fst e1 = fst e2" for e1 e2
    using that sm_wf_distinct [OF assms(1)] by (metis eq_key_imp_eq_value prod.collapse)
  then have "fst e \<in> fst ` {x \<in> set (records ps). expired now (snd x)} \<longleftrightarrow> expired now (snd e)"
    if "e \<in> set (records ps)" for e
    using that by blast
  then have "filter (\<lambda>e. fst e \<notin> fst ` {x \<in> set (records ps). expired now (snd x)}) (records ps) =
      filter (\<lambda>e. \<not> expired now (snd e)) (records ps)"
    by (intro filter_cong) auto
  with expire_records_result [OF assms(2)] show ?thesis by simp
qed

lemma expire_partition_step:
  assumes "store_wf s" and "expire_partition now p (s, n) = (s', n')"
  shows "store_wf s'"
    and "store_lookup s' k =
      (if key_partition k = p then purge now (store_lookup s k) else store_lookup s k)"
    and "n' = n + expired_count now (hm_get (cache s) p)"
    and "q \<noteq> p \<Longrightarrow> hm_get (cache s') q = hm_get (cache s) q"
proof -
  have "store_wf s' \<and> store_lookup s' k =
        (if key_partition k = p then purge now (store_lookup s k) else store_lookup s k) \<and>
      n' = n + expired_count now (hm_get (cache s) p) \<and>
      (q \<noteq> p \<longrightarrow> hm_get (cache s') q = hm_get (cache s) q)"
  proof (cases "hm_get (cache s) p")
    case None
    with assms have "s' = remove_partition_if_empty s p" "n' = n"
      by (auto simp: expire_partition_def)
    with None assms(1) show ?thesis
      by (auto simp: expired_count_def purge_def store_lookup_def remove_partition_if_empty_def)
  next
    case (Some ps)
    obtain nr1 ps1 n1 where run: "expire_records now (records ps) (next_revision s, ps, n) = (nr1, ps1, n1)"
      by (metis prod_cases3)
    have wf: "part_wf p ps" using assms(1) Some by (rule store_wf_get)
    then have sm: "sm_wf (records ps)" by (simp add: part_wf_def)
    note rec = expire_records_own [OF sm run]
    note res = expire_records_result [OF run]
    have wf1: "part_wf p ps1"
      using wf rec res by (auto simp: part_wf_def sm_wf_filter list_all_iff)
    let ?s1 = "s\<lparr>cache := hm_insert p ps1 (cache s), next_revision := nr1\<rparr>"
    have s': "s' = remove_partition_if_empty ?s1 p" and n': "n' = n1"
      using assms(2) Some run by (auto simp: expire_partition_def)
    have "hm_get (records ps1) k = purge now (hm_get (records ps) k)"
      using hm_get_retain [OF sm_wf_distinct [OF sm], of "\<lambda>_ m. \<not> expired now m" k]
      by (simp add: rec hm_retain_def purge_def split_def split: option.split)
    then have "store_lookup s' k =
        (if key_partition k = p then purge now (store_lookup s k) else store_lookup s k)"
      using Some by (auto simp: s' store_lookup_def)
    moreover have "store_wf s'"
      unfolding s' using assms(1) wf1 by (intro store_wf_remove_if_empty store_wf_insert)
    moreover have "q \<noteq> p \<longrightarrow> hm_get (cache s') q = hm_get (cache s) q"
      by (auto simp: s' remove_partition_if_empty_def)
    ultimately show ?thesis using res Some n' by (simp add: expired_count_def)
  qed
  then show "store_wf s'"
    and "store_lookup s' k =
      (if key_partition k = p then purge now (store_lookup s k) else store_lookup s k)"
    and "n' = n + expired_count now (hm_get (cache s) p)"
    and "q \<noteq> p \<Longrightarrow> hm_get (cache s') q = hm_get (cache s) q"
    by blast+
qed

lemma expire_partitions:
  assumes "store_wf s" and "distinct pids" and "fold (expire_partition now) pids (s, n) = (s', n')"
  shows "store_wf s' \<and>
    (\<forall>k. store_lookup s' k =
      (if key_partition k \<in> set pids then purge now (store_lookup s k) else store_lookup s k)) \<and>
    n' = n + (\<Sum>p\<leftarrow>pids. expired_count now (hm_get (cache s) p))"
  using assms
proof (induction pids arbitrary: s n)
  case (Cons p pids)
  obtain s1 n1 where step: "expire_partition now p (s, n) = (s1, n1)" by fastforce
  note one = expire_partition_step [OF Cons.prems(1) step]
  have ih: "store_wf s' \<and>
    (\<forall>k. store_lookup s' k =
      (if key_partition k \<in> set pids then purge now (store_lookup s1 k) else store_lookup s1 k)) \<and>
    n' = n1 + (\<Sum>p\<leftarrow>pids. expired_count now (hm_get (cache s1) p))"
    using Cons.IH [OF one(1)] Cons.prems(2,3) step by simp
  have "map (\<lambda>q. expired_count now (hm_get (cache s1) q)) pids =
      map (\<lambda>q. expired_count now (hm_get (cache s) q)) pids"
    using one(4) Cons.prems(2) by (intro map_cong refl) (metis distinct.simps(2))
  with ih one(2,3) Cons.prems(2) show ?case by auto
qed simp

subsection \<open>Snapshot pages and the change journal\<close>

lemma store_wf_remove_expired: "store_wf s \<Longrightarrow> store_wf (fst (remove_expired s now))"
  using expire_partitions [of s "hm_keys (cache s)" now 0]
  by (simp add: remove_expired_def store_wf_def prod_eq_iff)

lemma read_pages_from:
  assumes "part_wf p ps" and "hm_get (cache s) p = Some ps" and "0 < amount"
    and "length (after_cursor c (records ps)) < fuel"
  shows "read_pages fuel s p amount c = Some (after_cursor c (records ps))"
  using assms(4)
proof (induction fuel arbitrary: c)
  case (Suc fuel)
  let ?rest = "after_cursor c (records ps)"
  let ?page = "take amount ?rest"
  have page: "get_partition_mutations s p amount c = ?page"
    using assms(2) by (simp add: get_partition_mutations_def)
  show ?case
  proof (cases "?page = []")
    case True
    with assms(3) have "?rest = []" by simp
    then show ?thesis by (simp add: page Let_def)
  next
    case False
    have "sm_wf (records ps)" using assms(1) by (simp add: part_wf_def)
    from sm.after_last_of_page [OF this refl False]
    have next_rest: "after_cursor (Some (fst (last ?page))) (records ps) = drop amount ?rest" .
    moreover have "length (drop amount ?rest) < length ?rest" using assms(3) False by simp
    ultimately have "length (after_cursor (Some (fst (last ?page))) (records ps)) < fuel"
      using Suc.prems by simp
    from Suc.IH [OF this] next_rest False show ?thesis by (simp add: page Let_def)
  qed
qed simp

lemma journal_wf_get:
  "store_wf s \<Longrightarrow> journal_wf s \<Longrightarrow> hm_get (cache s) p = Some ps \<Longrightarrow>
   revision ps \<le> next_revision s \<and> (\<forall>e \<in> set (changes ps). fst e \<le> revision ps)"
  by (auto simp: journal_wf_def store_wf_def hm_all_iff list_all_iff)

lemma mutate_cache_same:
  "hm_get (cache (mutate s k m)) (key_partition k) =
     Some (let ps = hm_or_default default_partition_store (key_partition k) (cache s)
           in ps\<lparr>records := sm_compare_insert k m (\<lambda>old. version old \<le> version m) (records ps),
                changes := sm_insert (next_revision s + 1) k (changes ps),
                revision := next_revision s + 1\<rparr>)"
  by (simp add: mutate_eq Let_def)

lemma mutate_cache_other:
  "p \<noteq> key_partition k \<Longrightarrow> hm_get (cache (mutate s k m)) p = hm_get (cache s) p"
  by (simp add: mutate_eq Let_def)

lemma next_revision_mutate [simp]: "next_revision (mutate s k m) = next_revision s + 1"
  by (simp add: mutate_eq Let_def)

lemma journal_wf_mutate:
  assumes "store_wf s" and "journal_wf s" and "unat (next_revision s) + 1 < 2 ^ 64"
  shows "journal_wf (mutate s k m)"
proof -
  let ?n = "next_revision s + 1"
  have less: "next_revision s < ?n" using assms(3) by (rule less_succ_u64)
  have old: "fst e \<le> ?n"
    if "e \<in> set (changes (hm_or_default default_partition_store p (cache s)))" for e p
    using that journal_wf_get [OF assms(1,2)] less
    by (force simp: hm_or_default_def split: option.splits)
  have "revision ps \<le> ?n \<and> list_all (\<lambda>e. fst e \<le> revision ps) (changes ps)"
    if get: "hm_get (cache (mutate s k m)) p = Some ps" for p ps
  proof (cases "p = key_partition k")
    case True
    with get old show ?thesis
      by (auto simp: mutate_cache_same Let_def list_all_iff dest!: set_sm_insert)
  next
    case False
    with get journal_wf_get [OF assms(1,2), of p ps] less show ?thesis
      by (auto simp: mutate_cache_other list_all_iff)
  qed
  moreover have "hm_wf (cache (mutate s k m))"
    using store_wf_mutate [OF assms(1)] by (simp add: store_wf_def)
  ultimately show ?thesis by (simp add: journal_wf_def hm_all_iff)
qed

lemma journal_wf_log:
  assumes "store_wf s" and "journal_wf s" and "unat (next_revision s) + length us < 2 ^ 64"
  shows "journal_wf (fold apply_mutation us s) \<and>
    unat (next_revision (fold apply_mutation us s)) = unat (next_revision s) + length us"
  using assms
proof (induction us arbitrary: s)
  case (Cons u us)
  have bound: "unat (next_revision s) + 1 < 2 ^ 64" using Cons.prems(3) by simp
  note succ = unat_succ_u64 [OF bound]
  have "journal_wf (mutate s (fst u) (snd u))"
    using Cons.prems(1,2) bound by (rule journal_wf_mutate)
  with Cons.IH [of "mutate s (fst u) (snd u)"] Cons.prems succ show ?case
    by (simp add: apply_mutation_mutate store_wf_mutate)
qed simp

text \<open>Every write of a log leaves a journal entry newer than any revision handed out before it.\<close>

lemma journal_records_log:
  assumes "store_wf s" and "journal_wf s" and "unat (next_revision s) + length us < 2 ^ 64"
    and "r \<le> next_revision s" and "(k, m) \<in> set us"
  shows "\<exists>ps n. hm_get (cache (fold apply_mutation us s)) (key_partition k) = Some ps \<and>
    (n, k) \<in> set (changes ps) \<and> r < n"
  using assms(3,5)
proof (induction us rule: rev_induct)
  case (snoc u us)
  let ?s = "fold apply_mutation us s"
  have step: "fold apply_mutation (us @ [u]) s = mutate ?s (fst u) (snd u)"
    by (simp add: apply_mutation_mutate [of u])
  have wf: "store_wf ?s" using assms(1) by (rule rs.invar_apply_all)
  have jw: "journal_wf ?s" and rev: "unat (next_revision ?s) = unat (next_revision s) + length us"
    using journal_wf_log [OF assms(1,2), of us] snoc.prems(1) by auto
  have ne: "unat (next_revision ?s) + 1 < 2 ^ 64" using rev snoc.prems(1) by simp
  have "next_revision s \<le> next_revision ?s" using rev by (simp add: word_le_nat_alt)
  then have r: "r < next_revision ?s + 1"
    using assms(4) less_succ_u64 [OF ne] by simp
  show ?case
  proof (cases "(k, m) = u")
    case True
    then show ?thesis
      using r unfolding step by (auto simp: mutate_cache_same Let_def intro!: exI sm_insert_mem)
  next
    case False
    with snoc.prems obtain ps n where get: "hm_get (cache ?s) (key_partition k) = Some ps"
        and n: "(n, k) \<in> set (changes ps)" "r < n"
      using snoc.IH by auto
    show ?thesis
    proof (cases "key_partition k = key_partition (fst u)")
      case True
      have "n \<le> next_revision ?s" using journal_wf_get [OF wf jw get] n(1) by force
      then have "n \<noteq> next_revision ?s + 1" using less_succ_u64 [OF ne] by auto
      with True get n show ?thesis
        unfolding step by (auto simp: mutate_cache_same Let_def hm_or_default_def
            intro!: sm_insert_keeps exI [where x = n])
    next
      case False
      with get n show ?thesis unfolding step by (auto simp: mutate_cache_other)
    qed
  qed
qed simp

section \<open>Properties\<close>

text \<open>
  Every operation that changes the store keeps its representation invariant: distinct
  partitions, records and journal of each partition in strictly increasing key order, and
  every key filed under the partition it hashes to.
\<close>

theorem store_operations_keep_wf:
  assumes "store_wf s"
  shows "store_wf (put s k r) \<and> store_wf (delete_at s k t) \<and> store_wf (fst (get_versioned s now k)) \<and>
    store_wf (prune_partition_changes s p n) \<and> store_wf (remove_partition_if_empty s p) \<and>
    store_wf (remove_partition s p) \<and> store_wf (fst (remove_expired s now))"
  using assms
  by (simp add: put_def delete_at_def store_wf_mutate store_wf_get_versioned store_wf_prune
      store_wf_remove_if_empty store_wf_remove_partition store_wf_remove_expired)

theorem store_operations_keep_wf_witness:
  "store_wf (put new_runtime_store (Key 5) \<lparr>sr_expiration_time_ms = 0, sr_creation_time_ms = 1, sr_value = [7]\<rparr>)"
  using store_operations_keep_wf [OF store_wf_new, of "Key 5"
    "\<lparr>sr_expiration_time_ms = 0, sr_creation_time_ms = 1, sr_value = [7]\<rparr>"] by blast

text \<open>
  C1: the store implements last-write-wins. After any sequence of puts and deletes the entry
  under a key is the one with the greatest version among what was there and what was written
  to that key, the later one on a tie.
\<close>

theorem write_log_refines:
  assumes "store_wf s"
  shows "store_lookup (fold apply_mutation us s) k =
    winner version (store_lookup s k) (map snd (filter (\<lambda>u. fst u = k) us))"
  using assms by (rule rs.lookup_apply_all)

theorem write_log_refines_witness:
  "store_lookup (fold apply_mutation
     [(Key 1, Put \<lparr>sr_expiration_time_ms = 0, sr_creation_time_ms = 100, sr_value = [1]\<rparr>),
      (Key 2, Delete 5), (Key 1, Delete 200),
      (Key 1, Put \<lparr>sr_expiration_time_ms = 0, sr_creation_time_ms = 150, sr_value = [2]\<rparr>)]
     new_runtime_store) (Key 1) = Some (Delete 200)"
  unfolding write_log_refines [OF store_wf_new]
  by (simp add: store_lookup_def new_runtime_store_def)

text \<open>
  Replicas that receive the same writes in different orders end with the same entry
  under every key whose writes have pairwise different versions.
\<close>

theorem replicas_converge:
  assumes "store_wf s" and "mset us = mset ws"
    and "inj_on version (snd ` {u \<in> set us. fst u = k} \<union> set_option (store_lookup s k))"
  shows "store_lookup (fold apply_mutation us s) k = store_lookup (fold apply_mutation ws s) k"
  using assms by (rule rs.apply_all_converge)

theorem replicas_converge_witness:
  "store_lookup (fold apply_mutation [(Key 1, Delete 3), (Key 1, Delete 4)] new_runtime_store) (Key 1) =
   store_lookup (fold apply_mutation [(Key 1, Delete 4), (Key 1, Delete 3)] new_runtime_store) (Key 1)"
  by (rule replicas_converge [OF store_wf_new])
     (auto simp: inj_on_def store_lookup_def new_runtime_store_def)

text \<open>
  A tombstone stops older writes. After a delete at time \<open>t\<close>, any number of puts with
  smaller creation times leaves the key without a record; a put that is not older is stored.
\<close>

theorem tombstone_blocks_stale_puts:
  assumes "store_wf s" and "\<And>m. store_lookup s k = Some m \<Longrightarrow> version m \<le> t"
    and "\<And>r. r \<in> set rs \<Longrightarrow> sr_creation_time_ms r < t" and "t \<le> sr_creation_time_ms r'"
  shows "store_lookup (fold (\<lambda>r s. put s k r) rs (delete_at s k t)) k = Some (Delete t) \<and>
    store_lookup (put (fold (\<lambda>r s. put s k r) rs (delete_at s k t)) k r') k = Some (Put r')"
proof -
  have start: "store_lookup (delete_at s k t) k = Some (Delete t)"
    using assms(1,2) by (cases "store_lookup s k") (auto simp: delete_at_def store_lookup_mutate)
  have "store_wf (delete_at s k t)" using assms(1) by (simp add: delete_at_def store_wf_mutate)
  with start assms(3) have "store_lookup (fold (\<lambda>r s. put s k r) rs (delete_at s k t)) k = Some (Delete t) \<and>
    store_wf (fold (\<lambda>r s. put s k r) rs (delete_at s k t))"
  proof (induction rs rule: rev_induct)
    case (snoc r rs)
    then have "sr_creation_time_ms r < t" by simp
    with snoc show ?case by (simp add: put_def store_lookup_mutate store_wf_mutate not_le)
  qed simp
  with assms(4) show ?thesis by (simp add: put_def store_lookup_mutate)
qed

theorem tombstone_blocks_stale_puts_witness:
  "store_lookup (put (delete_at new_runtime_store (Key 1) 200) (Key 1)
     \<lparr>sr_expiration_time_ms = 0, sr_creation_time_ms = 100, sr_value = [1]\<rparr>) (Key 1) = Some (Delete 200)"
proof -
  let ?rs = "[\<lparr>sr_expiration_time_ms = 0, sr_creation_time_ms = 100, sr_value = [1]\<rparr>]"
  let ?r = "\<lparr>sr_expiration_time_ms = 0, sr_creation_time_ms = 300, sr_value = [2]\<rparr>"
  have "store_lookup (fold (\<lambda>r s. put s (Key 1) r) ?rs (delete_at new_runtime_store (Key 1) 200)) (Key 1) =
      Some (Delete 200) \<and>
    store_lookup (put (fold (\<lambda>r s. put s (Key 1) r) ?rs (delete_at new_runtime_store (Key 1) 200)) (Key 1) ?r)
      (Key 1) = Some (Put ?r)"
    by (rule tombstone_blocks_stale_puts [OF store_wf_new]) auto
  then show ?thesis by simp
qed

lemma get_versioned_lookup:
  assumes "store_wf s"
  shows "snd (get_versioned s now k) = purge now (store_lookup s k) \<and>
    store_lookup (fst (get_versioned s now k)) = (store_lookup s)(k := purge now (store_lookup s k))"
proof (cases "\<exists>r. store_lookup s k = Some (Put r) \<and> expired now (Put r)")
  case True
  then obtain r ps where "hm_get (cache s) (key_partition k) = Some ps"
      "hm_get (records ps) k = Some (Put r)" "expired now (Put r)"
    by (auto simp: store_lookup_def split: option.splits)
  then show ?thesis
    by (auto simp: get_versioned_expired_eq purge_def fun_eq_iff store_lookup_def)
next
  case False
  then have "get_versioned s now k = (s, store_lookup s k)"
    by (intro get_versioned_keeps) blast
  moreover have "purge now (store_lookup s k) = store_lookup s k"
    using False by (auto simp: purge_def split: option.split elim!: expired.elims)
  ultimately show ?thesis by simp
qed

text \<open>
  A read returns the stored mutation, tombstones included, unless it is a record whose
  expiration time has passed; such a record is not returned and is removed, and no other key
  is affected.
\<close>

theorem get_versioned_reads:
  assumes "store_wf s"
  shows "snd (get_versioned s now k) = purge now (store_lookup s k) \<and>
    store_lookup (fst (get_versioned s now k)) = (store_lookup s)(k := purge now (store_lookup s k))"
  using get_versioned_lookup [OF assms] .

theorem get_versioned_reads_witness:
  "snd (get_versioned (delete_at new_runtime_store (Key 1) 7) 1000 (Key 1)) = Some (Delete 7)"
proof -
  have wf: "store_wf (delete_at new_runtime_store (Key 1) 7)"
    by (simp add: delete_at_def store_wf_mutate)
  show ?thesis
    using get_versioned_reads [OF wf, of 1000 "Key 1"]
    by (simp add: delete_at_def store_lookup_mutate purge_def)
qed

text \<open>
  The expiration scan removes exactly the expired records of the whole store, keeps every
  other entry (live records, records without expiration, tombstones), and returns their number.
\<close>

theorem remove_expired_exact:
  assumes "store_wf s"
  shows "store_lookup (fst (remove_expired s now)) k = purge now (store_lookup s k) \<and>
    snd (remove_expired s now) =
      (\<Sum>(p, ps)\<leftarrow>cache s. length (filter (\<lambda>e. expired now (snd e)) (records ps)))"
proof -
  obtain s' n' where run: "fold (expire_partition now) (hm_keys (cache s)) (s, 0) = (s', n')"
    by fastforce
  have wf: "hm_wf (cache s)" using assms by (simp add: store_wf_def)
  note all = expire_partitions [OF assms wf run]
  have "store_lookup (fst (remove_expired s now)) k = purge now (store_lookup s k)"
    using all by (auto simp: remove_expired_def run store_lookup_def purge_def hm_keys_get
        split: option.splits)
  moreover have "map (\<lambda>p. expired_count now (hm_get (cache s) p)) (hm_keys (cache s)) =
      map (\<lambda>(p, ps). length (filter (\<lambda>e. expired now (snd e)) (records ps))) (cache s)"
    using wf by (auto simp: expired_count_def)
  then have "snd (remove_expired s now) =
      (\<Sum>(p, ps)\<leftarrow>cache s. length (filter (\<lambda>e. expired now (snd e)) (records ps)))"
    using all by (simp only: remove_expired_def run) simp
  ultimately show ?thesis by blast
qed

theorem remove_expired_exact_witness:
  "snd (remove_expired (put new_runtime_store (Key 1)
      \<lparr>sr_expiration_time_ms = 99, sr_creation_time_ms = 1, sr_value = [1]\<rparr>) 100) = 1"
proof -
  let ?r = "\<lparr>sr_expiration_time_ms = 99, sr_creation_time_ms = 1, sr_value = [1]\<rparr>"
  have wf: "store_wf (put new_runtime_store (Key 1) ?r)" by (simp add: put_def store_wf_mutate)
  show ?thesis
    using remove_expired_exact [OF wf, of 100 "Key 1"]
    by (simp add: put_def mutate_eq Let_def new_runtime_store_def hm_or_default_def sm_compare_insert_def)
qed

text \<open>
  C31: reading a partition page by page, each page starting after the last key of the previous
  one, yields every record and tombstone exactly once, in key order, and ends.
\<close>

theorem snapshot_pages_complete:
  assumes "store_wf s" and "hm_get (cache s) p = Some ps" and "0 < amount"
    and "length (records ps) < fuel"
  shows "read_pages fuel s p amount None = Some (records ps)"
  using read_pages_from [OF store_wf_get [OF assms(1,2)] assms(2,3), of None fuel] assms(4) by simp

theorem snapshot_pages_complete_witness:
  "read_pages 3 (fold apply_mutation [(Key 4098, Delete 1), (Key 2, Delete 1)] new_runtime_store)
     (PartitionId 2) 1 None = Some [(Key 2, Delete 1), (Key 4098, Delete 1)]"
proof -
  let ?s = "fold apply_mutation [(Key 4098, Delete 1), (Key 2, Delete 1)] new_runtime_store"
  let ?ps = "\<lparr>records = [(Key 2, Delete 1), (Key 4098, Delete 1)],
     changes = [(1, Key 4098), (2, Key 2)], active_writers = 0, revision = 2\<rparr>"
  have "hm_get (cache ?s) (PartitionId 2) = Some ?ps"
    by (simp add: apply_mutation_mutate mutate_eq Let_def new_runtime_store_def hm_or_default_def
        sm_compare_insert_def key_partition_def PARTITIONS_AMOUNT_def default_partition_store_def)
  from snapshot_pages_complete [OF rs.invar_apply_all [OF store_wf_new] this, of 1 3] show ?thesis
    by simp
qed

text \<open>
  The journal does not miss a write. Whatever revision \<open>r\<close> a reader holds, every key
  written afterwards is among the changes it reads after \<open>r\<close>, with the newest value of the
  key, as long as the revision counter does not wrap and the batch is large enough.
\<close>

theorem journal_reports_writes:
  assumes "store_wf s" and "journal_wf s" and "r \<le> next_revision s"
    and "unat (next_revision s) + length us < 2 ^ 64" and "(k, m) \<in> set us"
    and "s' = fold apply_mutation us s"
    and "\<And>ps. hm_get (cache s') (key_partition k) = Some ps \<Longrightarrow> length (changes ps) \<le> amount"
  shows "\<exists>last_revision recs w. get_partition_changes s' (key_partition k) r amount = Some (last_revision, recs) \<and>
    store_lookup s' k = Some w \<and> version m \<le> version w \<and> (k, w) \<in> set recs"
proof -
  from journal_records_log [OF assms(1,2,4,3,5)] obtain ps n
    where ps: "hm_get (cache s') (key_partition k) = Some ps" and n: "(n, k) \<in> set (changes ps)" "r < n"
    using assms(6) by blast
  from rs.apply_all_dominates [OF assms(1,5)] obtain w
    where w: "store_lookup s' k = Some w" "version m \<le> version w" using assms(6) by blast
  have "store_wf s'" using assms(1,6) by (simp add: rs.invar_apply_all)
  from store_wf_get [OF this ps] have "sm_wf (changes ps)" by (simp add: part_wf_def)
  with n have in_page: "(n, k) \<in> set (after_cursor (Some r) (changes ps))"
    by (simp add: after_cursor_filter)
  have whole: "take amount (after_cursor (Some r) (changes ps)) = after_cursor (Some r) (changes ps)"
    using assms(7) [OF ps] length_dropWhile_le [of _ "changes ps"]
    unfolding after_cursor_def by (meson order.trans take_all)
  have "hm_get (records ps) k = Some w" using w ps by (simp add: store_lookup_def)
  with in_page have "(k, w) \<in> set (List.map_filter
      (\<lambda>(_, k). map_option (\<lambda>m. (k, m)) (hm_get (records ps) k)) (after_cursor (Some r) (changes ps)))"
    by (force simp: List.map_filter_def)
  with w ps in_page whole show ?thesis
    by (auto simp: get_partition_changes_def Let_def)
qed

theorem journal_reports_writes_witness:
  "\<exists>last_revision recs w.
     get_partition_changes (fold apply_mutation [(Key 2, Delete 1)] new_runtime_store)
       (key_partition (Key 2)) 0 10 = Some (last_revision, recs) \<and>
     store_lookup (fold apply_mutation [(Key 2, Delete 1)] new_runtime_store) (Key 2) = Some w \<and>
     version (Delete 1) \<le> version w \<and> (Key 2, w) \<in> set recs"
  by (rule journal_reports_writes [where s = new_runtime_store and us = "[(Key 2, Delete 1)]"])
     (auto simp: journal_wf_def new_runtime_store_def apply_mutation_mutate mutate_eq Let_def
        hm_or_default_def store_wf_def)

text \<open>
  Pruning the journal through a revision never changes what a reader at that revision or a
  later one is still to receive.
\<close>

theorem prune_keeps_unsent:
  assumes "store_wf s" and "through \<le> r"
  shows "get_partition_changes (prune_partition_changes s p through) q r amount =
    get_partition_changes s q r amount"
proof (cases "hm_get (cache s) q")
  case None
  then show ?thesis by (auto simp: get_partition_changes_def prune_partition_changes_def)
next
  case (Some ps)
  have sm: "sm_wf (changes ps)" using store_wf_get [OF assms(1) Some] by (simp add: part_wf_def)
  have "after_cursor (Some r) (prune_changes through (changes ps)) = after_cursor (Some r) (changes ps)"
    using assms(2) sm by (auto simp: prune_changes_filter after_cursor_filter sm_wf_filter
        intro!: filter_cong)
  with Some show ?thesis
    by (cases "q = p") (simp_all add: get_partition_changes_def prune_partition_changes_def Let_def)
qed

theorem prune_keeps_unsent_witness:
  "get_partition_changes (prune_partition_changes (delete_at new_runtime_store (Key 2) 1) (PartitionId 2) 0)
     (PartitionId 2) 0 10 =
   get_partition_changes (delete_at new_runtime_store (Key 2) 1) (PartitionId 2) 0 10"
  by (rule prune_keeps_unsent) (simp_all add: delete_at_def store_wf_mutate)

end
