(* ===== verification/Worker_State.thy ===== *)
theory Worker_State
  imports Runtime_Store Manager_State
begin

text \<open>
  The worker's cluster state and the handlers that maintain it: \<open>worker/domain.rs\<close>,
  \<open>worker/service/state.rs\<close>, \<open>cluster_state.rs\<close>, \<open>connection.rs\<close>, \<open>election.rs\<close> and
  \<open>heartbeat.rs\<close>. The conventions are those of the manager's theory; the worker's handlers that
  share a name with the manager's carry the prefix \<open>w_\<close>.
\<close>

section \<open>Messages and state\<close>

record sync_record =
  dr_key :: key
  dr_value :: "u8 list"
  dr_ttl :: u64
  dr_creation_time_ms :: u64
  dr_deleted :: bool

record sync_batch_request =
  sb_sender_id :: node_id
  sb_records :: "sync_record list"

datatype worker_protocol =
    WNewConnection "node_id option" string u32 bool
  | WHeartbeat node_id heartbeat
  | WGetClusterState node_id
  | WClusterState cluster_state
  | WNodeDisconnected node_id
  | WLeader node_id u64 u64
  | WRemovePartitionFromReplica node_id node_id partition_id
  | WSyncBatch node_id sync_batch_request
  | WSyncBatchResponse node_id "(partition_id, key) hash_map"

datatype sync_phase = Snapshot u64 | Changes u64 u64

record sync_state =
  ss_prev_max_key :: "key option"
  ss_curr_max_key :: key
  ss_phase :: sync_phase
  ss_confirmed :: bool
  ss_last_start_time :: u64

record wstate =
  w_epoch :: "u64 option"
  w_elected_leader_id :: "node_id option"
  w_nodes :: "(node_id, node) hash_map"
  w_partitions :: partitions
  w_partitions_last_update_time :: u64
  w_sync :: "(partition_id, (node_id, sync_state) hash_map) hash_map"
  w_actual_nodes_sync_completion :: "(partition_id, (node_id, u64) hash_map) hash_map"

definition new_wstate :: "(node_id, node) hash_map \<Rightarrow> wstate" where
  "new_wstate nodes =
     \<lparr>w_epoch = None, w_elected_leader_id = None, w_nodes = nodes, w_partitions = default_partitions,
      w_partitions_last_update_time = 0, w_sync = [], w_actual_nodes_sync_completion = []\<rparr>"

definition get_currently_synced_actual_nodes :: "wstate \<Rightarrow> (partition_id, node_id hash_set) hash_map" where
  "get_currently_synced_actual_nodes st =
     List.map_filter (\<lambda>(p, node_id_to_time).
       let currently_synced_nodes =
             hs_collect (List.map_filter
               (\<lambda>(i, time). if time = w_partitions_last_update_time st then Some i else None) node_id_to_time)
       in if currently_synced_nodes = [] then None else Some (p, currently_synced_nodes))
       (w_actual_nodes_sync_completion st)"

text \<open>The requests for the cluster state a worker sends to the managers it knows.\<close>

definition ask_managers :: "me \<Rightarrow> wstate \<Rightarrow> worker_protocol list" where
  "ask_managers me st =
     map (\<lambda>(k, _). WGetClusterState k)
       (filter (\<lambda>(k, n). k \<noteq> me_id me \<and> is_manager n) (w_nodes st))"

section \<open>Cluster state\<close>

definition w_merge_item ::
  "cluster_node \<Rightarrow> (node_id, node) hash_map \<times> worker_protocol list \<Rightarrow>
   (node_id, node) hash_map \<times> worker_protocol list" where
  "w_merge_item item = (\<lambda>(nodes, out).
     case hm_get nodes (cn_id item) of
       Some _ \<Rightarrow> (hm_update (cn_id item) (touch (cn_last_heartbeat item)) nodes, out)
     | None \<Rightarrow> (nodes, out @ [WNewConnection None (cn_host item) (cn_port item) (cn_node_type item = Manager)]))"

definition w_handle_cluster_state ::
  "me \<Rightarrow> u64 \<Rightarrow> u64 \<Rightarrow> node_id \<Rightarrow> cluster_node list \<Rightarrow> partitions \<Rightarrow> wstate \<Rightarrow>
   wstate \<times> worker_protocol list" where
  "w_handle_cluster_state me now epoch leader_id items parts st =
     (let (st1, accept) =
        (if w_epoch st = None \<or> opt_less (w_epoch st) (Some epoch)
         then (st\<lparr>w_epoch := Some epoch, w_elected_leader_id := Some leader_id\<rparr>, True)
         else if w_epoch st = Some epoch \<and> w_elected_leader_id st = Some leader_id then (st, True)
         else (st, False))
      in if accept
         then let st2 = (if \<not> partitions_eq (w_partitions st1) parts
                         then st1\<lparr>w_partitions_last_update_time :=
                                max now (saturating_add (w_partitions_last_update_time st1) 1)\<rparr>
                         else st1);
                  kept = (if items \<noteq> []
                          then hm_retain (\<lambda>i _. i = me_id me \<or> i \<in> set (map cn_id items)) (w_nodes st2)
                          else w_nodes st2);
                  (nodes, out) = fold w_merge_item items (kept, [])
              in (st2\<lparr>w_partitions := parts, w_nodes := nodes\<rparr>, out)
         else (st1, []))"

definition w_handle_remove_old_partition :: "me \<Rightarrow> node_id \<Rightarrow> wstate \<Rightarrow> worker_protocol list" where
  "w_handle_remove_old_partition me replica_id st =
     (if hm_get (w_nodes st) replica_id \<noteq> None then ask_managers me st else [])"

section \<open>Connections, leader and heartbeats\<close>

definition w_handle_node_disconnected :: "node_id \<Rightarrow> wstate \<Rightarrow> wstate" where
  "w_handle_node_disconnected i st = st\<lparr>w_nodes := hm_remove i (w_nodes st)\<rparr>"

definition w_handle_new_connection ::
  "u64 \<Rightarrow> node_id option \<Rightarrow> string \<Rightarrow> u32 \<Rightarrow> bool \<Rightarrow> wstate \<Rightarrow> wstate \<times> worker_protocol list" where
  "w_handle_new_connection now iopt host port manager st =
     (case iopt of
        None \<Rightarrow> (st, [])
      | Some i \<Rightarrow>
          (st\<lparr>w_nodes := hm_insert i
                \<lparr>n_host = host, n_port = port, n_last_heartbeat = now,
                 n_node_type = (if manager then Manager else Worker)\<rparr> (w_nodes st)\<rparr>,
           if manager then [WGetClusterState i] else []))"

definition w_handle_leader ::
  "me \<Rightarrow> node_id \<Rightarrow> u64 \<Rightarrow> u64 \<Rightarrow> wstate \<Rightarrow> wstate \<times> worker_protocol list" where
  "w_handle_leader me i epoch ts st =
     (if opt_less (w_epoch st) (Some epoch)
      then
        (case hm_get (w_nodes st) i of
           Some n \<Rightarrow>
             if n_node_type n = Manager
             then (st\<lparr>w_nodes := hm_update i (\<lambda>n. n\<lparr>n_last_heartbeat := ts\<rparr>) (w_nodes st),
                      w_elected_leader_id := Some i, w_epoch := Some epoch\<rparr>, [])
             else (st, ask_managers me st)
         | None \<Rightarrow> (st, ask_managers me st))
      else (st, []))"

definition w_heartbeats :: "me \<Rightarrow> u64 \<Rightarrow> wstate \<Rightarrow> wstate \<times> worker_protocol list" where
  "w_heartbeats me now st =
     (case hm_get (w_nodes st) (me_id me) of
        Some n \<Rightarrow>
          if n_node_type n = Worker \<and> n_last_heartbeat n + HEARTBEAT_INTERVAL_MS \<le> now
          then
            let nodes = hm_update (me_id me) (\<lambda>n. n\<lparr>n_last_heartbeat := now\<rparr>) (w_nodes st)
            in (st\<lparr>w_nodes := nodes\<rparr>,
                map (\<lambda>k. WHeartbeat k \<lparr>hb_id = me_id me, hb_ts = now\<rparr>)
                  (filter (\<lambda>k. k \<noteq> me_id me) (hm_keys nodes)))
          else (st, [])
      | None \<Rightarrow> (st, []))"

definition w_handle_heartbeat :: "me \<Rightarrow> node_id \<Rightarrow> u64 \<Rightarrow> wstate \<Rightarrow> wstate \<times> worker_protocol list" where
  "w_handle_heartbeat me i ts st =
     (case hm_get (w_nodes st) i of
        None \<Rightarrow> (st, ask_managers me st)
      | Some _ \<Rightarrow>
          (st\<lparr>w_nodes := hm_update i (\<lambda>n. n\<lparr>n_last_heartbeat := max (n_last_heartbeat n) ts\<rparr>) (w_nodes st)\<rparr>, []))"

end
