(* ===== verification/Worker_Sync.thy ===== *)
theory Worker_Sync
  imports Worker_State
begin

text \<open>
  Transfer of partitions between workers (\<open>worker/service/partitions.rs\<close>): a snapshot in pages,
  then the journal of changes, per partition and recipient, each batch acknowledged before the
  next one is sent.

  The functions return the messages they push to \<open>output\<close>, in order. They read the clock at most
  twice per recipient; \<open>clk p r\<close> holds the two readings made for recipient \<open>r\<close> of partition \<open>p\<close>.
  A call runs on one state of the runtime store: writes of the request handlers come between
  the calls, not inside them. The age of a batch is a difference of two readings of the clock that wraps,
  as in a release build, when the clock has been set back.
\<close>

section \<open>Batches\<close>

definition SYNC_TIMEOUT_MS :: u64 where
  "SYNC_TIMEOUT_MS = 60000"

definition SYNC_BATCH_SIZE :: nat where
  "SYNC_BATCH_SIZE = 1000"

fun mutation_to_domain :: "key \<times> mutation \<Rightarrow> sync_record" where
  "mutation_to_domain (k, Put r) =
     \<lparr>dr_key = k, dr_value = sr_value r, dr_ttl = sr_expiration_time_ms r,
      dr_creation_time_ms = sr_creation_time_ms r, dr_deleted = False\<rparr>"
| "mutation_to_domain (k, Delete deletion_time_ms) =
     \<lparr>dr_key = k, dr_value = [], dr_ttl = 0, dr_creation_time_ms = deletion_time_ms, dr_deleted = True\<rparr>"

definition sync_batch ::
  "runtime_store \<Rightarrow> node_id \<Rightarrow> partition_id \<Rightarrow> key option \<Rightarrow> me \<Rightarrow> key option \<times> worker_protocol list" where
  "sync_batch s recipient p after_key me =
     (let vec = get_partition_mutations s p SYNC_BATCH_SIZE after_key
      in if vec = [] then (None, [])
         else (Some (fst (last vec)),
               [WSyncBatch recipient \<lparr>sb_sender_id = me_id me, sb_records = map mutation_to_domain vec\<rparr>]))"

text \<open>
  The loop of \<open>sync_change_batch\<close>: pages of the journal are skipped while none of their keys has a
  record left. Each round moves the cursor past at least one entry, so one round per journal
  entry and a last one are enough (\<open>next_changes_enough\<close>).
\<close>

fun next_changes ::
  "nat \<Rightarrow> runtime_store \<Rightarrow> partition_id \<Rightarrow> u64 \<Rightarrow> (u64 \<times> (key \<times> mutation) list) option" where
  "next_changes 0 s p cursor = None"
| "next_changes (Suc fuel) s p cursor =
     (case get_partition_changes s p cursor SYNC_BATCH_SIZE of
        None \<Rightarrow> None
      | Some (last_revision, recs) \<Rightarrow>
          if recs \<noteq> [] then Some (last_revision, recs) else next_changes fuel s p last_revision)"

definition journal_length :: "runtime_store \<Rightarrow> partition_id \<Rightarrow> nat" where
  "journal_length s p = (case hm_get (cache s) p of None \<Rightarrow> 0 | Some ps \<Rightarrow> length (changes ps))"

definition sync_change_batch ::
  "runtime_store \<Rightarrow> node_id \<Rightarrow> partition_id \<Rightarrow> u64 \<Rightarrow> me \<Rightarrow> (u64 \<times> key) option \<times> worker_protocol list" where
  "sync_change_batch s recipient p after_revision me =
     (case next_changes (Suc (journal_length s p)) s p after_revision of
        None \<Rightarrow> (None, [])
      | Some (last_revision, recs) \<Rightarrow>
          (Some (last_revision, Max (set (map fst recs))),
           [WSyncBatch recipient \<lparr>sb_sender_id = me_id me, sb_records = map mutation_to_domain recs\<rparr>]))"

section \<open>One recipient\<close>

definition start_sync ::
  "u64 \<Rightarrow> runtime_store \<Rightarrow> me \<Rightarrow> partition_id \<Rightarrow> node_id \<Rightarrow> (node_id, sync_state) hash_map \<Rightarrow>
   bool \<times> (node_id, sync_state) hash_map \<times> worker_protocol list" where
  "start_sync now s me p recipient_id recipient_states =
     (case stable_partition_revision s p of
        None \<Rightarrow> (False, recipient_states, [])
      | Some start_revision \<Rightarrow>
          (case sync_batch s recipient_id p None me of
             (Some curr_max_key, out) \<Rightarrow>
               (False,
                hm_insert recipient_id
                  \<lparr>ss_prev_max_key = None, ss_curr_max_key = curr_max_key,
                   ss_phase = Snapshot start_revision, ss_confirmed = False,
                   ss_last_start_time = now\<rparr> recipient_states, out)
           | (None, out) \<Rightarrow>
               (stable_partition_revision s p = Some start_revision, recipient_states, out)))"

definition continue_changes ::
  "u64 \<Rightarrow> runtime_store \<Rightarrow> me \<Rightarrow> partition_id \<Rightarrow> node_id \<Rightarrow> u64 \<Rightarrow> sync_state \<Rightarrow>
   bool \<times> sync_state \<times> worker_protocol list" where
  "continue_changes now s me p recipient_id confirmed_revision ss =
     (case sync_change_batch s recipient_id p confirmed_revision me of
        (Some (pending_revision, curr_max_key), out) \<Rightarrow>
          (False,
           ss\<lparr>ss_prev_max_key := None, ss_curr_max_key := curr_max_key,
              ss_phase := Changes confirmed_revision pending_revision,
              ss_confirmed := False, ss_last_start_time := now\<rparr>, out)
      | (None, out) \<Rightarrow>
          if stable_partition_revision s p \<noteq> None
          then (True, ss\<lparr>ss_confirmed := True\<rparr>, out)
          else (False, ss, out))"

definition continue_confirmed_sync ::
  "u64 \<Rightarrow> runtime_store \<Rightarrow> me \<Rightarrow> partition_id \<Rightarrow> node_id \<Rightarrow> sync_state \<Rightarrow>
   bool \<times> sync_state \<times> worker_protocol list" where
  "continue_confirmed_sync now s me p recipient_id ss =
     (case ss_phase ss of
        Snapshot start_rev \<Rightarrow>
          (case sync_batch s recipient_id p (Some (ss_curr_max_key ss)) me of
             (Some new_max_key, out) \<Rightarrow>
               (False,
                ss\<lparr>ss_prev_max_key := Some (ss_curr_max_key ss), ss_curr_max_key := new_max_key,
                   ss_confirmed := False, ss_last_start_time := now\<rparr>, out)
           | (None, out) \<Rightarrow>
               (let (c, ss', o') = continue_changes now s me p recipient_id start_rev ss
                in (c, ss', out @ o')))
      | Changes _ pending_revision \<Rightarrow> continue_changes now s me p recipient_id pending_revision ss)"

definition retry_timed_out_sync ::
  "u64 \<times> u64 \<Rightarrow> runtime_store \<Rightarrow> me \<Rightarrow> partition_id \<Rightarrow> node_id \<Rightarrow> sync_state \<Rightarrow>
   sync_state \<times> worker_protocol list" where
  "retry_timed_out_sync now s me p recipient_id ss =
     (if fst now - ss_last_start_time ss < SYNC_TIMEOUT_MS then (ss, [])
      else
        let (retried, out) =
          (case ss_phase ss of
             Snapshot _ \<Rightarrow> sync_batch s recipient_id p (ss_prev_max_key ss) me
           | Changes confirmed_revision _ \<Rightarrow>
               (let (r, o') = sync_change_batch s recipient_id p confirmed_revision me
                in (map_option snd r, o')))
        in case retried of
             Some new_max_key \<Rightarrow>
               (ss\<lparr>ss_curr_max_key := new_max_key, ss_confirmed := False, ss_last_start_time := snd now\<rparr>, out)
           | None \<Rightarrow> (ss, out))"

definition sync_partition_to_recipient ::
  "u64 \<times> u64 \<Rightarrow> runtime_store \<Rightarrow> me \<Rightarrow> partition_id \<Rightarrow> node_id \<Rightarrow> (node_id, sync_state) hash_map \<Rightarrow>
   bool \<times> (node_id, sync_state) hash_map \<times> worker_protocol list" where
  "sync_partition_to_recipient now s me p recipient_id recipient_states =
     (case hm_get recipient_states recipient_id of
        None \<Rightarrow> start_sync (fst now) s me p recipient_id recipient_states
      | Some ss \<Rightarrow>
          if ss_confirmed ss
          then let (c, ss', out) = continue_confirmed_sync (fst now) s me p recipient_id ss
               in (c, hm_insert recipient_id ss' recipient_states, out)
          else let (ss', out) = retry_timed_out_sync now s me p recipient_id ss
               in (False, hm_insert recipient_id ss' recipient_states, out))"

section \<open>One partition\<close>

definition node_owns_partition :: "partitions \<Rightarrow> partition_id \<Rightarrow> node_id \<Rightarrow> bool" where
  "node_owns_partition parts p i =
     (case hm_get (mapping parts) p of
        None \<Rightarrow> False
      | Some q \<Rightarrow> p_master q = i \<or> i \<in> set (p_replicas q))"

definition record_completed_sync ::
  "me \<Rightarrow> partition_id \<Rightarrow> node_id \<Rightarrow> wstate \<Rightarrow> wstate \<times> worker_protocol list" where
  "record_completed_sync me p recipient_id st =
     ((if node_owns_partition (w_partitions st) p (me_id me)
       then st\<lparr>w_actual_nodes_sync_completion :=
              hm_insert p (hm_insert recipient_id (w_partitions_last_update_time st)
                             (hm_or_default [] p (w_actual_nodes_sync_completion st)))
                (w_actual_nodes_sync_completion st)\<rparr>
       else st),
      (case w_elected_leader_id st of
         None \<Rightarrow> []
       | Some leader_id \<Rightarrow> [WRemovePartitionFromReplica leader_id (me_id me) p]))"

definition sync_one ::
  "(partition_id \<Rightarrow> node_id \<Rightarrow> u64 \<times> u64) \<Rightarrow> runtime_store \<Rightarrow> me \<Rightarrow> partition_id \<Rightarrow> node_id \<Rightarrow>
   wstate \<times> worker_protocol list \<Rightarrow> wstate \<times> worker_protocol list" where
  "sync_one clk s me p recipient_id = (\<lambda>(st, out).
     let (completed, states, o1) =
           sync_partition_to_recipient (clk p recipient_id) s me p recipient_id (hm_or_default [] p (w_sync st));
         st1 = st\<lparr>w_sync := hm_insert p states (w_sync st)\<rparr>
     in if completed
        then let (st2, o2) = record_completed_sync me p recipient_id st1 in (st2, out @ o1 @ o2)
        else (st1, out @ o1))"

definition phase_revision :: "sync_state \<Rightarrow> u64" where
  "phase_revision ss =
     (case ss_phase ss of Snapshot start_rev \<Rightarrow> start_rev | Changes confirmed_revision _ \<Rightarrow> confirmed_revision)"

definition min_revision :: "u64 list \<Rightarrow> u64 option" where
  "min_revision rs = (if rs = [] then None else Some (Min (set rs)))"

definition prune_after_sync ::
  "partition_id \<Rightarrow> wstate \<times> runtime_store \<Rightarrow> wstate \<times> runtime_store" where
  "prune_after_sync p = (\<lambda>(st, s).
     case hm_get (w_sync st) p of
       Some recipient_states \<Rightarrow>
         (let kept = hm_retain (\<lambda>_ ss. \<not> ss_confirmed ss) recipient_states;
              prune_through = (case min_revision (map (\<lambda>(_, ss). phase_revision ss) kept) of
                                 Some r \<Rightarrow> Some r
                               | None \<Rightarrow> stable_partition_revision s p)
          in (st\<lparr>w_sync := hm_insert p kept (w_sync st)\<rparr>,
              case prune_through of Some r \<Rightarrow> prune_partition_changes s p r | None \<Rightarrow> s))
     | None \<Rightarrow>
         (st, case stable_partition_revision s p of
                Some rev0 \<Rightarrow> prune_partition_changes s p rev0
              | None \<Rightarrow> s))"

definition sync_partition ::
  "(partition_id \<Rightarrow> node_id \<Rightarrow> u64 \<times> u64) \<Rightarrow> me \<Rightarrow> partition_id \<Rightarrow> node_id hash_set \<Rightarrow>
   wstate \<times> runtime_store \<times> worker_protocol list \<Rightarrow> wstate \<times> runtime_store \<times> worker_protocol list" where
  "sync_partition clk me p recipient_ids = (\<lambda>(st, s, out).
     let st1 = st\<lparr>w_sync := hm_update p (hm_retain (\<lambda>r _. hm_get (w_nodes st) r \<noteq> None)) (w_sync st)\<rparr>;
         (st2, out2) = fold (sync_one clk s me p) recipient_ids (st1, out);
         (st3, s3) = prune_after_sync p (st2, s)
     in (st3, s3, out2))"

definition get_node_ids_curr_node_has_to_sync_the_partition_to ::
  "partition_id \<Rightarrow> node_id \<Rightarrow> partitions \<Rightarrow> (node_id, node) hash_map \<Rightarrow> node_id hash_set option \<Rightarrow>
   node_id hash_set" where
  "get_node_ids_curr_node_has_to_sync_the_partition_to p me parts cluster_nodes synced =
     (let node_ids =
        (if (case hm_get (old_replicas parts) p of Some old \<Rightarrow> me \<in> set old | None \<Rightarrow> False)
         then (case hm_get (mapping parts) p of
                 Some q \<Rightarrow>
                   hs_extend (if p_master q \<noteq> me then [p_master q] else [])
                     (filter (\<lambda>i. i \<noteq> me) (p_replicas q))
               | None \<Rightarrow> [])
         else if (case hm_get (old_replicas parts) p of Some old \<Rightarrow> old = [] | None \<Rightarrow> True)
         then (case hm_get (mapping parts) p of
                 Some q \<Rightarrow>
                   if p_master q = me \<or> me \<in> set (p_replicas q)
                   then (case hm_get (new_replicas parts) p of
                           Some new \<Rightarrow>
                             if me \<notin> set new
                             then (case synced of
                                     Some done' \<Rightarrow> hs_collect (filter (\<lambda>i. i \<notin> set done') new)
                                   | None \<Rightarrow> hs_collect new)
                             else []
                         | None \<Rightarrow> [])
                   else []
               | None \<Rightarrow> [])
         else [])
      in filter (\<lambda>i. hm_get cluster_nodes i \<noteq> None) node_ids)"

section \<open>All partitions\<close>

definition remove_completed_syncs_and_obsolete_partitions ::
  "me \<Rightarrow> wstate \<times> runtime_store \<Rightarrow> wstate \<times> runtime_store" where
  "remove_completed_syncs_and_obsolete_partitions me = (\<lambda>(st, s).
     (st\<lparr>w_sync := hm_retain (\<lambda>_ states. states \<noteq> []) (w_sync st)\<rparr>,
      fold (\<lambda>(p, states) s.
              if states = [] \<and> \<not> node_owns_partition (w_partitions st) p (me_id me)
              then remove_partition s p else s)
        (w_sync st) s))"

definition sync_partitions ::
  "(partition_id \<Rightarrow> node_id \<Rightarrow> u64 \<times> u64) \<Rightarrow> me \<Rightarrow> wstate \<Rightarrow> runtime_store \<Rightarrow>
   wstate \<times> runtime_store \<times> worker_protocol list" where
  "sync_partitions clk me st s =
     (let currently_synced_nodes = get_currently_synced_actual_nodes st;
          (st1, s1, out) =
            fold (\<lambda>part (st, s, out).
                    let p = PartitionId (word_of_nat part)
                    in sync_partition clk me p
                         (get_node_ids_curr_node_has_to_sync_the_partition_to p (me_id me)
                            (w_partitions st) (w_nodes st) (hm_get currently_synced_nodes p))
                         (st, s, out))
              [0..<PARTITIONS_AMOUNT] (st, s, []);
          (st2, s2) = remove_completed_syncs_and_obsolete_partitions me (st1, s1)
      in (st2, s2, out))"

section \<open>The receiving side\<close>

definition confirm_batch :: "node_id \<Rightarrow> partition_id \<times> key \<Rightarrow> wstate \<Rightarrow> wstate" where
  "confirm_batch sender_id = (\<lambda>(p, max_applied_record_key) st.
     st\<lparr>w_sync := hm_update p (hm_update sender_id
          (\<lambda>ss. if ss_curr_max_key ss = max_applied_record_key then ss\<lparr>ss_confirmed := True\<rparr> else ss))
        (w_sync st)\<rparr>)"

definition handle_sync_batch_response ::
  "(partition_id, key) hash_map \<Rightarrow> node_id \<Rightarrow> wstate \<Rightarrow> wstate" where
  "handle_sync_batch_response max_keys sender_id st = fold (confirm_batch sender_id) max_keys st"

definition apply_record :: "sync_record \<Rightarrow> runtime_store \<Rightarrow> runtime_store" where
  "apply_record r s =
     (if dr_deleted r then delete_at s (dr_key r) (dr_creation_time_ms r)
      else put s (dr_key r)
             \<lparr>sr_expiration_time_ms = dr_ttl r, sr_creation_time_ms = dr_creation_time_ms r,
              sr_value = dr_value r\<rparr>)"

definition note_max_key :: "key \<Rightarrow> (partition_id, key) hash_map \<Rightarrow> (partition_id, key) hash_map" where
  "note_max_key k m =
     (case hm_get m (key_partition k) of
        Some k0 \<Rightarrow> if k0 < k then hm_insert (key_partition k) k m else m
      | None \<Rightarrow> hm_insert (key_partition k) k m)"

definition handle_sync_batch ::
  "sync_batch_request \<Rightarrow> runtime_store \<Rightarrow> runtime_store \<times> worker_protocol list" where
  "handle_sync_batch request s =
     (let (s', max_keys) = fold (\<lambda>r (s, m). (apply_record r s, note_max_key (dr_key r) m))
                             (sb_records request) (s, [])
      in (s', [WSyncBatchResponse (sb_sender_id request) max_keys]))"

end
