(* ===== verification/Worker_Service.thy ===== *)
theory Worker_Service
  imports Worker_Sync
begin

text \<open>
  The worker's event loop (\<open>worker/service.rs\<close>): the initial messages, the tick and the dispatch of
  a protocol message. The runtime store is shared with the request handlers; a step takes it and
  returns it changed. \<^const>\<open>None\<close> is the panic of a worker configured without a manager.
\<close>

section \<open>The service\<close>

record wreadings =
  w_hb_now :: u64
  w_conn_now :: u64
  w_state_now :: u64
  w_clk :: "partition_id \<Rightarrow> node_id \<Rightarrow> u64 \<times> u64"

record wservice =
  ws_me :: me
  ws_state :: "wstate option"
  ws_runtime_store :: runtime_store

definition new_wservice :: "me \<Rightarrow> runtime_store \<Rightarrow> wservice" where
  "new_wservice me s = \<lparr>ws_me = me, ws_state = None, ws_runtime_store = s\<rparr>"

definition w_get_init_messages ::
  "config \<Rightarrow> u64 \<Rightarrow> wservice \<Rightarrow> (wservice \<times> worker_protocol list) option" where
  "w_get_init_messages config now svc =
     (case ws_state svc of
        Some _ \<Rightarrow> Some (svc, [])
      | None \<Rightarrow>
          let me = ws_me svc;
              nodes = [(me_id me, \<lparr>n_host = me_host me, n_port = me_port me, n_last_heartbeat = now,
                          n_node_type = Worker\<rparr>)]
          in (case manager_host_port config of
                None \<Rightarrow> None
              | Some (host, port) \<Rightarrow>
                  Some (svc\<lparr>ws_state := Some (new_wstate nodes)\<rparr>,
                        [WNewConnection None host (ucast port) True])))"

definition w_tick :: "wreadings \<Rightarrow> wservice \<Rightarrow> wservice \<times> worker_protocol list" where
  "w_tick rd svc =
     (case ws_state svc of
        None \<Rightarrow> (svc, [])
      | Some st \<Rightarrow>
          let (st1, out1) = w_heartbeats (ws_me svc) (w_hb_now rd) st;
              (st2, s2, out2) = sync_partitions (w_clk rd) (ws_me svc) st1 (ws_runtime_store svc)
          in (svc\<lparr>ws_state := Some st2, ws_runtime_store := s2\<rparr>, out1 @ out2))"

fun w_dispatch ::
  "me \<Rightarrow> wreadings \<Rightarrow> worker_protocol \<Rightarrow> wstate \<Rightarrow> runtime_store \<Rightarrow>
   wstate \<times> runtime_store \<times> worker_protocol list" where
  "w_dispatch me rd (WNewConnection i host port manager) st s =
     (let (st', out) = w_handle_new_connection (w_conn_now rd) i host port manager st in (st', s, out))"
| "w_dispatch me rd (WHeartbeat _ hb) st s =
     (let (st', out) = w_handle_heartbeat me (hb_id hb) (hb_ts hb) st in (st', s, out))"
| "w_dispatch me rd (WGetClusterState _) st s = (st, s, [])"
| "w_dispatch me rd (WClusterState cs) st s =
     (let (st', out) = w_handle_cluster_state me (w_state_now rd) (cs_epoch cs) (cs_leader_id cs)
                         (cs_nodes cs) (cs_partitions cs) st
      in (st', s, out))"
| "w_dispatch me rd (WNodeDisconnected i) st s = (w_handle_node_disconnected i st, s, [])"
| "w_dispatch me rd (WLeader i epoch ts) st s =
     (let (st', out) = w_handle_leader me i epoch ts st in (st', s, out))"
| "w_dispatch me rd (WRemovePartitionFromReplica _ replica_id _) st s =
     (st, s, w_handle_remove_old_partition me replica_id st)"
| "w_dispatch me rd (WSyncBatch _ request) st s =
     (let (s', out) = handle_sync_batch request s in (st, s', out))"
| "w_dispatch me rd (WSyncBatchResponse recipient_id max_keys) st s =
     (handle_sync_batch_response max_keys recipient_id st, s, [])"

definition w_process ::
  "wreadings \<Rightarrow> worker_protocol \<Rightarrow> wservice \<Rightarrow> wservice \<times> worker_protocol list" where
  "w_process rd msg svc =
     (let (svc1, out1) =
        (case ws_state svc of
           None \<Rightarrow> (svc, [])
         | Some st \<Rightarrow>
             (let (st', s', out) = w_dispatch (ws_me svc) rd msg st (ws_runtime_store svc)
              in (svc\<lparr>ws_state := Some st', ws_runtime_store := s'\<rparr>, out)));
          (svc2, out2) = w_tick rd svc1
      in (svc2, out1 @ out2))"

end
