(* ===== verification/Migration.thy ===== *)
theory Migration
  imports Worker_Service
begin

text \<open>
  Correctness of the transfer of one partition from one worker to another: when the sender declares
  the transfer complete, the recipient has, for every key of the partition the sender holds, the
  same mutation or a newer one, although clients write to both workers while the transfer runs.

  The steps of the system are those of the code: writes and reads of clients at the sender, the
  synchronisation step \<open>sync_partition\<close> with its pruning of the journal, the delivery of a batch to
  \<open>handle_sync_batch\<close>, its acknowledgement to \<open>handle_sync_batch_response\<close>, and writes at the recipient.
  Batches and acknowledgements are delivered in order and no batch times out.
\<close>

section \<open>The system of a sender and a recipient\<close>

text \<open>What a store holds of a partition, and its journal.\<close>

definition part_records :: "runtime_store \<Rightarrow> partition_id \<Rightarrow> (key \<times> mutation) list" where
  "part_records s p = (case hm_get (cache s) p of None \<Rightarrow> [] | Some ps \<Rightarrow> records ps)"

definition part_changes :: "runtime_store \<Rightarrow> partition_id \<Rightarrow> (u64 \<times> key) list" where
  "part_changes s p = (case hm_get (cache s) p of None \<Rightarrow> [] | Some ps \<Rightarrow> changes ps)"

text \<open>A change of key \<open>k\<close> after revision \<open>n\<close> is in the journal.\<close>

definition journalled :: "runtime_store \<Rightarrow> partition_id \<Rightarrow> u64 \<Rightarrow> key \<Rightarrow> bool" where
  "journalled s p n k \<longleftrightarrow> (\<exists>r. (r, k) \<in> set (part_changes s p) \<and> n < r)"

text \<open>The recipient has a mutation of the key that is at least as new as the given one, by the time of creation.\<close>

definition at_least :: "runtime_store \<Rightarrow> key \<Rightarrow> mutation \<Rightarrow> bool" where
  "at_least s k m \<longleftrightarrow> (case store_lookup s k of None \<Rightarrow> False | Some m' \<Rightarrow> version m \<le> version m')"

text \<open>
  The sender's store and state, the recipient's store, the batch on its way to the recipient and
  the acknowledgement on its way back.
\<close>

record migration =
  mi_sender :: runtime_store
  mi_state :: wstate
  mi_recipient :: runtime_store
  mi_batch :: "sync_batch_request option"
  mi_ack :: "(partition_id, key) hash_map option"

definition new_migration :: "wstate \<Rightarrow> migration" where
  "new_migration st =
     \<lparr>mi_sender = new_runtime_store, mi_state = st, mi_recipient = new_runtime_store,
      mi_batch = None, mi_ack = None\<rparr>"

definition sync_entry :: "partition_id \<Rightarrow> node_id \<Rightarrow> wstate \<Rightarrow> sync_state option" where
  "sync_entry p r st = hm_get (hm_or_default [] p (w_sync st)) r"

fun batch_for :: "node_id \<Rightarrow> worker_protocol list \<Rightarrow> sync_batch_request option" where
  "batch_for r [] = None"
| "batch_for r (WSyncBatch r' req # out) = (if r' = r then Some req else batch_for r out)"
| "batch_for r (_ # out) = batch_for r out"

fun ack_of :: "worker_protocol list \<Rightarrow> (partition_id, key) hash_map option" where
  "ack_of [WSyncBatchResponse _ max_keys] = Some max_keys"
| "ack_of _ = None"

text \<open>
  A call of \<open>sync_partition\<close> may come when the recipient's transfer is not overdue. When it is
  overdue, the lost batch is sent again, which the model has for the snapshot phase and when
  nothing of the transfer is on its way any more.
\<close>

definition recipient_on_time ::
  "u64 \<Rightarrow> sync_state option \<Rightarrow> sync_batch_request option \<Rightarrow> (partition_id, key) hash_map option \<Rightarrow> bool" where
  "recipient_on_time now entry b a \<longleftrightarrow>
     (case entry of
        None \<Rightarrow> True
      | Some ss \<Rightarrow> ss_confirmed ss \<or> now - ss_last_start_time ss < SYNC_TIMEOUT_MS \<or>
          (case ss_phase ss of Snapshot _ \<Rightarrow> b = None \<and> a = None | Changes _ _ \<Rightarrow> False))"

definition on_time :: "u64 \<Rightarrow> partition_id \<Rightarrow> node_id \<Rightarrow> migration \<Rightarrow> bool" where
  "on_time now p r mi \<longleftrightarrow>
     recipient_on_time now (sync_entry p r (mi_state mi)) (mi_batch mi) (mi_ack mi) \<and>
     (hm_get (w_nodes (mi_state mi)) r = None \<longrightarrow> mi_batch mi = None \<and> mi_ack mi = None)"

text \<open>\<open>sending b out r\<close>: what is on its way to \<open>r\<close> after the messages \<open>out\<close>.\<close>

abbreviation sending :: "sync_batch_request option \<Rightarrow> worker_protocol list \<Rightarrow> node_id \<Rightarrow> sync_batch_request option" where
  "sending b out r \<equiv> (case batch_for r out of None \<Rightarrow> b | Some req \<Rightarrow> Some req)"

inductive migration_reachable :: "me \<Rightarrow> partition_id \<Rightarrow> node_id \<Rightarrow> migration \<Rightarrow> bool" for me p r where
  migration_start:
    "w_sync st = [] \<Longrightarrow> migration_reachable me p r (new_migration st)"
| sender_write:
    "migration_reachable me p r mi \<Longrightarrow> unat (next_revision (mi_sender mi)) + 1 < 2 ^ 64 \<Longrightarrow>
     migration_reachable me p r (mi\<lparr>mi_sender := apply_mutation u (mi_sender mi)\<rparr>)"
| sender_read:
    "migration_reachable me p r mi \<Longrightarrow> unat (next_revision (mi_sender mi)) + 1 < 2 ^ 64 \<Longrightarrow>
     migration_reachable me p r (mi\<lparr>mi_sender := fst (get_versioned (mi_sender mi) now k)\<rparr>)"
| recipient_write:
    "migration_reachable me p r mi \<Longrightarrow>
     migration_reachable me p r (mi\<lparr>mi_recipient := apply_mutation u (mi_recipient mi)\<rparr>)"
| sync_call:
    "migration_reachable me p r mi \<Longrightarrow> distinct recipients \<Longrightarrow> on_time (fst (clk p r)) p r mi \<Longrightarrow>
     sync_partition clk me p recipients (mi_state mi, mi_sender mi, []) = (st, s, out) \<Longrightarrow>
     migration_reachable me p r (mi\<lparr>mi_state := st, mi_sender := s,
       mi_batch := sending (mi_batch mi) out r\<rparr>)"
| deliver_batch:
    "migration_reachable me p r mi \<Longrightarrow> mi_batch mi = Some req \<Longrightarrow>
     handle_sync_batch req (mi_recipient mi) = (s, out) \<Longrightarrow>
     migration_reachable me p r (mi\<lparr>mi_recipient := s, mi_batch := None, mi_ack := ack_of out\<rparr>)"
| deliver_ack:
    "migration_reachable me p r mi \<Longrightarrow> mi_ack mi = Some max_keys \<Longrightarrow>
     migration_reachable me p r
       (mi\<lparr>mi_state := handle_sync_batch_response max_keys r (mi_state mi), mi_ack := None\<rparr>)"
| lose_messages:
    "migration_reachable me p r mi \<Longrightarrow> migration_reachable me p r (mi\<lparr>mi_batch := None, mi_ack := None\<rparr>)"
| other_ack:
    "migration_reachable me p r mi \<Longrightarrow> r' \<noteq> r \<Longrightarrow>
     migration_reachable me p r (mi\<lparr>mi_state := handle_sync_batch_response max_keys r' (mi_state mi)\<rparr>)"
| other_event:
    "migration_reachable me p r mi \<Longrightarrow> w_sync st = w_sync (mi_state mi) \<Longrightarrow>
     migration_reachable me p r (mi\<lparr>mi_state := st\<rparr>)"

text \<open>
  The progress of a transfer: a revision of the journal and the keys the snapshot has still to
  visit, once for what the recipient has acknowledged and once for what has been sent.
\<close>

definition sent_revision :: "sync_state \<Rightarrow> u64" where
  "sent_revision ss = (case ss_phase ss of Snapshot n \<Rightarrow> n | Changes _ n \<Rightarrow> n)"

definition ahead_of_acked :: "sync_state \<Rightarrow> key \<Rightarrow> bool" where
  "ahead_of_acked ss k \<longleftrightarrow>
     (case ss_phase ss of
        Snapshot _ \<Rightarrow> (case ss_prev_max_key ss of None \<Rightarrow> True | Some c \<Rightarrow> c < k)
      | Changes _ _ \<Rightarrow> False)"

definition ahead_of_sent :: "sync_state \<Rightarrow> key \<Rightarrow> bool" where
  "ahead_of_sent ss k \<longleftrightarrow> (case ss_phase ss of Snapshot _ \<Rightarrow> ss_curr_max_key ss < k | Changes _ _ \<Rightarrow> False)"

text \<open>
  Every key of the partition is at the recipient, or waits in a list of records, or has a later
  entry in the journal, or is ahead of the snapshot.
\<close>

definition covered ::
  "runtime_store \<Rightarrow> runtime_store \<Rightarrow> partition_id \<Rightarrow> sync_record list \<Rightarrow> u64 \<Rightarrow> (key \<Rightarrow> bool) \<Rightarrow> bool" where
  "covered s rs p waiting n ahead \<longleftrightarrow>
     (\<forall>k m. store_lookup s k = Some m \<longrightarrow> key_partition k = p \<longrightarrow>
        at_least rs k m \<or> mutation_to_domain (k, m) \<in> set waiting \<or> journalled s p n k \<or> ahead k)"

text \<open>The recipient holds all the sender has of the partition, or newer.\<close>

definition transferred :: "runtime_store \<Rightarrow> runtime_store \<Rightarrow> partition_id \<Rightarrow> bool" where
  "transferred s rs p \<longleftrightarrow>
     (\<forall>k m. store_lookup s k = Some m \<longrightarrow> key_partition k = p \<longrightarrow> at_least rs k m)"

text \<open>The state of the transfer, with the batch and the acknowledgement on their way.\<close>

definition transfer_ok ::
  "runtime_store \<Rightarrow> runtime_store \<Rightarrow> partition_id \<Rightarrow> sync_state option \<Rightarrow> sync_batch_request option \<Rightarrow>
   (partition_id, key) hash_map option \<Rightarrow> bool" where
  "transfer_ok s rs p entry batch ack \<longleftrightarrow>
     (case entry of
        None \<Rightarrow> batch = None \<and> ack = None
      | Some ss \<Rightarrow>
          phase_revision ss \<le> sent_revision ss \<and> sent_revision ss \<le> next_revision s \<and>
          (ss_confirmed ss \<longrightarrow> batch = None \<and> ack = None) \<and>
          covered s rs p [] (phase_revision ss) (ahead_of_acked ss) \<and>
          (ss_confirmed ss \<or> batch \<noteq> None \<or> ack \<noteq> None \<longrightarrow>
             covered s rs p (case batch of None \<Rightarrow> [] | Some req \<Rightarrow> sb_records req)
               (sent_revision ss) (ahead_of_sent ss)))"

definition batch_wf :: "sync_batch_request option \<Rightarrow> (partition_id, key) hash_map option \<Rightarrow> bool" where
  "batch_wf batch ack \<longleftrightarrow>
     (case batch of
        None \<Rightarrow> True
      | Some req \<Rightarrow> (\<exists>us. sb_records req = map mutation_to_domain us) \<and> ack = None)"

definition migration_wf :: "partition_id \<Rightarrow> node_id \<Rightarrow> migration \<Rightarrow> bool" where
  "migration_wf p r mi \<longleftrightarrow>
     store_wf (mi_sender mi) \<and> journal_wf (mi_sender mi) \<and> store_wf (mi_recipient mi) \<and>
     hm_wf (hm_or_default [] p (w_sync (mi_state mi))) \<and> batch_wf (mi_batch mi) (mi_ack mi) \<and>
     transfer_ok (mi_sender mi) (mi_recipient mi) p (sync_entry p r (mi_state mi)) (mi_batch mi) (mi_ack mi)"

text \<open>A run of the system: one write at the sender, its batch and the acknowledgement.\<close>

definition demo_start :: migration where
  "demo_start = new_migration (new_wstate
     [(NodeId ''b'', \<lparr>n_host = ''b'', n_port = 2, n_last_heartbeat = 0, n_node_type = Worker\<rparr>)])"

definition demo_call :: "migration \<Rightarrow> migration" where
  "demo_call mi =
     (case sync_partition (\<lambda>_ _. (0, 0)) \<lparr>me_id = NodeId ''a'', me_host = ''a'', me_port = 1\<rparr> (PartitionId 1)
        [NodeId ''b''] (mi_state mi, mi_sender mi, []) of
      (st, s, out) \<Rightarrow> mi\<lparr>mi_state := st, mi_sender := s, mi_batch := sending (mi_batch mi) out (NodeId ''b'')\<rparr>)"

definition demo_deliver :: "migration \<Rightarrow> migration" where
  "demo_deliver mi =
     (case mi_batch mi of
        None \<Rightarrow> mi
      | Some req \<Rightarrow>
          (case handle_sync_batch req (mi_recipient mi) of
             (s, out) \<Rightarrow> mi\<lparr>mi_recipient := s, mi_batch := None, mi_ack := ack_of out\<rparr>))"

definition demo_ack :: "migration \<Rightarrow> migration" where
  "demo_ack mi =
     (case mi_ack mi of
        None \<Rightarrow> mi
      | Some mk \<Rightarrow> mi\<lparr>mi_state := handle_sync_batch_response mk (NodeId ''b'') (mi_state mi), mi_ack := None\<rparr>)"

definition demo_end :: migration where
  "demo_end = demo_ack (demo_deliver (demo_call
     (demo_start\<lparr>mi_sender := apply_mutation (Key 1, Delete 5) (mi_sender demo_start)\<rparr>)))"

text \<open>The records of one partition, with their largest key.\<close>

definition batch_of :: "partition_id \<Rightarrow> key \<Rightarrow> worker_protocol list \<Rightarrow> node_id \<Rightarrow> node_id \<Rightarrow> bool" where
  "batch_of p k out r i \<longleftrightarrow>
     (\<exists>us. out = [WSyncBatch r \<lparr>sb_sender_id = i, sb_records = map mutation_to_domain us\<rparr>] \<and> us \<noteq> [] \<and>
        k = Max (fst ` set us) \<and> (\<forall>u\<in>set us. key_partition (fst u) = p))"

text \<open>The state of a sender after its first batch.\<close>

definition demo_sent :: "(node_id, sync_state) hash_map" where
  "demo_sent = [(NodeId ''b'', \<lparr>ss_prev_max_key = None, ss_curr_max_key = Key 1, ss_phase = Snapshot 1,
     ss_confirmed = False, ss_last_start_time = 0\<rparr>)]"

definition demo_sent_state :: wstate where
  "demo_sent_state = (new_wstate [])\<lparr>w_sync := [(PartitionId 1, demo_sent)]\<rparr>"

abbreviation demo_reachable :: "migration \<Rightarrow> bool" where
  "demo_reachable \<equiv> migration_reachable \<lparr>me_id = NodeId ''a'', me_host = ''a'', me_port = 1\<rparr> (PartitionId 1) (NodeId ''b'')"

section \<open>Batches\<close>

lemma stored_record_eta [simp]:
  "\<lparr>sr_expiration_time_ms = sr_expiration_time_ms r, sr_creation_time_ms = sr_creation_time_ms r,
    sr_value = sr_value r\<rparr> = (r :: stored_record)"
  by (cases r) simp

lemma apply_record_of_mutation: "apply_record (mutation_to_domain u) s = apply_mutation u s"
  by (cases u; cases "snd u") (auto simp: apply_record_def apply_mutation_def)

lemma dr_key_of_mutation [simp]: "dr_key (mutation_to_domain u) = fst u"
  by (cases u; cases "snd u") auto

lemma handle_sync_batch_store:
  "fst (handle_sync_batch req s) = fold apply_record (sb_records req) s"
proof -
  have "fold (\<lambda>r (s, m). (apply_record r s, note_max_key (dr_key r) m)) rs (s, m) =
      (fold apply_record rs s, fold (\<lambda>r. note_max_key (dr_key r)) rs m)" for rs m
    by (induction rs arbitrary: s m) simp_all
  then show ?thesis by (simp add: handle_sync_batch_def)
qed

lemma handle_sync_batch_answer:
  "snd (handle_sync_batch req s) =
     [WSyncBatchResponse (sb_sender_id req) (fold (\<lambda>r. note_max_key (dr_key r)) (sb_records req) [])]"
proof -
  have "fold (\<lambda>r (s, m). (apply_record r s, note_max_key (dr_key r) m)) rs (s, m) =
      (fold apply_record rs s, fold (\<lambda>r. note_max_key (dr_key r)) rs m)" for rs m
    by (induction rs arbitrary: s m) simp_all
  then show ?thesis by (simp add: handle_sync_batch_def)
qed

lemma fold_apply_records: "fold apply_record (map mutation_to_domain us) s = fold apply_mutation us s"
  by (induction us arbitrary: s) (simp_all add: apply_record_of_mutation)

text \<open>The largest key per partition, as the response reports it.\<close>

lemma note_max_keys:
  assumes "\<forall>k\<in>set ks. key_partition k = p"
  shows "hm_get (fold note_max_key ks m) p =
     (case hm_get m p of
        Some k0 \<Rightarrow> Some (Max (insert k0 (set ks)))
      | None \<Rightarrow> if ks = [] then None else Some (Max (set ks)))"
  using assms
proof (induction ks arbitrary: m)
  case (Cons k ks)
  have get: "hm_get (note_max_key k m) p = Some (case hm_get m p of Some k0 \<Rightarrow> max k0 k | None \<Rightarrow> k)"
    using Cons.prems by (auto simp: note_max_key_def max_def split: option.split)
  have "Max (insert (max k0 k) (set ks)) = Max (insert k0 (insert k (set ks)))" for k0
    by (cases "ks = []") (simp_all add: max.assoc)
  with Cons.IH [of "note_max_key k m"] Cons.prems get show ?case
    by (cases "hm_get m p") simp_all
qed (simp split: option.split)

section \<open>Pages of the snapshot and of the journal\<close>

lemma part_wfD:
  assumes "store_wf s"
  shows "sm_wf (part_records s p)" and "sm_wf (part_changes s p)"
  using store_wf_get [OF assms, of p]
  by (auto simp: part_records_def part_changes_def part_wf_def split: option.split)

lemma lookup_in_records:
  "store_wf s \<Longrightarrow> key_partition k = p \<Longrightarrow> store_lookup s k = Some m \<longleftrightarrow> (k, m) \<in> set (part_records s p)"
  using store_wf_get [of s p]
  by (auto simp: store_lookup_def part_records_def part_wf_def hm_get_Some_set sm_wf_distinct split: option.splits)

lemma get_partition_mutations_page:
  "get_partition_mutations s p n c = take n (after_cursor c (part_records s p))"
  by (simp add: get_partition_mutations_def part_records_def after_cursor_def split: option.split)

lemma page_covers:
  assumes "store_wf s" and "(k, m) \<in> set (part_records s p)" and "case c of None \<Rightarrow> True | Some c' \<Rightarrow> c' < k"
    and "page = get_partition_mutations s p SYNC_BATCH_SIZE c"
  shows "page \<noteq> [] \<and> ((k, m) \<in> set page \<or> fst (last page) < k)"
proof -
  let ?rest = "after_cursor c (part_records s p)"
  have sm: "sm_wf (part_records s p)" using assms(1) by (rule part_wfD)
  have mem: "(k, m) \<in> set ?rest"
    using assms(2,3) by (cases c) (simp_all add: after_cursor_filter sm)
  have page: "page = take SYNC_BATCH_SIZE ?rest" using assms(4) by (simp add: get_partition_mutations_page)
  have ne: "page \<noteq> []" using mem by (auto simp: page SYNC_BATCH_SIZE_def)
  have "(k, m) \<in> set (page @ drop SYNC_BATCH_SIZE ?rest)" using mem by (simp add: page)
  moreover have "fst (last page) < k" if "(k, m) \<in> set (drop SYNC_BATCH_SIZE ?rest)"
  proof -
    have "after_cursor (Some (fst (last page))) (part_records s p) = drop SYNC_BATCH_SIZE ?rest"
      using sm.after_last_of_page [OF sm page ne] .
    with that have "(k, m) \<in> set (after_cursor (Some (fst (last page))) (part_records s p))" by simp
    then show ?thesis by (simp add: after_cursor_filter sm)
  qed
  ultimately show ?thesis using ne by auto
qed

lemma get_partition_changes_None:
  "get_partition_changes s p n SYNC_BATCH_SIZE = None \<longleftrightarrow> after_cursor (Some n) (part_changes s p) = []"
  by (auto simp: get_partition_changes_def part_changes_def SYNC_BATCH_SIZE_def Let_def after_cursor_def
      split: option.split)

lemma get_partition_changes_page:
  assumes "store_wf s" and "get_partition_changes s p n SYNC_BATCH_SIZE = Some (r, recs)"
  shows "n < r"
    and "\<And>k m. store_lookup s k = Some m \<Longrightarrow> key_partition k = p \<Longrightarrow> journalled s p n k \<Longrightarrow>
      (k, m) \<in> set recs \<or> journalled s p r k"
    and "\<And>k m. (k, m) \<in> set recs \<Longrightarrow> key_partition k = p"
    and "after_cursor (Some r) (part_changes s p) = drop SYNC_BATCH_SIZE (after_cursor (Some n) (part_changes s p))"
    and "after_cursor (Some n) (part_changes s p) \<noteq> []"
proof -
  obtain ps where ps: "hm_get (cache s) p = Some ps"
    using assms(2) by (auto simp: get_partition_changes_def split: option.splits)
  let ?rest = "after_cursor (Some n) (changes ps)" and ?ch = "take SYNC_BATCH_SIZE (after_cursor (Some n) (changes ps))"
  have pc: "part_changes s p = changes ps" by (simp add: part_changes_def ps)
  have sm: "sm_wf (changes ps)" using part_wfD(2) [OF assms(1), of p] by (simp add: pc)
  have ne: "?ch \<noteq> []" and r: "r = fst (last ?ch)"
    and recs: "recs = List.map_filter (\<lambda>(_, k). map_option (\<lambda>m. (k, m)) (hm_get (records ps) k)) ?ch"
    using assms(2) ps by (auto simp: get_partition_changes_def Let_def split: if_splits)
  show after: "after_cursor (Some r) (part_changes s p) = drop SYNC_BATCH_SIZE (after_cursor (Some n) (part_changes s p))"
    unfolding pc r by (rule sm.after_last_of_page [OF sm refl ne])
  have "last ?ch \<in> set ?rest" using ne by (meson in_set_takeD last_in_set)
  then show "n < r" by (simp add: r after_cursor_filter sm)
  show "after_cursor (Some n) (part_changes s p) \<noteq> []" using ne pc by auto
  show "(k, m) \<in> set recs \<Longrightarrow> key_partition k = p" for k m
    using part_wf_keys [OF store_wf_get [OF assms(1) ps]]
    by (auto simp: recs map_filter_def)
  show "(k, m) \<in> set recs \<or> journalled s p r k"
    if k: "store_lookup s k = Some m" "key_partition k = p" "journalled s p n k" for k m
  proof -
    obtain q where q: "(q, k) \<in> set ?rest" using k(3) by (auto simp: journalled_def pc after_cursor_filter sm)
    then have "(q, k) \<in> set ?ch \<or> (q, k) \<in> set (drop SYNC_BATCH_SIZE ?rest)"
      by (metis Un_iff append_take_drop_id set_append)
    then show ?thesis
    proof
      assume "(q, k) \<in> set ?ch"
      moreover have "hm_get (records ps) k = Some m" using k(1,2) ps by (simp add: store_lookup_def)
      ultimately show ?thesis by (force simp: recs map_filter_def)
    next
      assume "(q, k) \<in> set (drop SYNC_BATCH_SIZE ?rest)"
      then have "(q, k) \<in> set (after_cursor (Some r) (changes ps))" using after pc by simp
      then show ?thesis by (auto simp: journalled_def pc after_cursor_filter sm)
    qed
  qed
qed

text \<open>
  The loop over the journal pages. Every round drops entries, so the fuel never runs out: without
  a batch there is no record left among the keys journalled after the cursor.
\<close>

lemma next_changes_some:
  assumes "store_wf s" and "next_changes fuel s p n = Some (r, recs)"
  shows "n < r \<and> recs \<noteq> [] \<and> (\<forall>k m. (k, m) \<in> set recs \<longrightarrow> key_partition k = p) \<and>
    (\<forall>k m. store_lookup s k = Some m \<longrightarrow> key_partition k = p \<longrightarrow> journalled s p n k \<longrightarrow>
       (k, m) \<in> set recs \<or> journalled s p r k)"
  using assms(2)
proof (induction fuel arbitrary: n)
  case (Suc fuel)
  then obtain r0 recs0 where g: "get_partition_changes s p n SYNC_BATCH_SIZE = Some (r0, recs0)"
    by (auto split: option.splits)
  note page = get_partition_changes_page [OF assms(1) g]
  show ?case
  proof (cases "recs0 = []")
    case True
    with g Suc.prems have "next_changes fuel s p r0 = Some (r, recs)" by simp
    from Suc.IH [OF this] page(1) page(2) [unfolded True] show ?thesis by fastforce
  next
    case False
    with g Suc.prems page show ?thesis by auto
  qed
qed simp

lemma next_changes_enough:
  assumes "store_wf s" and "next_changes fuel s p n = None"
    and "length (after_cursor (Some n) (part_changes s p)) < fuel"
    and "store_lookup s k = Some m" and "key_partition k = p"
  shows "\<not> journalled s p n k"
  using assms(2,3)
proof (induction fuel arbitrary: n)
  case (Suc fuel)
  have sm: "sm_wf (part_changes s p)" using assms(1) by (rule part_wfD)
  show ?case
  proof (cases "get_partition_changes s p n SYNC_BATCH_SIZE")
    case None
    then have "after_cursor (Some n) (part_changes s p) = []" by (simp add: get_partition_changes_None)
    then show ?thesis by (auto simp: journalled_def after_cursor_filter sm filter_empty_conv)
  next
    case (Some pr)
    obtain r0 recs0 where pr: "pr = (r0, recs0)" by (cases pr)
    note page = get_partition_changes_page [OF assms(1) Some [unfolded pr]]
    have nil: "recs0 = []" and rest: "next_changes fuel s p r0 = None"
      using Suc.prems(1) Some pr by (auto split: if_splits)
    have "length (after_cursor (Some r0) (part_changes s p)) < length (after_cursor (Some n) (part_changes s p))"
      using page(5) by (simp add: page(4) SYNC_BATCH_SIZE_def)
    with Suc.IH [OF rest] Suc.prems(2) have "\<not> journalled s p r0 k" by simp
    with page(2) [OF assms(4,5)] nil show ?thesis by auto
  qed
qed simp

lemma journal_length_enough:
  "length (after_cursor (Some n) (part_changes s p)) < Suc (journal_length s p)"
  by (auto simp: journal_length_def part_changes_def after_cursor_def length_dropWhile_le less_Suc_eq_le
      split: option.split)

section \<open>Changes of the sender's store\<close>

lemma part_changes_mutate:
  assumes "store_wf s" and "journal_wf s" and "unat (next_revision s) + 1 < 2 ^ 64"
  shows "journalled s p n k' \<Longrightarrow> journalled (mutate s k m) p n k'"
    and "n \<le> next_revision s \<Longrightarrow> journalled (mutate s k m) (key_partition k) n k"
proof -
  let ?n = "next_revision s + 1"
  have less: "next_revision s < ?n" using assms(3) by (rule less_succ_u64)
  have fresh: "r \<noteq> ?n" if "(r, x) \<in> set (part_changes s q)" for r x q
  proof (cases "hm_get (cache s) q")
    case (Some ps)
    with that have "(r, x) \<in> set (changes ps)" by (simp add: part_changes_def)
    with journal_wf_get [OF assms(1,2) Some] have "r \<le> next_revision s" by force
    with less show ?thesis by auto
  qed (use that in \<open>simp add: part_changes_def\<close>)
  have same: "part_changes (mutate s k m) (key_partition k) = sm_insert ?n k (part_changes s (key_partition k))"
    by (simp add: part_changes_def mutate_cache_same Let_def hm_or_default_def split: option.split)
  have other: "part_changes (mutate s k m) p = part_changes s p" if "p \<noteq> key_partition k" for p
    using that by (simp add: part_changes_def mutate_cache_other)
  show "journalled (mutate s k m) p n k'" if "journalled s p n k'"
  proof -
    obtain r where r: "(r, k') \<in> set (part_changes s p)" "n < r" using \<open>journalled s p n k'\<close> by (auto simp: journalled_def)
    with fresh have "(r, k') \<in> set (part_changes (mutate s k m) p)"
      by (cases "p = key_partition k") (auto simp: same other intro: sm_insert_keeps)
    with r(2) show ?thesis by (auto simp: journalled_def)
  qed
  show "n \<le> next_revision s \<Longrightarrow> journalled (mutate s k m) (key_partition k) n k"
    using less sm_insert_mem by (fastforce simp: journalled_def same)
qed

lemma journalled_prune:
  assumes "store_wf s" and "through \<le> n"
  shows "journalled (prune_partition_changes s q through) p n k \<longleftrightarrow> journalled s p n k"
proof (cases "hm_get (cache s) p")
  case None
  then show ?thesis
    by (cases "p = q") (simp_all add: journalled_def part_changes_def prune_partition_changes_def)
next
  case (Some ps)
  then have "sm_wf (changes ps)" using store_wf_get [OF assms(1)] by (simp add: part_wf_def)
  with Some assms(2) show ?thesis
    by (cases "p = q") (auto simp: journalled_def part_changes_def prune_partition_changes_def prune_changes_filter)
qed

lemma journal_wf_prune:
  assumes "store_wf s" and "journal_wf s"
  shows "journal_wf (prune_partition_changes s p n)"
proof -
  have wf: "hm_wf (cache (prune_partition_changes s p n))"
    using store_wf_prune [OF assms(1)] by (simp add: store_wf_def)
  have "revision ps \<le> next_revision s \<and> list_all (\<lambda>e. fst e \<le> revision ps) (changes ps)"
    if "hm_get (cache (prune_partition_changes s p n)) q = Some ps" for q ps
    using that journal_wf_get [OF assms] store_wf_get [OF assms(1)]
    by (fastforce simp: prune_partition_changes_def list_all_iff prune_changes_filter part_wf_def split: if_splits)
  then show ?thesis
    using wf by (auto simp: journal_wf_def hm_all_iff prune_partition_changes_def)
qed

lemma next_revision_prune [simp]: "next_revision (prune_partition_changes s p n) = next_revision s"
  by (simp add: prune_partition_changes_def)

text \<open>A read may remove an expired record, and with the last record its partition.\<close>

lemma get_versioned_changes:
  assumes "store_wf s" and "journal_wf s" and "unat (next_revision s) + 1 < 2 ^ 64" and "s' = fst (get_versioned s now k)"
  shows "journal_wf s' \<and> next_revision s \<le> next_revision s' \<and>
    (\<forall>k' m n. store_lookup s' k' = Some m \<longrightarrow> key_partition k' = p \<longrightarrow> journalled s p n k' \<longrightarrow> journalled s' p n k')"
proof (cases "\<exists>r. store_lookup s k = Some (Put r) \<and> expired now (Put r)")
  case False
  then have "s' = s" using get_versioned_keeps [of s k now] assms(4) by auto
  with assms(2) show ?thesis by simp
next
  case True
  then obtain r ps where ps: "hm_get (cache s) (key_partition k) = Some ps"
      "hm_get (records ps) k = Some (Put r)" "sr_expiration_time_ms r \<noteq> 0" "sr_expiration_time_ms r \<le> now"
    by (auto simp: store_lookup_def split: option.splits)
  let ?n = "next_revision s + 1" and ?q = "key_partition k"
  let ?ps = "ps\<lparr>records := hm_remove k (records ps), revision := ?n\<rparr>"
  have less: "next_revision s < ?n" using assms(3) by (rule less_succ_u64)
  have s': "s' = remove_partition_if_empty (s\<lparr>cache := hm_insert ?q ?ps (cache s), next_revision := ?n\<rparr>) ?q"
    using get_versioned_expired_eq [OF ps] assms(4) by simp
  have wf': "hm_wf (cache s')" using store_wf_get_versioned [OF assms(1), of now k] assms(4) by (simp add: store_wf_def)
  have nr: "next_revision s' = ?n" by (auto simp: s' remove_partition_if_empty_def split: option.split)
  have get: "hm_get (cache s') q = (if q \<noteq> ?q then hm_get (cache s) q
      else if records ?ps = [] then None else Some ?ps)" for q
    by (auto simp: s' remove_partition_if_empty_def)
  have bounds: "revision qs \<le> next_revision s \<and> (\<forall>e\<in>set (changes qs). fst e \<le> revision qs)"
    if "hm_get (cache s) q = Some qs" for q qs
    using journal_wf_get [OF assms(1,2) that] .
  have "revision qs \<le> ?n \<and> (\<forall>e\<in>set (changes qs). fst e \<le> revision qs)"
    if "hm_get (cache s') q = Some qs" for q qs
  proof (cases "q = ?q")
    case True
    with that have "qs = ?ps" by (simp add: get split: if_splits)
    with bounds [OF ps(1)] less show ?thesis by fastforce
  next
    case False
    with that bounds less show ?thesis by (fastforce simp: get)
  qed
  then have "journal_wf s'" unfolding journal_wf_def hm_all_iff [OF wf'] nr by (simp add: list_all_iff)
  moreover have "journalled s' p n k'"
    if "store_lookup s' k' = Some m" "key_partition k' = p" "journalled s p n k'" for k' m n
    using that get [of p] ps(1)
    by (auto simp: journalled_def part_changes_def store_lookup_def split: if_splits option.splits)
  ultimately show ?thesis using nr less by auto
qed

section \<open>Coverage of the partition\<close>

lemma at_least_self: "store_lookup s k = Some m \<Longrightarrow> at_least s k m"
  by (simp add: at_least_def)

lemma newer_version:
  shows "version m \<le> version (newer version old m)"
    and "old = Some m' \<Longrightarrow> version m' \<le> version (newer version old m)"
   apply (cases old; auto)
  apply (cases old; auto)
  done

lemma at_least_write:
  assumes "store_wf s"
  shows "at_least s k m \<Longrightarrow> at_least (apply_mutation u s) k m"
    and "at_least (apply_mutation (k, m) s) k m"
proof -
  show "at_least (apply_mutation u s) k m" if least: "at_least s k m"
  proof -
    obtain m' where m': "store_lookup s k = Some m'" "version m \<le> version m'"
      using least by (auto simp: at_least_def split: option.splits)
    with newer_version(2) [OF m'(1), of "snd u"] show ?thesis
      by (auto simp: at_least_def apply_mutation_mutate store_lookup_mutate [OF assms] simp del: newer.simps)
  qed
  show "at_least (apply_mutation (k, m) s) k m"
    using newer_version(1) by (simp add: at_least_def apply_mutation_mutate store_lookup_mutate [OF assms])
qed

lemma at_least_writes:
  "store_wf s \<Longrightarrow> at_least s k m \<or> (k, m) \<in> set us \<Longrightarrow>
   store_wf (fold apply_mutation us s) \<and> at_least (fold apply_mutation us s) k m"
proof (induction us arbitrary: s)
  case (Cons u us)
  have "at_least (apply_mutation u s) k m \<or> (k, m) \<in> set us"
    using Cons.prems at_least_write by fastforce
  with Cons.IH [OF store_wf_apply [OF Cons.prems(1)]] show ?case by simp
qed simp

lemma mutation_to_domain_inj: "mutation_to_domain u = mutation_to_domain v \<longleftrightarrow> u = v"
  by (cases u; cases v; cases "snd u"; cases "snd v") (auto intro: stored_record.equality)

lemma covered_sender:
  assumes "covered s rs p w n a"
    and "\<And>k m. store_lookup s' k = Some m \<Longrightarrow> key_partition k = p \<Longrightarrow> \<not> journalled s' p n k \<Longrightarrow>
      store_lookup s k = Some m \<and> \<not> journalled s p n k"
  shows "covered s' rs p w n a"
  using assms unfolding covered_def by blast

lemma covered_recipient:
  assumes "covered s rs p w n a" and "\<And>k m. at_least rs k m \<Longrightarrow> at_least rs' k m"
  shows "covered s rs' p w n a"
  using assms unfolding covered_def by blast

lemma covered_delivered:
  assumes "covered s rs p (map mutation_to_domain us) n a" and "store_wf rs"
  shows "covered s (fold apply_mutation us rs) p [] n a"
  unfolding covered_def
proof (intro allI impI)
  fix k m
  assume k: "store_lookup s k = Some m" "key_partition k = p"
  with assms(1) have "at_least rs k m \<or> (k, m) \<in> set us \<or> journalled s p n k \<or> a k"
    by (auto simp: covered_def mutation_to_domain_inj image_iff)
  with at_least_writes [OF assms(2), of k m us]
  show "at_least (fold apply_mutation us rs) k m \<or> mutation_to_domain (k, m) \<in> set [] \<or> journalled s p n k \<or> a k"
    by blast
qed

lemma covered_sender_write:
  assumes "store_wf s" and "journal_wf s" and "unat (next_revision s) + 1 < 2 ^ 64"
    and "covered s rs p w n a" and "n \<le> next_revision s"
  shows "covered (apply_mutation u s) rs p w n a"
proof (rule covered_sender [OF assms(4)])
  fix k m
  assume k: "store_lookup (apply_mutation u s) k = Some m" "key_partition k = p"
    and not: "\<not> journalled (apply_mutation u s) p n k"
  have "k \<noteq> fst u"
    using part_changes_mutate(2) [OF assms(1-3,5)] k(2) not by (auto simp: apply_mutation_mutate)
  then show "store_lookup s k = Some m \<and> \<not> journalled s p n k"
    using k(1) not part_changes_mutate(1) [OF assms(1-3)]
    by (auto simp: apply_mutation_mutate store_lookup_mutate [OF assms(1)])
qed

lemma covered_sender_read:
  assumes "store_wf s" and "journal_wf s" and "unat (next_revision s) + 1 < 2 ^ 64"
    and "covered s rs p w n a"
  shows "covered (fst (get_versioned s now k)) rs p w n a"
proof (rule covered_sender [OF assms(4)])
  fix k' m
  assume k: "store_lookup (fst (get_versioned s now k)) k' = Some m" "key_partition k' = p"
    and not: "\<not> journalled (fst (get_versioned s now k)) p n k'"
  have "store_lookup s k' = Some m"
    using k(1) get_versioned_lookup [OF assms(1), of now k]
    by (auto simp: purge_def split: if_splits option.splits)
  with get_versioned_changes [OF assms(1-3) refl, where p = p] k not
  show "store_lookup s k' = Some m \<and> \<not> journalled s p n k'" by blast
qed

lemma covered_prune:
  "store_wf s \<Longrightarrow> through \<le> n \<Longrightarrow>
   covered (prune_partition_changes s q through) rs p w n a \<longleftrightarrow> covered s rs p w n a"
  by (simp add: covered_def journalled_prune)

section \<open>One call of the sender\<close>

lemma sync_batch_covers:
  assumes "store_wf s" and "sync_batch s r p c me = (Some k0, out)"
    and "covered s rs p [] n (\<lambda>k. case c of None \<Rightarrow> True | Some c' \<Rightarrow> c' < k)"
  shows "\<exists>us. out = [WSyncBatch r \<lparr>sb_sender_id = me_id me, sb_records = map mutation_to_domain us\<rparr>] \<and>
    covered s rs p (map mutation_to_domain us) n (\<lambda>k. k0 < k)"
proof -
  let ?page = "get_partition_mutations s p SYNC_BATCH_SIZE c"
  have out: "out = [WSyncBatch r \<lparr>sb_sender_id = me_id me, sb_records = map mutation_to_domain ?page\<rparr>]"
    and k0: "k0 = fst (last ?page)"
    using assms(2) by (auto simp: sync_batch_def Let_def split: if_splits)
  have "covered s rs p (map mutation_to_domain ?page) n (\<lambda>k. k0 < k)"
    unfolding covered_def
  proof (intro allI impI)
    fix k m
    assume k: "store_lookup s k = Some m" "key_partition k = p"
    then have "(k, m) \<in> set (part_records s p)" by (simp add: lookup_in_records [OF assms(1)])
    from page_covers [OF assms(1) this _ refl, of c] k assms(3)
    show "at_least rs k m \<or> mutation_to_domain (k, m) \<in> set (map mutation_to_domain ?page) \<or>
        journalled s p n k \<or> k0 < k"
      by (auto simp: covered_def k0)
  qed
  with out show ?thesis by blast
qed

lemma sync_batch_empty:
  assumes "store_wf s" and "sync_batch s r p c me = (None, out)"
    and "store_lookup s k = Some m" and "key_partition k = p"
  shows "out = [] \<and> \<not> (case c of None \<Rightarrow> True | Some c' \<Rightarrow> c' < k)"
proof -
  have "(k, m) \<in> set (part_records s p)" using assms(3,4) by (simp add: lookup_in_records [OF assms(1)])
  from page_covers [OF assms(1) this _ refl, of c] assms(2) show ?thesis
    by (auto simp: sync_batch_def Let_def split: if_splits)
qed

lemma next_changes_bound:
  assumes "store_wf s" and "journal_wf s" and "next_changes fuel s p n = Some (q, recs)"
  shows "q \<le> next_revision s"
  using assms(3)
proof (induction fuel arbitrary: n)
  case (Suc fuel)
  then obtain q0 recs0 where g: "get_partition_changes s p n SYNC_BATCH_SIZE = Some (q0, recs0)"
    by (auto split: option.splits)
  then obtain ps where ps: "hm_get (cache s) p = Some ps"
    by (auto simp: get_partition_changes_def split: option.splits)
  have "q0 \<in> fst ` set (changes ps)"
  proof -
    let ?ch = "take SYNC_BATCH_SIZE (after_cursor (Some n) (changes ps))"
    have "?ch \<noteq> []" "q0 = fst (last ?ch)"
      using g ps by (auto simp: get_partition_changes_def Let_def split: if_splits)
    moreover have "set ?ch \<subseteq> set (changes ps)"
      by (auto simp: after_cursor_def dest!: in_set_takeD set_dropWhileD)
    ultimately show ?thesis using last_in_set by blast
  qed
  then have "q0 \<le> next_revision s" using journal_wf_get [OF assms(1,2) ps] by force
  with g Suc show ?case by (auto split: if_splits)
qed simp

lemma sync_change_batch_covers:
  assumes "store_wf s" and "journal_wf s" and "sync_change_batch s r p n me = (Some (q, k0), out)"
    and "covered s rs p [] n (\<lambda>_. False)"
  shows "\<exists>us. out = [WSyncBatch r \<lparr>sb_sender_id = me_id me, sb_records = map mutation_to_domain us\<rparr>] \<and>
    covered s rs p (map mutation_to_domain us) q (\<lambda>_. False)"
    and "n < q" and "q \<le> next_revision s"
proof -
  obtain recs where recs: "next_changes (Suc (journal_length s p)) s p n = Some (q, recs)"
    and out: "out = [WSyncBatch r \<lparr>sb_sender_id = me_id me, sb_records = map mutation_to_domain recs\<rparr>]"
    using assms(3) unfolding sync_change_batch_def by (auto split: option.splits prod.splits simp del: next_changes.simps)
  note page = next_changes_some [OF assms(1) recs]
  from page show "n < q" by blast
  show "q \<le> next_revision s" by (rule next_changes_bound [OF assms(1,2) recs])
  have "covered s rs p (map mutation_to_domain recs) q (\<lambda>_. False)"
    using assms(4) page unfolding covered_def by (auto simp: image_iff) blast
  with out show "\<exists>us. out = [WSyncBatch r \<lparr>sb_sender_id = me_id me, sb_records = map mutation_to_domain us\<rparr>] \<and>
    covered s rs p (map mutation_to_domain us) q (\<lambda>_. False)" by blast
qed

lemma sync_change_batch_empty:
  assumes "store_wf s" and "sync_change_batch s r p n me = (None, out)"
  shows "out = []" and "covered s rs p [] n (\<lambda>_. False) \<Longrightarrow> store_lookup s k = Some m \<Longrightarrow> key_partition k = p \<Longrightarrow>
      at_least rs k m"
proof -
  have none: "next_changes (Suc (journal_length s p)) s p n = None" and "out = []"
    using assms(2) unfolding sync_change_batch_def by (auto split: option.splits prod.splits simp del: next_changes.simps)
  then show "out = []" by simp
  show "at_least rs k m"
    if "covered s rs p [] n (\<lambda>_. False)" "store_lookup s k = Some m" "key_partition k = p"
    using next_changes_enough [OF assms(1) none journal_length_enough that(2,3)] that
    by (auto simp: covered_def)
qed

lemma batch_wf_simps [simp]:
  "batch_wf None ack"
  "batch_wf (Some \<lparr>sb_sender_id = i, sb_records = map mutation_to_domain us\<rparr>) None"
  by (auto simp: batch_wf_def)

lemma ahead_eqs:
  "ahead_of_acked ss = (case ss_phase ss of
     Snapshot _ \<Rightarrow> (\<lambda>k. case ss_prev_max_key ss of None \<Rightarrow> True | Some c \<Rightarrow> c < k)
   | Changes _ _ \<Rightarrow> (\<lambda>_. False))"
  "ahead_of_sent ss = (case ss_phase ss of
     Snapshot _ \<Rightarrow> (\<lambda>k. ss_curr_max_key ss < k) | Changes _ _ \<Rightarrow> (\<lambda>_. False))"
  by (auto simp: fun_eq_iff ahead_of_acked_def ahead_of_sent_def split: sync_phase.split)

lemmas progress_simps = phase_revision_def sent_revision_def ahead_eqs

lemma continue_changes_ok:
  assumes wf: "store_wf s" "journal_wf s"
    and step: "continue_changes now s me p r n ss = (c, ss', out)"
    and ok: "ss_confirmed ss" "transfer_ok s rs p (Some ss) None None"
    and n: "n \<le> next_revision s" "covered s rs p [] n (\<lambda>_. False)"
  shows "transfer_ok s rs p (Some ss') (batch_for r out) None \<and> batch_wf (batch_for r out) None \<and>
    (c \<longrightarrow> transferred s rs p)"
proof (cases "sync_change_batch s r p n me")
  case (Pair res o')
  show ?thesis
  proof (cases res)
    case None
    note empty = sync_change_batch_empty [OF wf(1) Pair [unfolded None]]
    have "transferred s rs p" using empty(2) [OF n(2)] by (simp add: transferred_def)
    moreover have "ss' = ss" "out = []"
      using step ok(1) empty(1) Pair None by (auto simp: continue_changes_def split: if_splits)
    ultimately show ?thesis using ok by simp
  next
    case (Some qk)
    obtain q k0 where qk: "qk = (q, k0)" by (cases qk)
    note sent = sync_change_batch_covers [OF wf Pair [unfolded Some qk] n(2)]
    from sent(1) obtain us where
      us: "o' = [WSyncBatch r \<lparr>sb_sender_id = me_id me, sb_records = map mutation_to_domain us\<rparr>]"
        "covered s rs p (map mutation_to_domain us) q (\<lambda>_. False)" by blast
    from step Pair Some qk have "\<not> c" "out = o'" and ss': "ss' = ss\<lparr>ss_prev_max_key := None,
        ss_curr_max_key := k0, ss_phase := Changes n q, ss_confirmed := False, ss_last_start_time := now\<rparr>"
      by (auto simp: continue_changes_def)
    with us sent(2,3) n(2) show ?thesis
      by (simp add: transfer_ok_def progress_simps)
  qed
qed

lemma continue_confirmed_ok:
  assumes wf: "store_wf s" "journal_wf s"
    and step: "continue_confirmed_sync now s me p r ss = (c, ss', out)"
    and ok: "ss_confirmed ss" "transfer_ok s rs p (Some ss) None None"
  shows "transfer_ok s rs p (Some ss') (batch_for r out) None \<and> batch_wf (batch_for r out) None \<and>
    (c \<longrightarrow> transferred s rs p)"
proof -
  have sent: "sent_revision ss \<le> next_revision s" "covered s rs p [] (sent_revision ss) (ahead_of_sent ss)"
    using ok by (simp_all add: transfer_ok_def)
  show ?thesis
  proof (cases "ss_phase ss")
    case (Changes m n)
    with sent have n: "n \<le> next_revision s" "covered s rs p [] n (\<lambda>_. False)"
      by (simp_all add: progress_simps)
    from step Changes have "continue_changes now s me p r n ss = (c, ss', out)"
      by (simp add: continue_confirmed_sync_def)
    from continue_changes_ok [OF wf this ok n] show ?thesis .
  next
    case (Snapshot n)
    with sent have n: "n \<le> next_revision s" "covered s rs p [] n (\<lambda>k. ss_curr_max_key ss < k)"
      by (simp_all add: progress_simps)
    show ?thesis
    proof (cases "sync_batch s r p (Some (ss_curr_max_key ss)) me")
      case (Pair res o')
      show ?thesis
      proof (cases res)
        case None
        note empty = sync_batch_empty [OF wf(1) Pair [unfolded None]]
        have all: "covered s rs p [] n (\<lambda>_. False)"
          using n(2) empty unfolding covered_def by fastforce
        have "o' = []" using Pair None by (auto simp: sync_batch_def Let_def split: if_splits)
        with step Snapshot Pair None have "continue_changes now s me p r n ss = (c, ss', out)"
          by (auto simp: continue_confirmed_sync_def split: prod.splits)
        from continue_changes_ok [OF wf this ok n(1) all] show ?thesis .
      next
        case (Some k0)
        from sync_batch_covers [OF wf(1) Pair [unfolded Some], of rs n] n(2) obtain us where
          us: "o' = [WSyncBatch r \<lparr>sb_sender_id = me_id me, sb_records = map mutation_to_domain us\<rparr>]"
            "covered s rs p (map mutation_to_domain us) n (\<lambda>k. k0 < k)" by auto
        from step Snapshot Pair Some have "\<not> c" "out = o'" "ss' = ss\<lparr>ss_prev_max_key := Some (ss_curr_max_key ss),
            ss_curr_max_key := k0, ss_confirmed := False, ss_last_start_time := now\<rparr>"
          by (auto simp: continue_confirmed_sync_def)
        with us n Snapshot show ?thesis
          by (simp add: transfer_ok_def progress_simps)
      qed
    qed
  qed
qed

lemma covered_all: "covered s rs p w n (\<lambda>_. True)"
  by (simp add: covered_def)

lemma stable_revision_bound:
  assumes "store_wf s" and "journal_wf s" and "stable_partition_revision s p = Some n"
  shows "n \<le> next_revision s"
  using assms journal_wf_get [OF assms(1,2), of p]
  by (auto simp: stable_partition_revision_def stable_revision_eq split: option.splits if_splits)

lemma start_sync_ok:
  assumes wf: "store_wf s" "journal_wf s"
    and step: "start_sync now s me p r states = (c, states', out)" and new: "hm_get states r = None"
  shows "transfer_ok s rs p (hm_get states' r) (batch_for r out) None \<and> batch_wf (batch_for r out) None \<and>
    (c \<longrightarrow> transferred s rs p)"
proof (cases "stable_partition_revision s p")
  case None
  with step new show ?thesis by (simp add: start_sync_def transfer_ok_def)
next
  case (Some n)
  show ?thesis
  proof (cases "sync_batch s r p None me")
    case (Pair res o')
    show ?thesis
    proof (cases res)
      case None
      note empty = sync_batch_empty [OF wf(1) Pair [unfolded None]]
      have "o' = []" using Pair None by (auto simp: sync_batch_def Let_def split: if_splits)
      with empty step Some Pair None new show ?thesis
        by (auto simp: start_sync_def transfer_ok_def transferred_def)
    next
      case (Some k0)
      from sync_batch_covers [OF wf(1) Pair [unfolded Some], of rs n] covered_all obtain us where
        us: "o' = [WSyncBatch r \<lparr>sb_sender_id = me_id me, sb_records = map mutation_to_domain us\<rparr>]"
          "covered s rs p (map mutation_to_domain us) n (\<lambda>k. k0 < k)" by auto
      with step \<open>stable_partition_revision s p = Some n\<close> Pair Some
        stable_revision_bound [OF wf \<open>stable_partition_revision s p = Some n\<close>]
      show ?thesis
        by (auto simp: start_sync_def transfer_ok_def progress_simps covered_all)
    qed
  qed
qed

lemma retry_ok:
  assumes wf: "store_wf s"
    and step: "retry_timed_out_sync now s me p r ss = (ss', out)"
    and ok: "\<not> ss_confirmed ss" "transfer_ok s rs p (Some ss) b a" "batch_wf b a"
    and time: "fst now - ss_last_start_time ss < SYNC_TIMEOUT_MS \<or>
      (case ss_phase ss of Snapshot _ \<Rightarrow> b = None \<and> a = None | Changes _ _ \<Rightarrow> False)"
  shows "transfer_ok s rs p (Some ss') (sending b out r) a \<and> batch_wf (sending b out r) a"
proof (cases "fst now - ss_last_start_time ss < SYNC_TIMEOUT_MS")
  case True
  with step ok show ?thesis by (auto simp: retry_timed_out_sync_def)
next
  case late: False
  with time obtain n where n: "ss_phase ss = Snapshot n" "b = None" "a = None"
    by (auto split: sync_phase.splits)
  have acked: "covered s rs p [] n (\<lambda>k. case ss_prev_max_key ss of None \<Rightarrow> True | Some c \<Rightarrow> c < k)"
    and bound: "n \<le> next_revision s"
    using ok(2) n by (simp_all add: transfer_ok_def progress_simps)
  show ?thesis
  proof (cases "sync_batch s r p (ss_prev_max_key ss) me")
    case (Pair res o')
    show ?thesis
    proof (cases res)
      case None
      have "o' = []" using Pair None by (auto simp: sync_batch_def Let_def split: if_splits)
      with step late n Pair None ok show ?thesis by (auto simp: retry_timed_out_sync_def)
    next
      case (Some k0)
      from sync_batch_covers [OF wf Pair [unfolded Some] acked] obtain us where
        us: "o' = [WSyncBatch r \<lparr>sb_sender_id = me_id me, sb_records = map mutation_to_domain us\<rparr>]"
          "covered s rs p (map mutation_to_domain us) n (\<lambda>k. k0 < k)" by auto
      from step late n Pair Some have "out = o'" "ss' = ss\<lparr>ss_curr_max_key := k0, ss_confirmed := False,
          ss_last_start_time := snd now\<rparr>"
        by (auto simp: retry_timed_out_sync_def)
      with us n acked bound show ?thesis by (simp add: transfer_ok_def progress_simps)
    qed
  qed
qed

lemma sync_to_recipient_ok:
  assumes wf: "store_wf s" "journal_wf s"
    and step: "sync_partition_to_recipient now s me p r states = (c, states', out)"
    and ok: "transfer_ok s rs p (hm_get states r) b a" "batch_wf b a"
    and time: "recipient_on_time (fst now) (hm_get states r) b a"
  shows "transfer_ok s rs p (hm_get states' r) (sending b out r) a \<and> batch_wf (sending b out r) a \<and>
    (c \<longrightarrow> transferred s rs p)"
proof (cases "hm_get states r")
  case None
  then have "b = None" "a = None" using ok by (simp_all add: transfer_ok_def)
  moreover have "start_sync (fst now) s me p r states = (c, states', out)"
    using step None by (simp add: sync_partition_to_recipient_def)
  ultimately show ?thesis using start_sync_ok [OF wf _ None, of "fst now" me p c states' out rs]
    by (cases "batch_for r out") simp_all
next
  case (Some ss)
  show ?thesis
  proof (cases "ss_confirmed ss")
    case True
    then have none: "b = None" "a = None" using ok Some by (simp_all add: transfer_ok_def)
    obtain ss' where ss': "continue_confirmed_sync (fst now) s me p r ss = (c, ss', out)" "states' = hm_insert r ss' states"
      using step Some True by (auto simp: sync_partition_to_recipient_def split: prod.splits)
    from continue_confirmed_ok [OF wf ss'(1) True, of rs] ok none Some ss'(2) show ?thesis
      by (cases "batch_for r out") simp_all
  next
    case False
    then obtain ss' where ss': "retry_timed_out_sync now s me p r ss = (ss', out)" "states' = hm_insert r ss' states" "\<not> c"
      using step Some by (auto simp: sync_partition_to_recipient_def split: prod.splits)
    have "transfer_ok s rs p (Some ss') (sending b out r) a \<and> batch_wf (sending b out r) a"
      using retry_ok [OF wf(1) ss'(1) False] ok Some time False by (simp add: recipient_on_time_def)
    with ss' show ?thesis by simp
  qed
qed

section \<open>All recipients of the partition\<close>

lemma batch_for_append: "batch_for r (xs @ ys) = (case batch_for r xs of None \<Rightarrow> batch_for r ys | Some q \<Rightarrow> Some q)"
  by (induction r xs rule: batch_for.induct) auto

lemma batch_for_other:
  assumes "r' \<noteq> r" and "\<forall>m\<in>set out. \<exists>q. m = WSyncBatch r' q"
  shows "batch_for r out = None"
  using assms by (induction r out rule: batch_for.induct) auto

lemma sync_batch_to:
  "sync_batch s r p c me = (x, out) \<Longrightarrow> \<forall>m\<in>set out. \<exists>q. m = WSyncBatch r q"
  "sync_change_batch s r p n me = (y, out) \<Longrightarrow> \<forall>m\<in>set out. \<exists>q. m = WSyncBatch r q"
  by (auto simp: sync_batch_def sync_change_batch_def Let_def simp del: next_changes.simps
      split: if_splits option.splits prod.splits)

lemma continue_changes_to:
  "continue_changes now s me p r n ss = (c, ss', out) \<Longrightarrow> \<forall>m\<in>set out. \<exists>q. m = WSyncBatch r q"
  using sync_batch_to(2)
  by (fastforce simp: continue_changes_def split: prod.splits option.splits if_splits)

lemma continue_confirmed_to:
  assumes "continue_confirmed_sync now s me p r ss = (c, ss', out)"
  shows "\<forall>m\<in>set out. \<exists>q. m = WSyncBatch r q"
proof (cases "ss_phase ss")
  case (Snapshot n)
  then show ?thesis
    using assms sync_batch_to(1) [of s r p "Some (ss_curr_max_key ss)" me] continue_changes_to [of now s me p r n ss]
    by (auto simp: continue_confirmed_sync_def split: prod.splits option.splits)
next
  case (Changes _ n)
  with assms continue_changes_to show ?thesis by (simp add: continue_confirmed_sync_def)
qed

lemma retry_to:
  assumes "retry_timed_out_sync now s me p r ss = (ss', out)"
  shows "\<forall>m\<in>set out. \<exists>q. m = WSyncBatch r q"
  using assms sync_batch_to
  by (fastforce simp: retry_timed_out_sync_def Let_def split: prod.splits option.splits if_splits sync_phase.splits)

lemma start_sync_to:
  "start_sync now s me p r states = (c, states', out) \<Longrightarrow>
   (\<forall>m\<in>set out. \<exists>q. m = WSyncBatch r q) \<and> (states' = states \<or> (\<exists>ss. states' = hm_insert r ss states))"
  using sync_batch_to(1)
  by (fastforce simp: start_sync_def split: prod.splits option.splits)

lemma sync_to_recipient_frame:
  assumes "sync_partition_to_recipient now s me p r' states = (c, states', out)"
  shows "\<forall>m\<in>set out. \<exists>q. m = WSyncBatch r' q" and "hm_wf states \<Longrightarrow> hm_wf states'"
    and "r \<noteq> r' \<Longrightarrow> hm_get states' r = hm_get states r"
proof -
  have "(\<forall>m\<in>set out. \<exists>q. m = WSyncBatch r' q) \<and> (states' = states \<or> (\<exists>ss. states' = hm_insert r' ss states))"
  proof (cases "hm_get states r'")
    case None
    with assms start_sync_to show ?thesis by (simp add: sync_partition_to_recipient_def)
  next
    case (Some ss)
    with assms continue_confirmed_to [of "fst now" s me p r' ss] retry_to [of now s me p r' ss] show ?thesis
      by (auto simp: sync_partition_to_recipient_def split: if_splits prod.splits)
  qed
  then show "\<forall>m\<in>set out. \<exists>q. m = WSyncBatch r' q" "hm_wf states \<Longrightarrow> hm_wf states'"
    "r \<noteq> r' \<Longrightarrow> hm_get states' r = hm_get states r"
    by auto
qed

lemma record_completed_sync_frame:
  "record_completed_sync me p i st = (st', out) \<Longrightarrow> w_sync st' = w_sync st \<and> batch_for r out = None"
  by (auto simp: record_completed_sync_def split: if_splits option.splits)

lemma or_default_insert [simp]: "hm_or_default d p (hm_insert p v m) = v"
  by (simp add: hm_or_default_def)

lemma sync_one_cases:
  assumes "sync_one clk s me p r' (st, out) = (st', out')"
  obtains c states o1 o2 where
    "sync_partition_to_recipient (clk p r') s me p r' (hm_or_default [] p (w_sync st)) = (c, states, o1)"
    "w_sync st' = hm_insert p states (w_sync st)" "out' = out @ o1 @ o2" "\<And>r. batch_for r o2 = None"
proof -
  obtain c states o1 where
    call: "sync_partition_to_recipient (clk p r') s me p r' (hm_or_default [] p (w_sync st)) = (c, states, o1)"
    by (metis prod_cases3)
  let ?st = "st\<lparr>w_sync := hm_insert p states (w_sync st)\<rparr>"
  obtain st2 o2 where rec: "record_completed_sync me p r' ?st = (st2, o2)" by (metis surj_pair)
  show thesis
  proof (cases c)
    case True
    with assms call rec have "st' = st2" "out' = out @ o1 @ o2" by (simp_all add: sync_one_def)
    with record_completed_sync_frame [OF rec] that [OF call] show thesis by simp
  next
    case False
    with assms call have "st' = ?st" "out' = out @ o1 @ []" by (simp_all add: sync_one_def)
    with that [OF call, of "[]"] show thesis by simp
  qed
qed

lemma sync_one_other:
  assumes "sync_one clk s me p r' (st, out) = (st', out')" and "r \<noteq> r'"
  shows "sync_entry p r st' = sync_entry p r st" and "batch_for r out' = batch_for r out"
proof -
  obtain c states o1 o2 where
    call: "sync_partition_to_recipient (clk p r') s me p r' (hm_or_default [] p (w_sync st)) = (c, states, o1)"
    and w: "w_sync st' = hm_insert p states (w_sync st)" and out: "out' = out @ o1 @ o2" and o2: "\<And>r. batch_for r o2 = None"
    using sync_one_cases [OF assms(1)] by metis
  note frame = sync_to_recipient_frame [OF call]
  show "sync_entry p r st' = sync_entry p r st" using frame(3) [OF assms(2)] w by (simp add: sync_entry_def)
  show "batch_for r out' = batch_for r out"
    using batch_for_other [OF _ frame(1), of r] assms(2) out o2
    by (auto simp: batch_for_append split: option.splits)
qed

lemma sync_one_wf:
  assumes "sync_one clk s me p r' (st, out) = (st', out')" and "hm_wf (hm_or_default [] p (w_sync st))"
  shows "hm_wf (hm_or_default [] p (w_sync st'))"
proof -
  obtain c states o1 where
    "sync_partition_to_recipient (clk p r') s me p r' (hm_or_default [] p (w_sync st)) = (c, states, o1)"
    "w_sync st' = hm_insert p states (w_sync st)"
    using sync_one_cases [OF assms(1)] by metis
  with sync_to_recipient_frame(2) assms(2) show ?thesis by simp
qed

lemma sync_one_self:
  assumes wf: "store_wf s" "journal_wf s"
    and step: "sync_one clk s me p r (st, out) = (st', out')" and first: "batch_for r out = None"
    and ok: "transfer_ok s rs p (sync_entry p r st) b a" "batch_wf b a"
    and time: "recipient_on_time (fst (clk p r)) (sync_entry p r st) b a"
  shows "transfer_ok s rs p (sync_entry p r st') (sending b out' r) a \<and> batch_wf (sending b out' r) a"
  using step
proof (rule sync_one_cases)
  fix c states o1 o2
  assume call: "sync_partition_to_recipient (clk p r) s me p r (hm_or_default [] p (w_sync st)) = (c, states, o1)"
    and w: "w_sync st' = hm_insert p states (w_sync st)" and out: "out' = out @ o1 @ o2" and o2: "\<And>r. batch_for r o2 = None"
  have "sending b out' r = sending b o1 r" using first out o2 by (simp add: batch_for_append split: option.split)
  with sync_to_recipient_ok [OF wf call ok(1) [unfolded sync_entry_def] ok(2) time [unfolded sync_entry_def]] w
  show ?thesis by (simp add: sync_entry_def)
qed

lemma sync_all_wf:
  "fold (sync_one clk s me p) rcs (st, out) = (st', out') \<Longrightarrow> hm_wf (hm_or_default [] p (w_sync st)) \<Longrightarrow>
   hm_wf (hm_or_default [] p (w_sync st'))"
proof (induction rcs arbitrary: st out)
  case (Cons x rcs)
  obtain st1 out1 where one: "sync_one clk s me p x (st, out) = (st1, out1)" by (metis surj_pair)
  with Cons.prems have "fold (sync_one clk s me p) rcs (st1, out1) = (st', out')" by simp
  from Cons.IH [OF this sync_one_wf [OF one Cons.prems(2)]] show ?case .
qed simp

lemma sync_all_other:
  "fold (sync_one clk s me p) rcs (st, out) = (st', out') \<Longrightarrow> r \<notin> set rcs \<Longrightarrow>
   sync_entry p r st' = sync_entry p r st \<and> batch_for r out' = batch_for r out"
proof (induction rcs arbitrary: st out)
  case (Cons x rcs)
  obtain st1 out1 where one: "sync_one clk s me p x (st, out) = (st1, out1)" by (metis surj_pair)
  with Cons.prems have "fold (sync_one clk s me p) rcs (st1, out1) = (st', out')" by simp
  from Cons.IH [OF this] Cons.prems(2) sync_one_other [OF one] show ?case by simp
qed simp

lemma sync_all_ok:
  assumes wf: "store_wf s" "journal_wf s"
    and step: "fold (sync_one clk s me p) rcs (st, []) = (st', out')" and dist: "distinct rcs"
    and ok: "transfer_ok s rs p (sync_entry p r st) b a" "batch_wf b a"
    and time: "recipient_on_time (fst (clk p r)) (sync_entry p r st) b a"
  shows "transfer_ok s rs p (sync_entry p r st') (sending b out' r) a \<and> batch_wf (sending b out' r) a"
proof (cases "r \<in> set rcs")
  case False
  from sync_all_other [OF step False] ok show ?thesis by simp
next
  case True
  then obtain xs ys where rcs: "rcs = xs @ r # ys" by (meson split_list)
  obtain st1 out1 where xs: "fold (sync_one clk s me p) xs (st, []) = (st1, out1)" by (metis surj_pair)
  obtain st2 out2 where one: "sync_one clk s me p r (st1, out1) = (st2, out2)" by (metis surj_pair)
  have ys: "fold (sync_one clk s me p) ys (st2, out2) = (st', out')" using step xs one by (simp add: rcs)
  have notin: "r \<notin> set xs" "r \<notin> set ys" using dist by (auto simp: rcs)
  have "transfer_ok s rs p (sync_entry p r st2) (sending b out2 r) a \<and> batch_wf (sending b out2 r) a"
    using sync_one_self [OF wf one _ _ ok(2)] sync_all_other [OF xs notin(1)] ok(1) time by simp
  with sync_all_other [OF ys notin(2)] show ?thesis by simp
qed

lemma min_revision_le:
  assumes "(r, ss) \<in> set kept"
  obtains n where "min_revision (map (\<lambda>(_, ss). phase_revision ss) kept) = Some n" and "n \<le> phase_revision ss"
proof -
  let ?rs = "map (\<lambda>(_, ss). phase_revision ss) kept"
  have mem: "phase_revision ss \<in> set ?rs" using assms by force
  then have "min_revision ?rs = Some (Min (set ?rs))" by (auto simp: min_revision_def)
  moreover have "Min (set ?rs) \<le> phase_revision ss" using mem by (intro Min_le) simp_all
  ultimately show thesis using that by blast
qed

lemma prune_after_sync_ok:
  assumes wf: "store_wf s" "journal_wf s" and step: "prune_after_sync p (st, s) = (st', s')"
    and hm: "hm_wf (hm_or_default [] p (w_sync st))"
    and ok: "transfer_ok s rs p (sync_entry p r st) b a"
  shows "store_wf s' \<and> journal_wf s' \<and> hm_wf (hm_or_default [] p (w_sync st')) \<and>
    transfer_ok s' rs p (sync_entry p r st') b a"
proof (cases "hm_get (w_sync st) p")
  case None
  then have "sync_entry p r st = None" by (simp add: sync_entry_def hm_or_default_def)
  with None step ok wf show ?thesis
    by (auto simp: prune_after_sync_def transfer_ok_def sync_entry_def hm_or_default_def store_wf_prune journal_wf_prune
        split: option.splits)
next
  case (Some states)
  let ?kept = "hm_retain (\<lambda>_ ss. \<not> ss_confirmed ss) states"
  let ?through = "case min_revision (map (\<lambda>(_, ss). phase_revision ss) ?kept) of
      Some n \<Rightarrow> Some n | None \<Rightarrow> stable_partition_revision s p"
  have s': "s' = (case ?through of Some n \<Rightarrow> prune_partition_changes s p n | None \<Rightarrow> s)"
    and st': "w_sync st' = hm_insert p ?kept (w_sync st)"
    using step Some by (auto simp: prune_after_sync_def Let_def)
  have wf': "store_wf s' \<and> journal_wf s'"
    using wf by (auto simp: s' store_wf_prune journal_wf_prune split: option.split)
  have states: "hm_wf states" "sync_entry p r st = hm_get states r"
    using hm Some by (simp_all add: hm_or_default_def sync_entry_def)
  have entry: "sync_entry p r st' = (case hm_get states r of
      Some ss \<Rightarrow> if ss_confirmed ss then None else Some ss | None \<Rightarrow> None)"
    by (auto simp: sync_entry_def st' hm_get_retain [OF states(1)] split: option.split)
  have "transfer_ok s' rs p (sync_entry p r st') b a"
  proof (cases "sync_entry p r st'")
    case None
    with entry ok states(2) show ?thesis by (auto simp: transfer_ok_def split: option.splits if_splits)
  next
    case (Some ss)
    then have "hm_get ?kept r = Some ss" and old: "sync_entry p r st = Some ss"
      using entry states(2) by (auto simp: sync_entry_def st' split: option.splits if_splits)
    then have "(r, ss) \<in> set ?kept" by (meson map_of_SomeD)
    then obtain n where n: "?through = Some n" "n \<le> phase_revision ss"
      using min_revision_le by (metis option.simps(5))
    then have "s' = prune_partition_changes s p n" by (simp add: s')
    moreover have "n \<le> sent_revision ss" using ok n(2) by (auto simp: old transfer_ok_def)
    ultimately show ?thesis
      using ok n(2) by (auto simp: Some old transfer_ok_def covered_prune [OF wf(1)])
  qed
  with wf' st' states(1) show ?thesis by simp
qed

lemma sync_call_ok:
  assumes wf: "migration_wf p r mi" and "distinct rcs" and time: "on_time (fst (clk p r)) p r mi"
    and step: "sync_partition clk me p rcs (mi_state mi, mi_sender mi, []) = (st, s, out)"
  shows "migration_wf p r (mi\<lparr>mi_state := st, mi_sender := s, mi_batch := sending (mi_batch mi) out r\<rparr>)"
proof -
  let ?st = "mi_state mi" and ?s = "mi_sender mi" and ?b = "mi_batch mi" and ?a = "mi_ack mi"
  define st1 where "st1 = ?st\<lparr>w_sync := hm_update p (hm_retain (\<lambda>r _. hm_get (w_nodes ?st) r \<noteq> None)) (w_sync ?st)\<rparr>"
  obtain st2 out2 where all: "fold (sync_one clk ?s me p) rcs (st1, []) = (st2, out2)" by (metis surj_pair)
  have prune: "prune_after_sync p (st2, ?s) = (st, s)" and out: "out = out2"
    using step all by (auto simp: sync_partition_def Let_def st1_def split: prod.splits)
  have stores: "store_wf ?s" "journal_wf ?s" and hm: "hm_wf (hm_or_default [] p (w_sync ?st))"
    and ok: "transfer_ok ?s (mi_recipient mi) p (sync_entry p r ?st) ?b ?a" "batch_wf ?b ?a"
    using wf by (simp_all add: migration_wf_def)
  have states1: "hm_or_default [] p (w_sync st1) =
      hm_retain (\<lambda>r _. hm_get (w_nodes ?st) r \<noteq> None) (hm_or_default [] p (w_sync ?st))"
    by (simp add: st1_def hm_or_default_def hm_retain_def split: option.split)
  have entry1: "sync_entry p r st1 = (if hm_get (w_nodes ?st) r = None then None else sync_entry p r ?st)"
    by (simp add: sync_entry_def states1 hm_get_retain_keys)
  have ok1: "transfer_ok ?s (mi_recipient mi) p (sync_entry p r st1) ?b ?a"
    and time1: "recipient_on_time (fst (clk p r)) (sync_entry p r st1) ?b ?a"
    using ok(1) time by (auto simp: entry1 on_time_def transfer_ok_def recipient_on_time_def)
  from sync_all_ok [OF stores all \<open>distinct rcs\<close> ok1 ok(2) time1]
  have ok2: "transfer_ok ?s (mi_recipient mi) p (sync_entry p r st2) (sending ?b out r) ?a"
    and b2: "batch_wf (sending ?b out r) ?a" by (simp_all add: out)
  have hm2: "hm_wf (hm_or_default [] p (w_sync st2))"
    by (rule sync_all_wf [OF all]) (use hm in \<open>simp add: states1\<close>)
  from prune_after_sync_ok [OF stores prune hm2 ok2] b2 wf show ?thesis
    by (simp add: migration_wf_def)
qed

lemma confirm_batch_entry:
  "sync_entry p r (confirm_batch r' q st) = sync_entry p r st \<or>
   r' = r \<and> (\<exists>ss. sync_entry p r st = Some ss \<and> sync_entry p r (confirm_batch r' q st) = Some (ss\<lparr>ss_confirmed := True\<rparr>))"
  by (cases "hm_get (w_sync st) p"; cases "fst q = p"; cases "hm_get (hm_or_default [] p (w_sync st)) r")
    (auto simp: confirm_batch_def sync_entry_def hm_or_default_def split: prod.splits)

lemma response_entry:
  "sync_entry p r (handle_sync_batch_response mk r' st) = sync_entry p r st \<or>
   r' = r \<and> (\<exists>ss. sync_entry p r st = Some ss \<and>
     sync_entry p r (handle_sync_batch_response mk r' st) = Some (ss\<lparr>ss_confirmed := True\<rparr>))"
proof (induction mk arbitrary: st)
  case (Cons q mk)
  have "handle_sync_batch_response (q # mk) r' st = handle_sync_batch_response mk r' (confirm_batch r' q st)"
    by (simp add: handle_sync_batch_response_def)
  with Cons [of "confirm_batch r' q st"] confirm_batch_entry [of p r r' q st] show ?case by force
qed (simp add: handle_sync_batch_response_def)

lemma response_wf:
  "hm_wf (hm_or_default [] p (w_sync st)) \<Longrightarrow>
   hm_wf (hm_or_default [] p (w_sync (handle_sync_batch_response mk r' st)))"
proof (induction mk arbitrary: st)
  case (Cons q mk)
  have "hm_wf (hm_or_default [] p (w_sync (confirm_batch r' q st)))"
    using Cons.prems by (auto simp: confirm_batch_def hm_or_default_def split: prod.splits option.splits)
  from Cons.IH [OF this] show ?case by (simp add: handle_sync_batch_response_def)
qed (simp add: handle_sync_batch_response_def)

section \<open>The invariant\<close>

lemma transfer_ok_sender:
  assumes "transfer_ok s rs p e b a" and "next_revision s \<le> next_revision s'"
    and "\<And>w n ahead. n \<le> next_revision s \<Longrightarrow> covered s rs p w n ahead \<Longrightarrow> covered s' rs p w n ahead"
  shows "transfer_ok s' rs p e b a"
proof (cases e)
  case (Some ss)
  with assms(1) have "phase_revision ss \<le> next_revision s" "sent_revision ss \<le> next_revision s"
    by (auto simp: transfer_ok_def)
  with assms Some show ?thesis by (auto simp: transfer_ok_def)
qed (use assms(1) in \<open>simp add: transfer_ok_def\<close>)

lemma transfer_ok_recipient:
  assumes "transfer_ok s rs p e b a" and "\<And>k m. at_least rs k m \<Longrightarrow> at_least rs' k m"
  shows "transfer_ok s rs' p e b a"
  using assms(1) covered_recipient [OF _ assms(2)] by (auto simp: transfer_ok_def split: option.splits)

lemma transfer_ok_delivered:
  assumes "transfer_ok s rs p e (Some req) None" and "sb_records req = map mutation_to_domain us" and "store_wf rs"
  shows "transfer_ok s (fold apply_mutation us rs) p e None (Some mk)"
proof (cases e)
  case (Some ss)
  have "covered s (fold apply_mutation us rs) p [] (phase_revision ss) (ahead_of_acked ss)"
    using assms(1) Some covered_recipient at_least_writes [OF assms(3)] unfolding transfer_ok_def by fastforce
  moreover have "covered s (fold apply_mutation us rs) p [] (sent_revision ss) (ahead_of_sent ss)"
    using assms Some by (intro covered_delivered) (simp_all add: transfer_ok_def)
  ultimately show ?thesis using assms(1) Some by (simp add: transfer_ok_def)
qed (use assms(1) in \<open>simp add: transfer_ok_def\<close>)

lemma transfer_ok_lost: "transfer_ok s rs p e b a \<Longrightarrow> batch_wf b a \<Longrightarrow> transfer_ok s rs p e None None"
  by (auto simp: transfer_ok_def split: option.splits)

lemma transfer_ok_confirmed:
  assumes "transfer_ok s rs p (Some ss) None (Some mk)"
  shows "transfer_ok s rs p (Some (ss\<lparr>ss_confirmed := True\<rparr>)) None None"
  using assms by (cases "ss_phase ss") (simp_all add: transfer_ok_def progress_simps)

lemma deliver_batch_ok:
  assumes wf: "migration_wf p r mi" and b: "mi_batch mi = Some req"
    and step: "handle_sync_batch req (mi_recipient mi) = (s, out)"
  shows "migration_wf p r (mi\<lparr>mi_recipient := s, mi_batch := None, mi_ack := ack_of out\<rparr>)"
proof -
  obtain us where us: "sb_records req = map mutation_to_domain us" and ack: "mi_ack mi = None"
    using wf b by (auto simp: migration_wf_def batch_wf_def)
  have s: "s = fold apply_mutation us (mi_recipient mi)"
    using step us handle_sync_batch_store [of req "mi_recipient mi"] by (simp add: fold_apply_records)
  obtain mk where mk: "ack_of out = Some mk"
    using step handle_sync_batch_answer [of req "mi_recipient mi"] by simp
  have "store_wf s" using wf s at_least_writes
    by (induction us arbitrary: s rule: rev_induct) (auto simp: migration_wf_def store_wf_apply)
  with wf b ack s mk show ?thesis
    using transfer_ok_delivered [OF _ us, of "mi_sender mi" "mi_recipient mi" p "sync_entry p r (mi_state mi)" mk]
    by (simp add: migration_wf_def)
qed

lemma deliver_ack_ok:
  assumes wf: "migration_wf p r mi" and a: "mi_ack mi = Some mk"
  shows "migration_wf p r (mi\<lparr>mi_state := handle_sync_batch_response mk r (mi_state mi), mi_ack := None\<rparr>)"
proof -
  have b: "mi_batch mi = None" using wf a by (auto simp: migration_wf_def batch_wf_def split: option.splits)
  let ?ok = "\<lambda>e a. transfer_ok (mi_sender mi) (mi_recipient mi) p e None a"
  have ok: "?ok (sync_entry p r (mi_state mi)) (Some mk)" using wf a b by (simp add: migration_wf_def)
  have "?ok (sync_entry p r (handle_sync_batch_response mk r (mi_state mi))) None"
    using response_entry [of p r mk r "mi_state mi"] transfer_ok_lost [OF ok] transfer_ok_confirmed ok by auto
  with wf a b response_wf show ?thesis by (simp add: migration_wf_def)
qed

lemma migration_invariant: "migration_reachable me p r mi \<Longrightarrow> migration_wf p r mi"
proof (induction rule: migration_reachable.induct)
  case (migration_start st)
  then show ?case
    by (simp add: migration_wf_def new_migration_def sync_entry_def hm_or_default_def transfer_ok_def
        journal_wf_def new_runtime_store_def store_wf_def)
next
  case (sender_write mi u)
  have wf: "store_wf (mi_sender mi)" "journal_wf (mi_sender mi)" using sender_write by (simp_all add: migration_wf_def)
  have "next_revision (mi_sender mi) \<le> next_revision (apply_mutation u (mi_sender mi))"
    using less_succ_u64 [OF sender_write(2)] by (simp add: apply_mutation_mutate)
  with sender_write transfer_ok_sender covered_sender_write [OF wf sender_write(2)] show ?case
    by (auto simp: migration_wf_def store_wf_apply apply_mutation_mutate store_wf_mutate journal_wf_mutate)
next
  case (sender_read mi now k)
  have wf: "store_wf (mi_sender mi)" "journal_wf (mi_sender mi)" using sender_read by (simp_all add: migration_wf_def)
  note changes = get_versioned_changes [OF wf sender_read(2) refl, of now k]
  have "transfer_ok (fst (get_versioned (mi_sender mi) now k)) (mi_recipient mi) p
      (sync_entry p r (mi_state mi)) (mi_batch mi) (mi_ack mi)"
    using transfer_ok_sender covered_sender_read [OF wf sender_read(2)] changes sender_read(3)
    unfolding migration_wf_def by blast
  with sender_read(3) changes store_wf_get_versioned [OF wf(1), of now k] show ?case
    by (simp add: migration_wf_def)
next
  case (recipient_write mi u)
  then have wf: "store_wf (mi_recipient mi)" by (simp add: migration_wf_def)
  have "transfer_ok (mi_sender mi) (apply_mutation u (mi_recipient mi)) p
      (sync_entry p r (mi_state mi)) (mi_batch mi) (mi_ack mi)"
    using transfer_ok_recipient at_least_write(1) [OF wf] recipient_write(2)
    unfolding migration_wf_def by blast
  with recipient_write(2) show ?case by (simp add: migration_wf_def store_wf_apply)
next
  case (lose_messages mi)
  then show ?case using transfer_ok_lost by (auto simp: migration_wf_def)
next
  case (other_ack mi r' max_keys)
  then show ?case
    using response_entry [of p r max_keys r' "mi_state mi"] response_wf by (auto simp: migration_wf_def)
next
  case (other_event mi st)
  then show ?case by (simp add: migration_wf_def sync_entry_def)
qed (blast intro: sync_call_ok deliver_batch_ok deliver_ack_ok)+

section \<open>The recipient has everything when the transfer completes\<close>

lemma demo_steps:
  assumes "demo_reachable mi"
  shows "on_time 0 (PartitionId 1) (NodeId ''b'') mi \<Longrightarrow> demo_reachable (demo_call mi)"
    and "demo_reachable (demo_deliver mi)" and "demo_reachable (demo_ack mi)"
  using assms sync_call [OF assms, of "[NodeId ''b'']" "\<lambda>_ _. (0, 0)"] deliver_batch [OF assms] deliver_ack [OF assms]
  by (auto simp: demo_call_def demo_deliver_def demo_ack_def split: prod.split option.split)

lemma demo_end_reachable: "demo_reachable demo_end"
  unfolding demo_end_def
proof (intro demo_steps)
  show "demo_reachable (demo_start\<lparr>mi_sender := apply_mutation (Key 1, Delete 5) (mi_sender demo_start)\<rparr>)"
  proof (rule sender_write)
    show "demo_reachable demo_start"
      unfolding demo_start_def by (rule migration_start) (simp add: new_wstate_def)
  qed (simp add: demo_start_def new_migration_def new_runtime_store_def)
  show "on_time 0 (PartitionId 1) (NodeId ''b'')
     (demo_start\<lparr>mi_sender := apply_mutation (Key 1, Delete 5) (mi_sender demo_start)\<rparr>)"
    by code_simp
qed

lemma completed_transferred:
  assumes "migration_reachable me p r mi"
    and "sync_partition_to_recipient now (mi_sender mi) me p r (hm_or_default [] p (w_sync (mi_state mi))) =
      (True, states, out)"
  shows "transferred (mi_sender mi) (mi_recipient mi) p"
proof -
  let ?e = "hm_get (hm_or_default [] p (w_sync (mi_state mi))) r"
  have wf: "migration_wf p r mi" using assms(1) by (rule migration_invariant)
  have "recipient_on_time (fst now) ?e (mi_batch mi) (mi_ack mi)"
    using assms(2) by (auto simp: recipient_on_time_def sync_partition_to_recipient_def
        split: option.splits if_splits prod.splits)
  with sync_to_recipient_ok [OF _ _ assms(2), of "mi_recipient mi" "mi_batch mi" "mi_ack mi"] wf
  show ?thesis by (simp add: migration_wf_def sync_entry_def)
qed

text \<open>
  C6: when the sender declares the transfer of a partition to a recipient complete, the recipient
  holds, for every key of the partition that the sender holds, that mutation or a newer one. This
  holds at every state that writes and reads of clients at the sender, writes at the recipient,
  deliveries, losses and repeated snapshot batches lead to.
\<close>

theorem transfer_complete:
  assumes "migration_reachable me p r mi"
    and "sync_partition_to_recipient now (mi_sender mi) me p r (hm_or_default [] p (w_sync (mi_state mi))) =
      (True, states, out)"
    and "store_lookup (mi_sender mi) k = Some m" and "key_partition k = p"
  shows "\<exists>m'. store_lookup (mi_recipient mi) k = Some m' \<and> version m \<le> version m'"
proof -
  from completed_transferred [OF assms(1,2)] assms(3,4) have "at_least (mi_recipient mi) k m" by (simp add: transferred_def)
  then show ?thesis by (auto simp: at_least_def split: option.splits)
qed

theorem transfer_complete_witness:
  "\<exists>m'. store_lookup (mi_recipient demo_end) (Key 1) = Some m' \<and> version (Delete 5) \<le> version m'"
proof -
  have completed: "fst (sync_partition_to_recipient (0, 0) (mi_sender demo_end)
      \<lparr>me_id = NodeId ''a'', me_host = ''a'', me_port = 1\<rparr> (PartitionId 1) (NodeId ''b'')
      (hm_or_default [] (PartitionId 1) (w_sync (mi_state demo_end))))"
    by code_simp
  then obtain states out where call: "sync_partition_to_recipient (0, 0) (mi_sender demo_end)
      \<lparr>me_id = NodeId ''a'', me_host = ''a'', me_port = 1\<rparr> (PartitionId 1) (NodeId ''b'')
      (hm_or_default [] (PartitionId 1) (w_sync (mi_state demo_end))) = (True, states, out)"
    by (metis prod.collapse)
  show ?thesis
    by (rule transfer_complete [OF demo_end_reachable call]) code_simp+
qed

section \<open>Acknowledgements\<close>

lemma sm_wf_last: "sm_wf xs \<Longrightarrow> xs \<noteq> [] \<Longrightarrow> fst (last xs) = Max (fst ` set xs)"
proof (induction xs rule: rev_induct)
  case (snoc x xs)
  then have "\<forall>y\<in>set xs. fst y < fst x" by (auto simp: sorted_wrt_append)
  then show ?case by (intro Max_eqI [symmetric]) (auto intro: less_imp_le)
qed simp

lemma sync_batch_of:
  assumes "store_wf s" and "sync_batch s r p c me = (Some k0, out)"
  shows "batch_of p k0 out r (me_id me)"
proof -
  let ?page = "get_partition_mutations s p SYNC_BATCH_SIZE c"
  have sm: "sm_wf (part_records s p)" using assms(1) by (rule part_wfD)
  have sub: "set ?page \<subseteq> set (part_records s p)"
    by (auto simp: get_partition_mutations_page after_cursor_def split: option.splits dest!: in_set_takeD set_dropWhileD)
  have "sm_wf (after_cursor c (part_records s p))"
    using sm by (cases c) (simp_all add: after_cursor_def sorted_wrt_map sorted_wrt_filter
        after_cursor_filter [OF sm, unfolded after_cursor_def])
  then have "sm_wf ?page" by (simp add: get_partition_mutations_page take_map [symmetric] sorted_wrt_take)
  moreover have "\<forall>u\<in>set ?page. key_partition (fst u) = p"
  proof -
    have "\<forall>u\<in>set (part_records s p). key_partition (fst u) = p"
      using store_wf_get [OF assms(1), of p] 
      by (cases "hm_get (cache s) p") (auto simp: part_records_def part_wf_def list_all_iff)
    with sub show ?thesis by blast
  qed
  moreover have "?page \<noteq> []" "k0 = fst (last ?page)"
    "out = [WSyncBatch r \<lparr>sb_sender_id = me_id me, sb_records = map mutation_to_domain ?page\<rparr>]"
    using assms(2) by (auto simp: sync_batch_def Let_def split: if_splits)
  ultimately show ?thesis using sm_wf_last unfolding batch_of_def by blast
qed

lemma sync_change_batch_of:
  assumes "store_wf s" and "sync_change_batch s r p n me = (Some (q, k0), out)"
  shows "batch_of p k0 out r (me_id me)"
proof -
  obtain recs where recs: "next_changes (Suc (journal_length s p)) s p n = Some (q, recs)"
    and "k0 = Max (set (map fst recs))"
      "out = [WSyncBatch r \<lparr>sb_sender_id = me_id me, sb_records = map mutation_to_domain recs\<rparr>]"
    using assms(2) unfolding sync_change_batch_def by (auto split: option.splits prod.splits simp del: next_changes.simps)
  with next_changes_some [OF assms(1) recs] show ?thesis by (fastforce simp: batch_of_def)
qed

lemma sync_none:
  "sync_batch s r p c me = (None, out) \<Longrightarrow> out = []"
  "sync_change_batch s r p n me = (None, out) \<Longrightarrow> out = []"
  by (auto simp: sync_batch_def sync_change_batch_def Let_def simp del: next_changes.simps
      split: if_splits option.splits prod.splits)

lemma continue_changes_of:
  assumes "store_wf s" and "continue_changes now s me p r n ss = (c, ss', out)" and "out \<noteq> []"
  shows "batch_of p (ss_curr_max_key ss') out r (me_id me)"
  using assms sync_change_batch_of [OF assms(1)] sync_none(2)
  by (fastforce simp: continue_changes_def split: prod.splits option.splits if_splits)

lemma continue_confirmed_of:
  assumes "store_wf s" and "continue_confirmed_sync now s me p r ss = (c, ss', out)" and "out \<noteq> []"
  shows "batch_of p (ss_curr_max_key ss') out r (me_id me)"
proof (cases "ss_phase ss")
  case (Snapshot n)
  then show ?thesis
    using assms(2,3) sync_batch_of [OF assms(1)] sync_none(1) continue_changes_of [OF assms(1)]
    by (fastforce simp: continue_confirmed_sync_def split: prod.splits option.splits)
next
  case (Changes _ n)
  with assms continue_changes_of show ?thesis by (simp add: continue_confirmed_sync_def)
qed

lemma retry_of:
  assumes "store_wf s" and "retry_timed_out_sync now s me p r ss = (ss', out)" and "out \<noteq> []"
  shows "batch_of p (ss_curr_max_key ss') out r (me_id me)"
proof (cases "ss_phase ss")
  case (Snapshot n)
  then show ?thesis
    using assms(2,3) sync_batch_of [OF assms(1)] sync_none(1)
    by (fastforce simp: retry_timed_out_sync_def split: prod.splits option.splits if_splits)
next
  case (Changes m n)
  then show ?thesis
    using assms(2,3) sync_change_batch_of [OF assms(1)] sync_none(2)
    by (fastforce simp: retry_timed_out_sync_def split: prod.splits option.splits if_splits)
qed

lemma sync_to_recipient_of:
  assumes "store_wf s" and "sync_partition_to_recipient now s me p r states = (c, states', out)" and "out \<noteq> []"
  shows "\<exists>ss. hm_get states' r = Some ss \<and> batch_of p (ss_curr_max_key ss) out r (me_id me)"
proof (cases "hm_get states r")
  case None
  then show ?thesis
    using assms(2,3) sync_batch_of [OF assms(1)] sync_none(1)
    by (fastforce simp: sync_partition_to_recipient_def start_sync_def split: prod.splits option.splits)
next
  case (Some ss)
  show ?thesis
  proof (cases "ss_confirmed ss")
    case True
    then obtain ss' where "continue_confirmed_sync (fst now) s me p r ss = (c, ss', out)" "states' = hm_insert r ss' states"
      using assms(2) Some by (auto simp: sync_partition_to_recipient_def split: prod.splits)
    with continue_confirmed_of [OF assms(1) _ assms(3)] show ?thesis by simp
  next
    case False
    then obtain ss' where "retry_timed_out_sync now s me p r ss = (ss', out)" "states' = hm_insert r ss' states"
      using assms(2) Some by (auto simp: sync_partition_to_recipient_def split: prod.splits)
    with retry_of [OF assms(1) _ assms(3)] show ?thesis by simp
  qed
qed

lemma confirm_batch_matching:
  assumes "sync_entry p r st = Some ss"
  shows "sync_entry p r (confirm_batch r (q, k) st) =
    Some (if q = p \<and> k = ss_curr_max_key ss then ss\<lparr>ss_confirmed := True\<rparr> else ss)"
  using assms
  by (cases "hm_get (w_sync st) p") (auto simp: confirm_batch_def sync_entry_def hm_or_default_def)

lemma response_matching:
  "sync_entry p r st = Some ss \<Longrightarrow> ss_confirmed ss \<or> (p, ss_curr_max_key ss) \<in> set mk \<Longrightarrow>
   sync_entry p r (handle_sync_batch_response mk r st) = Some (ss\<lparr>ss_confirmed := True\<rparr>)"
proof (induction mk arbitrary: st ss)
  case Nil
  then show ?case by (cases ss) (simp add: handle_sync_batch_response_def)
next
  case (Cons e mk)
  obtain q k where e: "e = (q, k)" by (cases e)
  let ?ss = "if q = p \<and> k = ss_curr_max_key ss then ss\<lparr>ss_confirmed := True\<rparr> else ss"
  have "sync_entry p r (confirm_batch r e st) = Some ?ss"
    using confirm_batch_matching [OF Cons.prems(1)] by (simp add: e)
  moreover have "ss_confirmed ?ss \<or> (p, ss_curr_max_key ?ss) \<in> set mk" using Cons.prems(2) by (auto simp: e)
  ultimately have "sync_entry p r (handle_sync_batch_response mk r (confirm_batch r e st)) = Some (?ss\<lparr>ss_confirmed := True\<rparr>)"
    by (rule Cons.IH)
  then show ?case by (simp add: handle_sync_batch_response_def)
qed

lemma batch_answer:
  assumes "batch_of p k [WSyncBatch r req] r i" and "handle_sync_batch req rs = (rs', out)"
  obtains mk where "out = [WSyncBatchResponse i mk]" and "(p, k) \<in> set mk"
proof -
  obtain us where us: "req = \<lparr>sb_sender_id = i, sb_records = map mutation_to_domain us\<rparr>" "us \<noteq> []"
      "k = Max (fst ` set us)" "\<forall>u\<in>set us. key_partition (fst u) = p"
    using assms(1) by (auto simp: batch_of_def)
  let ?mk = "fold note_max_key (map fst us) []"
  have "out = [WSyncBatchResponse i ?mk]"
    using assms(2) handle_sync_batch_answer [of req rs] us(1) by (simp add: fold_map comp_def)
  moreover have "hm_get ?mk p = Some k" using note_max_keys [of "map fst us" p "[]"] us(2-4) by simp
  then have "(p, k) \<in> set ?mk" by (rule map_of_SomeD)
  ultimately show thesis by (rule that)
qed

section \<open>The other properties of a transfer\<close>

text \<open>
  A batch and its acknowledgement belong together. Whatever batch the sender emits for a
  recipient, the answer of the recipient to it, handled by the sender, confirms the transfer and
  changes nothing else of its state, so that the next call goes on with the next batch.
\<close>

theorem batch_acknowledged:
  assumes "store_wf s" and "sync_partition_to_recipient now s me p r states = (c, states', out)"
    and "batch_for r out = Some req" and "hm_get (w_sync st) p = Some states'"
    and "handle_sync_batch req rs = (rs', [WSyncBatchResponse i mk])"
  shows "i = me_id me \<and> (\<exists>ss. hm_get states' r = Some ss \<and>
    sync_entry p r (handle_sync_batch_response mk r st) = Some (ss\<lparr>ss_confirmed := True\<rparr>))"
proof -
  have "out \<noteq> []" using assms(3) by auto
  with sync_to_recipient_of [OF assms(1,2)] obtain ss where
    ss: "hm_get states' r = Some ss" "batch_of p (ss_curr_max_key ss) out r (me_id me)" by blast
  then have "batch_of p (ss_curr_max_key ss) [WSyncBatch r req] r (me_id me)" using assms(3) by (auto simp: batch_of_def)
  from batch_answer [OF this assms(5)] have answer: "i = me_id me" "(p, ss_curr_max_key ss) \<in> set mk" by auto
  have "sync_entry p r st = Some ss" using assms(4) ss(1) by (simp add: sync_entry_def hm_or_default_def)
  then show ?thesis using answer ss(1) response_matching by blast
qed

theorem batch_acknowledged_witness:
  "\<exists>ss. sync_entry (PartitionId 1) (NodeId ''b'')
     (handle_sync_batch_response [(PartitionId 1, Key 1)] (NodeId ''b'') demo_sent_state) = Some (ss\<lparr>ss_confirmed := True\<rparr>)"
proof -
  let ?s = "apply_mutation (Key 1, Delete 5) new_runtime_store"
    and ?me = "\<lparr>me_id = NodeId ''a'', me_host = ''a'', me_port = 1\<rparr>"
    and ?req = "\<lparr>sb_sender_id = NodeId ''a'', sb_records = [mutation_to_domain (Key 1, Delete 5)]\<rparr>"
  have call: "sync_partition_to_recipient (0, 0) ?s ?me (PartitionId 1) (NodeId ''b'') [] =
      (False, demo_sent, [WSyncBatch (NodeId ''b'') ?req])" by code_simp
  have wf: "store_wf ?s" by (simp add: store_wf_apply)
  have state: "hm_get (w_sync demo_sent_state) (PartitionId 1) = Some demo_sent" by (simp add: demo_sent_state_def)
  have answer: "handle_sync_batch ?req new_runtime_store =
      (fst (handle_sync_batch ?req new_runtime_store), [WSyncBatchResponse (NodeId ''a'') [(PartitionId 1, Key 1)]])"
    by code_simp
  from batch_acknowledged [OF wf call _ state answer] show ?thesis by auto
qed

lemma sync_recipients_iff:
  assumes "hm_get (mapping parts) p = Some q"
    and "old = (case hm_get (old_replicas parts) p of Some x \<Rightarrow> x | None \<Rightarrow> [])"
    and "new = (case hm_get (new_replicas parts) p of Some x \<Rightarrow> x | None \<Rightarrow> [])"
    and "fin = (case synced of Some x \<Rightarrow> x | None \<Rightarrow> [])"
  shows "i \<in> set (get_node_ids_curr_node_has_to_sync_the_partition_to p me parts nodes synced) \<longleftrightarrow>
    hm_get nodes i \<noteq> None \<and> i \<noteq> me \<and>
    (me \<in> set old \<and> (i = p_master q \<or> i \<in> set (p_replicas q)) \<or>
     old = [] \<and> (me = p_master q \<or> me \<in> set (p_replicas q)) \<and> me \<notin> set new \<and> i \<in> set new \<and> i \<notin> set fin)"
proof (cases "me \<in> set old")
  case True
  then have old: "hm_get (old_replicas parts) p = Some old" using assms(2) by (cases "hm_get (old_replicas parts) p") simp_all
  then have result: "set (get_node_ids_curr_node_has_to_sync_the_partition_to p me parts nodes synced) =
      {i. hm_get nodes i \<noteq> None \<and> i \<noteq> me \<and> (i = p_master q \<or> i \<in> set (p_replicas q))}"
    using True by (auto simp: get_node_ids_curr_node_has_to_sync_the_partition_to_def assms(1))
  have "old \<noteq> []" using True by auto
  then show ?thesis by (simp add: result True)
next
  case False
  have old: "(case hm_get (old_replicas parts) p of Some x \<Rightarrow> me \<in> set x | None \<Rightarrow> False) = False"
    using False assms(2) by (cases "hm_get (old_replicas parts) p") simp_all
  have none: "(case hm_get (old_replicas parts) p of Some x \<Rightarrow> x = [] | None \<Rightarrow> True) = (old = [])"
    using assms(2) by (cases "hm_get (old_replicas parts) p") simp_all
  have result: "set (get_node_ids_curr_node_has_to_sync_the_partition_to p me parts nodes synced) =
      {i. hm_get nodes i \<noteq> None \<and> old = [] \<and> (me = p_master q \<or> me \<in> set (p_replicas q)) \<and> me \<notin> set new \<and>
        i \<in> set new \<and> i \<notin> set fin}"
    unfolding get_node_ids_curr_node_has_to_sync_the_partition_to_def old none assms(1) assms(3,4) Let_def
    by (rule set_eqI, cases "hm_get (new_replicas parts) p"; cases synced;
        simp only: if_False option.case set_filter mem_Collect_eq; auto)
  show ?thesis unfolding result using False by blast
qed

text \<open>
  The recipients of a partition. A former owner that the leader still lists as a source sends
  the partition to every current owner; once no former owner is left, a current owner that is
  not new sends it to the new owners it has not completed yet. A worker never sends to itself,
  and only to workers it is connected to.
\<close>

theorem sync_recipients_spec:
  assumes "hm_get (mapping parts) p = Some q"
    and "old = (case hm_get (old_replicas parts) p of Some x \<Rightarrow> x | None \<Rightarrow> [])"
    and "new = (case hm_get (new_replicas parts) p of Some x \<Rightarrow> x | None \<Rightarrow> [])"
    and "fin = (case synced of Some x \<Rightarrow> x | None \<Rightarrow> [])"
  shows "i \<in> set (get_node_ids_curr_node_has_to_sync_the_partition_to p me parts nodes synced) \<longleftrightarrow>
    hm_get nodes i \<noteq> None \<and> i \<noteq> me \<and>
    (me \<in> set old \<and> (i = p_master q \<or> i \<in> set (p_replicas q)) \<or>
     old = [] \<and> (me = p_master q \<or> me \<in> set (p_replicas q)) \<and> me \<notin> set new \<and> i \<in> set new \<and> i \<notin> set fin)"
  by (rule sync_recipients_iff [OF assms])

theorem sync_recipients_spec_witness:
  "NodeId ''c'' \<in> set (get_node_ids_curr_node_has_to_sync_the_partition_to (PartitionId 3) (NodeId ''a'')
     \<lparr>mapping = [(PartitionId 3, \<lparr>p_master = NodeId ''c'', p_replicas = []\<rparr>)],
      old_replicas = [(PartitionId 3, [NodeId ''a''])], new_replicas = []\<rparr>
     [(NodeId ''c'', \<lparr>n_host = ''c'', n_port = 3, n_last_heartbeat = 0, n_node_type = Worker\<rparr>)] None)"
  by (subst sync_recipients_spec [OF _ refl refl refl, where q = "\<lparr>p_master = NodeId ''c'', p_replicas = []\<rparr>"]) auto

end
