(* ===== verification/Migration_Progress.thy ===== *)
theory Migration_Progress
  imports Migration
begin

text \<open>
  Progress of a transfer: rounds of a call of \<open>sync_partition\<close>, the delivery of its batch and of the
  acknowledgement, until the sender reports completion. Nothing is written to the partition and
  nothing is lost meanwhile.
\<close>

section \<open>Rounds\<close>

definition sync_call_step ::
  "(partition_id \<Rightarrow> node_id \<Rightarrow> u64 \<times> u64) \<Rightarrow> me \<Rightarrow> partition_id \<Rightarrow> node_id \<Rightarrow> migration \<Rightarrow>
   migration \<times> worker_protocol list" where
  "sync_call_step clk me p r mi =
     (case sync_partition clk me p [r] (mi_state mi, mi_sender mi, []) of
        (st, s, out) \<Rightarrow> (mi\<lparr>mi_state := st, mi_sender := s, mi_batch := sending (mi_batch mi) out r\<rparr>, out))"

definition deliver_step :: "migration \<Rightarrow> migration" where
  "deliver_step mi =
     (case mi_batch mi of
        None \<Rightarrow> mi
      | Some req \<Rightarrow>
          (case handle_sync_batch req (mi_recipient mi) of
             (s, out) \<Rightarrow> mi\<lparr>mi_recipient := s, mi_batch := None, mi_ack := ack_of out\<rparr>))"

definition ack_step :: "node_id \<Rightarrow> migration \<Rightarrow> migration" where
  "ack_step r mi =
     (case mi_ack mi of
        None \<Rightarrow> mi
      | Some mk \<Rightarrow> mi\<lparr>mi_state := handle_sync_batch_response mk r (mi_state mi), mi_ack := None\<rparr>)"

definition transfer_round ::
  "(partition_id \<Rightarrow> node_id \<Rightarrow> u64 \<times> u64) \<Rightarrow> me \<Rightarrow> partition_id \<Rightarrow> node_id \<Rightarrow> migration \<Rightarrow>
   migration \<times> worker_protocol list" where
  "transfer_round clk me p r mi =
     (case sync_call_step clk me p r mi of (mi', out) \<Rightarrow> (ack_step r (deliver_step mi'), out))"

fun transfer_rounds ::
  "nat \<Rightarrow> (partition_id \<Rightarrow> node_id \<Rightarrow> u64 \<times> u64) \<Rightarrow> me \<Rightarrow> partition_id \<Rightarrow> node_id \<Rightarrow> migration \<Rightarrow>
   migration \<times> worker_protocol list" where
  "transfer_rounds 0 clk me p r mi = (mi, [])"
| "transfer_rounds (Suc n) clk me p r mi =
     (case transfer_round clk me p r mi of
        (mi', out) \<Rightarrow> (case transfer_rounds n clk me p r mi' of (mi'', out') \<Rightarrow> (mi'', out @ out')))"

text \<open>
  The sender is idle: the partition has revision \<open>n\<close> and no writer, the recipient is connected, the
  leader \<open>l\<close> is known, and the last batch of the snapshot, if any, has been acknowledged.
\<close>

definition transfer_quiet :: "partition_id \<Rightarrow> node_id \<Rightarrow> node_id \<Rightarrow> u64 \<Rightarrow> migration \<Rightarrow> bool" where
  "transfer_quiet p r l n mi \<longleftrightarrow>
     store_wf (mi_sender mi) \<and> journal_wf (mi_sender mi) \<and> stable_partition_revision (mi_sender mi) p = Some n \<and>
     hm_wf (hm_or_default [] p (w_sync (mi_state mi))) \<and> hm_get (w_nodes (mi_state mi)) r \<noteq> None \<and>
     w_elected_leader_id (mi_state mi) = Some l \<and> mi_batch mi = None \<and> mi_ack mi = None \<and>
     (case sync_entry p r (mi_state mi) of
        None \<Rightarrow> True | Some ss \<Rightarrow> ss_confirmed ss \<and> ss_phase ss = Snapshot n)"

text \<open>The records the snapshot has still to visit.\<close>

definition snapshot_rest :: "partition_id \<Rightarrow> node_id \<Rightarrow> migration \<Rightarrow> (key \<times> mutation) list" where
  "snapshot_rest p r mi =
     after_cursor (map_option ss_curr_max_key (sync_entry p r (mi_state mi))) (part_records (mi_sender mi) p)"

text \<open>A sender with one record.\<close>

definition demo_loaded :: migration where
  "demo_loaded = (new_migration ((new_wstate
     [(NodeId ''b'', \<lparr>n_host = ''b'', n_port = 2, n_last_heartbeat = 0, n_node_type = Worker\<rparr>)])
       \<lparr>w_elected_leader_id := Some (NodeId ''m'')\<rparr>))
     \<lparr>mi_sender := apply_mutation (Key 1, Delete 5) new_runtime_store\<rparr>"

section \<open>One round\<close>

lemma no_changes_after_revision:
  assumes "store_wf s" and "journal_wf s" and "stable_partition_revision s p = Some n"
  shows "sync_change_batch s r p n me = (None, [])"
proof -
  have "after_cursor (Some n) (part_changes s p) = []"
  proof (cases "hm_get (cache s) p")
    case (Some ps)
    then have "n = revision ps" using assms(3) by (simp add: stable_partition_revision_def stable_revision_eq split: if_splits)
    with journal_wf_get [OF assms(1,2) Some] part_wfD(2) [OF assms(1), of p] Some show ?thesis
      by (fastforce simp: part_changes_def after_cursor_filter filter_empty_conv)
  qed (simp add: part_changes_def after_cursor_def)
  then show ?thesis by (simp add: sync_change_batch_def get_partition_changes_None [THEN iffD2])
qed

lemma quiet_call:
  assumes wf: "store_wf s" "journal_wf s" "stable_partition_revision s p = Some n"
    and entry: "case hm_get states r of None \<Rightarrow> True | Some ss \<Rightarrow> ss_confirmed ss \<and> ss_phase ss = Snapshot n"
    and call: "sync_partition_to_recipient now s me p r states = (c, states', out)"
  shows "c \<or> (\<exists>ss k. hm_get states' r = Some ss \<and> ss_phase ss = Snapshot n \<and> \<not> ss_confirmed ss \<and> ss_curr_max_key ss = k \<and>
    sync_batch s r p (map_option ss_curr_max_key (hm_get states r)) me = (Some k, out))"
proof (cases "hm_get states r")
  case None
  with call wf(3) show ?thesis
    by (auto simp: sync_partition_to_recipient_def start_sync_def split: prod.splits option.splits)
next
  case (Some ss)
  with entry call wf show ?thesis
    by (auto simp: sync_partition_to_recipient_def continue_confirmed_sync_def continue_changes_def
        no_changes_after_revision split: prod.splits option.splits)
qed

lemma sync_batch_rest:
  assumes "store_wf s" and "sync_batch s r p c me = (Some k, out)"
  shows "length (after_cursor (Some k) (part_records s p)) < length (after_cursor c (part_records s p))"
proof -
  let ?page = "get_partition_mutations s p SYNC_BATCH_SIZE c"
  have page: "?page = take SYNC_BATCH_SIZE (after_cursor c (part_records s p))" "?page \<noteq> []" "k = fst (last ?page)"
    using assms(2) by (auto simp: get_partition_mutations_page sync_batch_def Let_def split: if_splits)
  have sm: "sm_wf (part_records s p)" using assms(1) by (rule part_wfD)
  have "after_cursor (Some k) (part_records s p) = drop SYNC_BATCH_SIZE (after_cursor c (part_records s p))"
    using sm.after_last_of_page [OF sm page(1,2)] page(3) by simp
  moreover have "after_cursor c (part_records s p) \<noteq> []" using page by auto
  ultimately show ?thesis by (simp add: SYNC_BATCH_SIZE_def)
qed

lemma prune_records [simp]:
  "part_records (prune_partition_changes s q n) p = part_records s p"
  "stable_partition_revision (prune_partition_changes s q n) p = stable_partition_revision s p"
  by (cases "hm_get (cache s) p"; cases "q = p";
      simp add: part_records_def stable_partition_revision_def prune_partition_changes_def stable_revision_eq)+

lemma prune_after_sync_store:
  assumes "prune_after_sync p (st, s) = (st', s')"
  shows "part_records s' p = part_records s p" and "stable_partition_revision s' p = stable_partition_revision s p"
    and "w_nodes st' = w_nodes st" and "w_elected_leader_id st' = w_elected_leader_id st"
  using assms by (auto simp: prune_after_sync_def Let_def split: option.splits)

lemma prune_after_sync_entry:
  assumes "prune_after_sync p (st, s) = (st', s')" and "hm_wf (hm_or_default [] p (w_sync st))"
    and "sync_entry p r st = Some ss" and "\<not> ss_confirmed ss"
  shows "sync_entry p r st' = Some ss" and "hm_wf (hm_or_default [] p (w_sync st'))"
proof -
  obtain states where states: "hm_get (w_sync st) p = Some states" "hm_get states r = Some ss"
    using assms(3) by (auto simp: sync_entry_def hm_or_default_def split: option.splits)
  then have "hm_wf states" using assms(2) by (simp add: hm_or_default_def)
  with states assms(1,4) show "sync_entry p r st' = Some ss" "hm_wf (hm_or_default [] p (w_sync st'))"
    by (auto simp: prune_after_sync_def Let_def sync_entry_def hm_get_retain)
qed

text \<open>One call while nothing is written: completion, or the next page of the snapshot.\<close>

lemma quiet_sync_partition:
  assumes quiet: "transfer_quiet p r l n mi" and step: "sync_call_step clk me p r mi = (mi', out)"
  shows "WRemovePartitionFromReplica l (me_id me) p \<in> set out \<or>
    (\<exists>ss req. sync_entry p r (mi_state mi') = Some ss \<and> ss_phase ss = Snapshot n \<and>
       mi_batch mi' = Some req \<and> batch_of p (ss_curr_max_key ss) [WSyncBatch r req] r (me_id me) \<and>
       transfer_quiet p r l n (mi'\<lparr>mi_batch := None, mi_state := (mi_state mi')\<lparr>w_sync := []\<rparr>\<rparr>) \<and>
       hm_wf (hm_or_default [] p (w_sync (mi_state mi'))) \<and> mi_recipient mi' = mi_recipient mi \<and>
       length (after_cursor (Some (ss_curr_max_key ss)) (part_records (mi_sender mi') p)) < length (snapshot_rest p r mi))"
proof -
  let ?st = "mi_state mi" and ?s = "mi_sender mi"
  let ?st1 = "?st\<lparr>w_sync := hm_update p (hm_retain (\<lambda>r _. hm_get (w_nodes ?st) r \<noteq> None)) (w_sync ?st)\<rparr>"
  have q: "store_wf ?s" "journal_wf ?s" "stable_partition_revision ?s p = Some n"
      "hm_wf (hm_or_default [] p (w_sync ?st))" "hm_get (w_nodes ?st) r \<noteq> None" "w_elected_leader_id ?st = Some l"
      "mi_batch mi = None" "mi_ack mi = None"
      "case sync_entry p r ?st of None \<Rightarrow> True | Some ss \<Rightarrow> ss_confirmed ss \<and> ss_phase ss = Snapshot n"
    using quiet by (auto simp: transfer_quiet_def)
  have states1: "hm_or_default [] p (w_sync ?st1) =
      hm_retain (\<lambda>r _. hm_get (w_nodes ?st) r \<noteq> None) (hm_or_default [] p (w_sync ?st))"
    by (simp add: hm_or_default_def hm_retain_def split: option.split)
  have same: "hm_get (hm_or_default [] p (w_sync ?st1)) r = sync_entry p r ?st"
    unfolding states1 sync_entry_def using q(5) by simp
  obtain c states o1 where
    call: "sync_partition_to_recipient (clk p r) ?s me p r (hm_or_default [] p (w_sync ?st1)) = (c, states, o1)"
    by (metis prod_cases3)
  let ?st2 = "?st1\<lparr>w_sync := hm_insert p states (w_sync ?st1)\<rparr>"
  show ?thesis
  proof (cases c)
    case True
    then have "WRemovePartitionFromReplica l (me_id me) p \<in> set out"
      using step call q(6)
      by (auto simp: sync_call_step_def sync_partition_def sync_one_def record_completed_sync_def Let_def split: prod.splits)
    then show ?thesis ..
  next
    case False
    obtain st3 s3 where prune: "prune_after_sync p (?st2, ?s) = (st3, s3)" by (metis surj_pair)
    have mi': "mi' = mi\<lparr>mi_state := st3, mi_sender := s3, mi_batch := batch_for r o1\<rparr>"
      using step call prune False q(7)
      by (auto simp: sync_call_step_def sync_partition_def sync_one_def Let_def split: prod.splits option.splits)
    from quiet_call [OF q(1-3) _ call] same q(9) False obtain ss where
      ss: "hm_get states r = Some ss" "ss_phase ss = Snapshot n" "\<not> ss_confirmed ss"
        "sync_batch ?s r p (map_option ss_curr_max_key (sync_entry p r ?st)) me = (Some (ss_curr_max_key ss), o1)"
      by auto
    obtain req where req: "o1 = [WSyncBatch r req]" "batch_of p (ss_curr_max_key ss) [WSyncBatch r req] r (me_id me)"
      using sync_batch_of [OF q(1) ss(4)] by (auto simp: batch_of_def)
    have "hm_wf (hm_or_default [] p (w_sync ?st1))" unfolding states1 using q(4) by simp
    with sync_to_recipient_frame(2) [OF call] have "hm_wf states" .
    then have hm2: "hm_wf (hm_or_default [] p (w_sync ?st2))" by simp
    have e2: "sync_entry p r ?st2 = Some ss" using ss(1) by (simp add: sync_entry_def)
    note entry = prune_after_sync_entry [OF prune hm2 e2 ss(3)]
    note store = prune_after_sync_store [OF prune]
    have wf3: "store_wf s3 \<and> journal_wf s3"
      using prune q(1,2) by (auto simp: prune_after_sync_def Let_def store_wf_prune journal_wf_prune split: option.splits)
    have "length (after_cursor (Some (ss_curr_max_key ss)) (part_records s3 p)) < length (snapshot_rest p r mi)"
      using sync_batch_rest [OF q(1) ss(4)] store(1) by (simp add: snapshot_rest_def)
    with entry store wf3 q ss req show ?thesis
      by (auto simp: mi' transfer_quiet_def sync_entry_def hm_or_default_def)
  qed
qed

lemma response_nodes:
  "w_nodes (handle_sync_batch_response mk r st) = w_nodes st \<and>
   w_elected_leader_id (handle_sync_batch_response mk r st) = w_elected_leader_id st"
  unfolding handle_sync_batch_response_def
  by (induction mk arbitrary: st) (auto simp: confirm_batch_def split: prod.splits)

lemma quiet_round:
  assumes quiet: "transfer_quiet p r l n mi" and step: "transfer_round clk me p r mi = (mi2, out)"
  shows "WRemovePartitionFromReplica l (me_id me) p \<in> set out \<or>
    (transfer_quiet p r l n mi2 \<and> length (snapshot_rest p r mi2) < length (snapshot_rest p r mi))"
proof -
  obtain mi1 where call: "sync_call_step clk me p r mi = (mi1, out)" and mi2: "mi2 = ack_step r (deliver_step mi1)"
    using step by (auto simp: transfer_round_def split: prod.splits)
  from quiet_sync_partition [OF quiet call] show ?thesis
  proof (elim disjE exE conjE)
    fix ss req
    assume ss: "sync_entry p r (mi_state mi1) = Some ss" "ss_phase ss = Snapshot n" and req: "mi_batch mi1 = Some req"
      "batch_of p (ss_curr_max_key ss) [WSyncBatch r req] r (me_id me)"
      and q: "transfer_quiet p r l n (mi1\<lparr>mi_batch := None, mi_state := (mi_state mi1)\<lparr>w_sync := []\<rparr>\<rparr>)"
        "hm_wf (hm_or_default [] p (w_sync (mi_state mi1)))"
      and less: "length (after_cursor (Some (ss_curr_max_key ss)) (part_records (mi_sender mi1) p)) < length (snapshot_rest p r mi)"
    obtain rs out' where h: "handle_sync_batch req (mi_recipient mi1) = (rs, out')" by (metis surj_pair)
    obtain mk where mk: "out' = [WSyncBatchResponse (me_id me) mk]" "(p, ss_curr_max_key ss) \<in> set mk"
      by (rule batch_answer [OF req(2) h])
    have m: "mi2 = mi1\<lparr>mi_recipient := rs, mi_batch := None, mi_state := handle_sync_batch_response mk r (mi_state mi1), mi_ack := None\<rparr>"
      by (simp add: mi2 deliver_step_def ack_step_def req(1) h mk(1))
    have e: "sync_entry p r (mi_state mi2) = Some (ss\<lparr>ss_confirmed := True\<rparr>)"
      using response_matching [OF ss(1)] mk(2) by (simp add: m)
    have "transfer_quiet p r l n mi2"
      using q(1) e ss(2) response_wf [OF q(2), of mk r] response_nodes [of mk r "mi_state mi1"]
      by (simp add: transfer_quiet_def m)
    moreover have "length (snapshot_rest p r mi2) < length (snapshot_rest p r mi)"
      using less e by (simp add: snapshot_rest_def m)
    ultimately show ?thesis by blast
  qed blast
qed

section \<open>Completion\<close>

text \<open>
  C27: a transfer finishes. While nothing is written to the partition, the recipient stays connected
  and answers, and no message is lost, the sender reports the completed transfer to the leader
  after at most one round of batch and acknowledgement per record of the partition and one more.
\<close>

theorem transfer_finishes:
  assumes "transfer_quiet p r l n mi" and "length (snapshot_rest p r mi) < rounds"
  shows "WRemovePartitionFromReplica l (me_id me) p \<in> set (snd (transfer_rounds rounds clk me p r mi))"
  using assms
proof (induction rounds arbitrary: mi)
  case (Suc rounds)
  obtain mi2 out where round: "transfer_round clk me p r mi = (mi2, out)" by (metis surj_pair)
  obtain mi3 out' where rest: "transfer_rounds rounds clk me p r mi2 = (mi3, out')" by (metis surj_pair)
  from quiet_round [OF Suc.prems(1) round] Suc.IH [of mi2] Suc.prems(2) rest show ?case
    by (auto simp: round)
qed simp

theorem transfer_finishes_witness:
  "WRemovePartitionFromReplica (NodeId ''m'') (NodeId ''a'') (PartitionId 1) \<in>
     set (snd (transfer_rounds 2 (\<lambda>_ _. (0, 0)) \<lparr>me_id = NodeId ''a'', me_host = ''a'', me_port = 1\<rparr>
       (PartitionId 1) (NodeId ''b'') demo_loaded))"
proof -
  have quiet: "transfer_quiet (PartitionId 1) (NodeId ''b'') (NodeId ''m'') 1 demo_loaded" by code_simp
  have "length (snapshot_rest (PartitionId 1) (NodeId ''b'') demo_loaded) < 2" by code_simp
  from transfer_finishes [OF quiet this, of "\<lparr>me_id = NodeId ''a'', me_host = ''a'', me_port = 1\<rparr>"] show ?thesis by simp
qed

end
