(* ===== verification/Worker_Grpc.thy ===== *)
theory Worker_Grpc
  imports Sessions Worker_Service
begin

text \<open>
  The worker's gRPC layer (\<open>worker/grpc.rs\<close> and \<open>worker/grpc/\<close>): requests of clients on the shared
  runtime store, the sessions with managers and with other workers, and the events of each.
  The conventions are those of the manager's layer. The background task of \<open>worker/mod.rs\<close> that
  removes expired records calls \<open>remove_expired\<close>.
\<close>

section \<open>Client requests\<close>

text \<open>
  One request of a client stream; \<open>now\<close> and \<open>now2\<close> are the clock readings of \<open>get_versioned\<close> and of
  a delete without a time. A put that lacks its value or its time falls through to the last arm of
  the match and is answered as a read.
\<close>

definition handle_client_request ::
  "u64 \<Rightarrow> u64 \<Rightarrow> client_request \<Rightarrow> runtime_store \<Rightarrow> runtime_store \<times> worker_response" where
  "handle_client_request now now2 r s =
     (let answer = (\<lambda>rec del. \<lparr>wr_request_id = cr_id r, wr_record = rec, wr_deletion_time = del\<rparr>);
          read = (let (s', res) = get_versioned s now (Key (cr_key r))
                  in case res of
                       Some (Put q) \<Rightarrow>
                         (s', answer (Some \<lparr>gr_key = cr_key r, gr_value = sr_value q,
                                gr_ttl = sr_expiration_time_ms q, gr_creation_time = sr_creation_time_ms q,
                                gr_deleted = False\<rparr>) None)
                     | Some (Delete t) \<Rightarrow> (s', answer None (Some t))
                     | None \<Rightarrow> (s', answer None None))
      in if cr_request_type r = REQUEST_PUT \<and> cr_value r \<noteq> None \<and> cr_creation_time r \<noteq> None
         then (put s (Key (cr_key r))
                 \<lparr>sr_expiration_time_ms = (case cr_ttl r of Some t \<Rightarrow> t | None \<Rightarrow> 0),
                  sr_creation_time_ms = the (cr_creation_time r), sr_value = the (cr_value r)\<rparr>,
               answer None None)
         else if cr_request_type r = REQUEST_DELETE
         then (delete_at s (Key (cr_key r)) (case cr_creation_time r of Some t \<Rightarrow> t | None \<Rightarrow> now2),
               answer None None)
         else read)"

section \<open>State and output\<close>

record wgrpc =
  wg_me :: me
  wg_manager_sessions :: "(node_id, worker_event session) hash_map"
  wg_worker_sessions :: "(node_id, peer_event session) hash_map"
  wg_tx :: "worker_protocol list"
  wg_dials :: "(string \<times> u32 \<times> bool) list"

definition new_wgrpc :: "me \<Rightarrow> wgrpc" where
  "new_wgrpc me = \<lparr>wg_me = me, wg_manager_sessions = [], wg_worker_sessions = [], wg_tx = [], wg_dials = []\<rparr>"

definition wg_to_manager :: "worker_event \<Rightarrow> node_id \<Rightarrow> wgrpc \<Rightarrow> wgrpc" where
  "wg_to_manager event i g =
     (let (sessions, gone) = handle_common event i (wg_manager_sessions g)
      in g\<lparr>wg_manager_sessions := sessions, wg_tx := wg_tx g @ map WNodeDisconnected gone\<rparr>)"

definition wg_to_worker :: "peer_event \<Rightarrow> node_id \<Rightarrow> wgrpc \<Rightarrow> wgrpc" where
  "wg_to_worker event i g =
     (let (sessions, gone) = handle_common event i (wg_worker_sessions g)
      in g\<lparr>wg_worker_sessions := sessions, wg_tx := wg_tx g @ map WNodeDisconnected gone\<rparr>)"

definition sync_record_to_grpc :: "sync_record \<Rightarrow> grpc_record" where
  "sync_record_to_grpc r =
     \<lparr>gr_key = key_value (dr_key r), gr_value = dr_value r, gr_ttl = dr_ttl r,
      gr_creation_time = dr_creation_time_ms r, gr_deleted = dr_deleted r\<rparr>"

definition wg_output_sync_batch :: "node_id \<Rightarrow> sync_batch_request \<Rightarrow> wgrpc \<Rightarrow> wgrpc" where
  "wg_output_sync_batch recipient_id request g =
     wg_to_worker (PESyncBatchRequest (map sync_record_to_grpc (sb_records request))) recipient_id g"

definition wg_output_sync_batch_response :: "node_id \<Rightarrow> (partition_id, key) hash_map \<Rightarrow> wgrpc \<Rightarrow> wgrpc" where
  "wg_output_sync_batch_response recipient_id max_keys g =
     wg_to_worker (PESyncBatchResponse
       (hm_collect (map (\<lambda>(p, k). (ucast (partition_number p), key_value k)) max_keys))) recipient_id g"

definition wg_output_remove_partition_from_replica ::
  "node_id \<Rightarrow> node_id \<Rightarrow> partition_id \<Rightarrow> wgrpc \<Rightarrow> wgrpc" where
  "wg_output_remove_partition_from_replica recipient_id replica_id p g =
     wg_to_manager (WERemovePartitionFromReplica (node_id_to_string replica_id) (ucast (partition_number p)))
       recipient_id g"

definition wg_output_get_cluster_state :: "node_id \<Rightarrow> wgrpc \<Rightarrow> wgrpc" where
  "wg_output_get_cluster_state i g = wg_to_manager WEGetClusterState i g"

definition wg_output_heartbeat :: "node_id \<Rightarrow> node_id \<Rightarrow> u64 \<Rightarrow> wgrpc \<Rightarrow> wgrpc" where
  "wg_output_heartbeat i n ts g = wg_to_manager (WEHeartbeat (node_id_to_string n) ts) i g"

fun wg_output :: "worker_protocol \<Rightarrow> wgrpc \<Rightarrow> wgrpc option" where
  "wg_output (WSyncBatchResponse recipient_id max_keys) g =
     Some (wg_output_sync_batch_response recipient_id max_keys g)"
| "wg_output (WSyncBatch recipient_id request) g = Some (wg_output_sync_batch recipient_id request g)"
| "wg_output (WRemovePartitionFromReplica i replica_id p) g =
     Some (wg_output_remove_partition_from_replica i replica_id p g)"
| "wg_output (WHeartbeat i hb) g = Some (wg_output_heartbeat i (hb_id hb) (hb_ts hb) g)"
| "wg_output (WGetClusterState i) g = Some (wg_output_get_cluster_state i g)"
| "wg_output (WNewConnection _ host port manager) g =
     Some (g\<lparr>wg_dials := wg_dials g @ [(host, port, manager)]\<rparr>)"
| "wg_output (WClusterState _) g = Some g"
| "wg_output (WLeader _ _ _) g = Some g"
| "wg_output (WNodeDisconnected _) g = None"

section \<open>Input\<close>

definition grpc_record_to_sync :: "grpc_record \<Rightarrow> sync_record" where
  "grpc_record_to_sync r =
     \<lparr>dr_key = Key (gr_key r), dr_value = gr_value r, dr_ttl = gr_ttl r,
      dr_creation_time_ms = gr_creation_time r, dr_deleted = gr_deleted r\<rparr>"

fun wg_on_peer_event :: "me \<Rightarrow> node_id \<Rightarrow> peer_event \<Rightarrow> worker_protocol action" where
  "wg_on_peer_event me i (PESyncBatchRequest rs) =
     Emit (WSyncBatch (me_id me) \<lparr>sb_sender_id = i, sb_records = map grpc_record_to_sync rs\<rparr>)"
| "wg_on_peer_event me i (PESyncBatchResponse ks) =
     Emit (WSyncBatchResponse i (hm_collect (map (\<lambda>(p, k). (PartitionId (ucast p), Key k)) ks)))"
| "wg_on_peer_event me i (PEConnect _ _) = Break"
| "wg_on_peer_event me i (PEConnectResponse _) = Break"

text \<open>The first message of a reader, which announces its session to the service.\<close>

definition wg_announce_worker :: "node_id \<Rightarrow> string \<Rightarrow> u32 \<Rightarrow> worker_protocol" where
  "wg_announce_worker i host port = WNewConnection (Some i) host port False"

definition wg_announce_manager :: "node_id \<Rightarrow> string \<Rightarrow> u32 \<Rightarrow> worker_protocol" where
  "wg_announce_manager i host port = WNewConnection (Some i) host port False"

definition wg_input_from_worker ::
  "me \<Rightarrow> node_id \<Rightarrow> string \<Rightarrow> u32 \<Rightarrow> peer_event list \<Rightarrow> worker_protocol list \<times> bool" where
  "wg_input_from_worker me i host port events =
     (let (ms, panicked) = read_stream (wg_on_peer_event me i) events
      in (wg_announce_worker i host port # ms, panicked))"

fun wg_on_manager_event ::
  "(string \<Rightarrow> string option) \<Rightarrow> node_id \<Rightarrow> worker_event \<Rightarrow> worker_protocol action" where
  "wg_on_manager_event uuid i (WERemovePartitionFromReplica replica_id p) =
     emit_with (\<lambda>r. WRemovePartitionFromReplica i r (PartitionId (ucast p))) (node_id_from_string uuid replica_id)"
| "wg_on_manager_event uuid i (WEHeartbeat n ts) =
     emit_with (\<lambda>j. WHeartbeat i \<lparr>hb_id = j, hb_ts = ts\<rparr>) (node_id_from_string uuid n)"
| "wg_on_manager_event uuid i WEGetClusterState = Break"
| "wg_on_manager_event uuid i (WEClusterState cs) =
     (case gc_partitions cs of
        None \<Rightarrow> Break
      | Some parts \<Rightarrow>
          (case grpc_cluster_state_to_domain uuid cs parts of
             None \<Rightarrow> Panic
           | Some state \<Rightarrow> Emit (WClusterState state)))"
| "wg_on_manager_event uuid i (WEManagerLeader l epoch ts) =
     emit_with (\<lambda>j. WLeader j epoch ts) (node_id_from_string uuid l)"
| "wg_on_manager_event uuid i (WEConnect _ _ _) = Break"
| "wg_on_manager_event uuid i (WEConnectResponse _) = Break"

definition wg_input_from_manager ::
  "(string \<Rightarrow> string option) \<Rightarrow> node_id \<Rightarrow> string \<Rightarrow> u32 \<Rightarrow> worker_event list \<Rightarrow> worker_protocol list \<times> bool" where
  "wg_input_from_manager uuid i host port events =
     (let (ms, panicked) = read_stream (wg_on_manager_event uuid i) events
      in (wg_announce_manager i host port # ms, panicked))"

section \<open>Connections\<close>

definition wg_open_worker_connection ::
  "(string \<Rightarrow> string option) \<Rightarrow> peer_event option \<Rightarrow> wgrpc \<Rightarrow> wgrpc \<times> (node_id \<times> grpc_addr) option" where
  "wg_open_worker_connection uuid first g =
     (case first of
        Some (PEConnect i (Some addr)) \<Rightarrow>
          (case node_id_from_string uuid i of
             None \<Rightarrow> (g, None)
           | Some j \<Rightarrow>
               (g\<lparr>wg_worker_sessions := hm_insert j
                     (open_session [PEConnectResponse (node_id_to_string (me_id (wg_me g)))])
                     (wg_worker_sessions g)\<rparr>, Some (j, addr)))
      | _ \<Rightarrow> (g, None))"

definition wg_start_communication_with_manager ::
  "(string \<Rightarrow> string option) \<Rightarrow> worker_event option \<Rightarrow> wgrpc \<Rightarrow> (wgrpc \<times> node_id option) option" where
  "wg_start_communication_with_manager uuid answer g =
     (case answer of
        Some (WEConnectResponse i) \<Rightarrow>
          (case node_id_from_string uuid i of
             None \<Rightarrow> None
           | Some j \<Rightarrow>
               Some (g\<lparr>wg_manager_sessions := hm_insert j
                     (open_session [WEConnect (node_id_to_string (me_id (wg_me g)))
                        (Some (me_host (wg_me g), me_port (wg_me g))) None])
                     (wg_manager_sessions g)\<rparr>, Some j))
      | _ \<Rightarrow> Some (g, None))"

definition wg_new_manager_connection ::
  "(string \<Rightarrow> string option) \<Rightarrow> worker_event dial_outcome \<Rightarrow> wgrpc \<Rightarrow> (wgrpc \<times> node_id option) option" where
  "wg_new_manager_connection uuid outcome g =
     (case outcome of
        ConnectFails _ \<Rightarrow> Some (g, None)
      | OpenFails _ \<Rightarrow> Some (g, None)
      | StreamOpens answer \<Rightarrow> wg_start_communication_with_manager uuid answer g)"

definition wg_start_communication_with_worker ::
  "(string \<Rightarrow> string option) \<Rightarrow> peer_event option \<Rightarrow> wgrpc \<Rightarrow> (wgrpc \<times> node_id option) option" where
  "wg_start_communication_with_worker uuid answer g =
     (case answer of
        Some (PEConnectResponse i) \<Rightarrow>
          (case node_id_from_string uuid i of
             None \<Rightarrow> None
           | Some j \<Rightarrow>
               Some (g\<lparr>wg_worker_sessions := hm_insert j
                     (open_session [PEConnect (node_id_to_string (me_id (wg_me g)))
                        (Some (me_host (wg_me g), me_port (wg_me g)))])
                     (wg_worker_sessions g)\<rparr>, Some j))
      | _ \<Rightarrow> Some (g, None))"

definition wg_new_worker_connection ::
  "(string \<Rightarrow> string option) \<Rightarrow> peer_event dial_outcome \<Rightarrow> wgrpc \<Rightarrow> (wgrpc \<times> node_id option) option" where
  "wg_new_worker_connection uuid outcome g =
     (case outcome of
        ConnectFails _ \<Rightarrow> Some (g, None)
      | OpenFails _ \<Rightarrow> Some (g, None)
      | StreamOpens answer \<Rightarrow> wg_start_communication_with_worker uuid answer g)"

text \<open>The reader task of a session with a manager and with a worker, from start to end.\<close>

definition wg_manager_session_task ::
  "(string \<Rightarrow> string option) \<Rightarrow> node_id \<Rightarrow> grpc_addr \<Rightarrow> worker_event list \<Rightarrow> wgrpc \<Rightarrow> wgrpc" where
  "wg_manager_session_task uuid i addr events g =
     (let (ms, panicked) = wg_input_from_manager uuid i (fst addr) (snd addr) events;
          g1 = g\<lparr>wg_tx := wg_tx g @ ms\<rparr>
      in if panicked then g1
         else g1\<lparr>wg_manager_sessions := hm_remove i (wg_manager_sessions g1),
                 wg_tx := wg_tx g1 @ [WNodeDisconnected i]\<rparr>)"

definition wg_worker_session_task ::
  "node_id \<Rightarrow> grpc_addr \<Rightarrow> peer_event list \<Rightarrow> wgrpc \<Rightarrow> wgrpc" where
  "wg_worker_session_task i addr events g =
     (let (ms, panicked) = wg_input_from_worker (wg_me g) i (fst addr) (snd addr) events;
          g1 = g\<lparr>wg_tx := wg_tx g @ ms\<rparr>
      in if panicked then g1
         else g1\<lparr>wg_worker_sessions := hm_remove i (wg_worker_sessions g1),
                 wg_tx := wg_tx g1 @ [WNodeDisconnected i]\<rparr>)"

end
