(* ===== verification/Worker_Node.thy ===== *)
theory Worker_Node
  imports Worker_Grpc Migration
begin

text \<open>
  The running worker: start-up and the background clean-up of expired records (\<open>worker/mod.rs\<close>), the
  loop of the service (\<open>worker/service.rs\<close>) and the requests of clients, as a step relation over the
  service and the store they share. The invariant of the worker's state, the progress of its epoch,
  and what a worker can learn of its cluster.
\<close>

section \<open>Start-up and steps\<close>

text \<open>
  The identity of the process, from its configuration and a fresh identifier. \<open>run\<close> checks the
  configuration before it starts the service, whose first call would panic otherwise.
\<close>

definition node_me :: "config \<Rightarrow> node_id \<Rightarrow> me" where
  "node_me config i = (let (host, port) = self_host_port config in \<lparr>me_id = i, me_host = host, me_port = ucast port\<rparr>)"

definition worker_start ::
  "config \<Rightarrow> node_id \<Rightarrow> u64 \<Rightarrow> string + (wservice \<times> worker_protocol list) option" where
  "worker_start config i now =
     (case manager_host_port config of
        None \<Rightarrow> Inl ''Manager host and port are not specified''
      | Some _ \<Rightarrow> Inr (w_get_init_messages config now (new_wservice (node_me config i) new_runtime_store)))"

definition expired_cleanup :: "u64 \<Rightarrow> wservice \<Rightarrow> wservice" where
  "expired_cleanup now svc = svc\<lparr>ws_runtime_store := fst (remove_expired (ws_runtime_store svc) now)\<rparr>"

definition serve_client :: "u64 \<Rightarrow> u64 \<Rightarrow> client_request \<Rightarrow> wservice \<Rightarrow> wservice \<times> worker_response" where
  "serve_client now now2 r svc =
     (let (s, answer) = handle_client_request now now2 r (ws_runtime_store svc)
      in (svc\<lparr>ws_runtime_store := s\<rparr>, answer))"

text \<open>The states a worker reaches when the messages it receives satisfy \<open>allowed\<close>.\<close>

inductive worker_reachable :: "(worker_protocol \<Rightarrow> bool) \<Rightarrow> config \<Rightarrow> node_id \<Rightarrow> wservice \<Rightarrow> bool" for allowed config i where
  w_started: "worker_start config i now = Inr (Some (svc, out)) \<Longrightarrow> worker_reachable allowed config i svc"
| w_message: "worker_reachable allowed config i svc \<Longrightarrow> allowed m \<Longrightarrow>
     worker_reachable allowed config i (fst (w_process rd m svc))"
| w_ticked: "worker_reachable allowed config i svc \<Longrightarrow> worker_reachable allowed config i (fst (w_tick rd svc))"
| w_cleaned: "worker_reachable allowed config i svc \<Longrightarrow>
     worker_reachable allowed config i (expired_cleanup now svc)"
| w_served: "worker_reachable allowed config i svc \<Longrightarrow>
     worker_reachable allowed config i (fst (serve_client now now2 r svc))"

section \<open>Invariant\<close>

definition wstate_wf :: "wstate \<Rightarrow> bool" where
  "wstate_wf st \<longleftrightarrow>
     hm_wf (w_nodes st) \<and> parts_wf (w_partitions st) \<and>
     hm_wf (w_sync st) \<and> (\<forall>p. hm_wf (hm_or_default [] p (w_sync st))) \<and>
     hm_wf (w_actual_nodes_sync_completion st) \<and>
     (\<forall>p. hm_wf (hm_or_default [] p (w_actual_nodes_sync_completion st)))"

definition wservice_ok :: "me \<Rightarrow> wservice \<Rightarrow> bool" where
  "wservice_ok me svc \<longleftrightarrow>
     ws_me svc = me \<and> store_wf (ws_runtime_store svc) \<and>
     (case ws_state svc of None \<Rightarrow> False | Some st \<Rightarrow> wstate_wf st)"

fun worker_msg_wf :: "worker_protocol \<Rightarrow> bool" where
  "worker_msg_wf (WNewConnection _ _ _ manager) = (\<not> manager)"
| "worker_msg_wf (WClusterState cs) = parts_wf (cs_partitions cs)"
| "worker_msg_wf (WGetClusterState _) = False"
| "worker_msg_wf _ = True"

definition w_advances :: "wstate \<Rightarrow> wstate \<Rightarrow> bool" where
  "w_advances st st' \<longleftrightarrow>
     opt_less (w_epoch st) (w_epoch st') \<or>
     w_epoch st' = w_epoch st \<and> w_elected_leader_id st' = w_elected_leader_id st"

text \<open>The messages of the synchronisation, which go to nodes the worker is connected to.\<close>

fun sync_message :: "worker_protocol \<Rightarrow> bool" where
  "sync_message (WSyncBatch _ _) = True"
| "sync_message (WRemovePartitionFromReplica _ _ _) = True"
| "sync_message _ = False"

text \<open>No node the worker knows of counts as a manager.\<close>

definition no_managers :: "wstate \<Rightarrow> bool" where
  "no_managers st \<longleftrightarrow> list_all (\<lambda>(_, n). n_node_type n = Worker) (w_nodes st)"

text \<open>What a call of the synchronisation leaves alone.\<close>

definition same_cluster :: "wstate \<Rightarrow> wstate \<Rightarrow> bool" where
  "same_cluster st st' \<longleftrightarrow>
     w_epoch st' = w_epoch st \<and> w_elected_leader_id st' = w_elected_leader_id st \<and> w_nodes st' = w_nodes st \<and>
     w_partitions st' = w_partitions st"

text \<open>One turn of the loop of \<open>sync_partitions\<close>.\<close>

definition sync_part ::
  "(partition_id \<Rightarrow> node_id \<Rightarrow> u64 \<times> u64) \<Rightarrow> me \<Rightarrow> (partition_id, node_id hash_set) hash_map \<Rightarrow> nat \<Rightarrow>
   wstate \<times> runtime_store \<times> worker_protocol list \<Rightarrow> wstate \<times> runtime_store \<times> worker_protocol list" where
  "sync_part clk me synced part = (\<lambda>(st, s, out).
     let p = PartitionId (word_of_nat part)
     in sync_partition clk me p
          (get_node_ids_curr_node_has_to_sync_the_partition_to p (me_id me)
             (w_partitions st) (w_nodes st) (hm_get synced p)) (st, s, out))"

definition worker_inv :: "me \<Rightarrow> wservice \<Rightarrow> bool" where
  "worker_inv me svc \<longleftrightarrow> wservice_ok me svc \<and> no_managers (the (ws_state svc))"

text \<open>A worker that has just started.\<close>

definition demo_worker_config :: config where
  "demo_worker_config = ConfigWorker 7 (''w'', 7) (''m'', 1) 60"

definition demo_worker_me :: me where
  "demo_worker_me = \<lparr>me_id = NodeId ''w'', me_host = ''w'', me_port = 7\<rparr>"

definition demo_wstate :: wstate where
  "demo_wstate = new_wstate
     [(NodeId ''w'', \<lparr>n_host = ''w'', n_port = 7, n_last_heartbeat = 0, n_node_type = Worker\<rparr>)]"

definition demo_worker :: wservice where
  "demo_worker = \<lparr>ws_me = demo_worker_me, ws_state = Some demo_wstate, ws_runtime_store = new_runtime_store\<rparr>"

text \<open>The same worker as a former owner, its batch to the new owner \<open>b\<close> not acknowledged and \<open>b\<close> disconnected.\<close>

definition demo_former_state :: wstate where
  "demo_former_state = demo_wstate
     \<lparr>w_partitions := \<lparr>mapping = [(PartitionId 1, \<lparr>p_master = NodeId ''b'', p_replicas = []\<rparr>)],
        old_replicas = [(PartitionId 1, [NodeId ''w''])], new_replicas = []\<rparr>,
      w_sync := [(PartitionId 1, demo_sent)]\<rparr>"

definition demo_former_store :: runtime_store where
  "demo_former_store = put new_runtime_store (Key 1) \<lparr>sr_expiration_time_ms = 0, sr_creation_time_ms = 5, sr_value = [7]\<rparr>"

definition demo_wreadings :: wreadings where
  "demo_wreadings = \<lparr>w_hb_now = 5, w_conn_now = 5, w_state_now = 5, w_clk = (\<lambda>_ _. (5, 5))\<rparr>"

definition demo_state_message :: worker_protocol where
  "demo_state_message = WClusterState
     \<lparr>cs_epoch = 3, cs_leader_id = NodeId ''m'', cs_nodes = [], cs_partitions = default_partitions\<rparr>"

section \<open>The store\<close>

lemma store_wf_client_request:
  "store_wf s \<Longrightarrow> store_wf (fst (handle_client_request now now2 r s))"
  using store_wf_get_versioned [of s now "Key (cr_key r)"]
  by (auto simp: handle_client_request_def Let_def put_def delete_at_def store_wf_mutate
      split: prod.splits option.splits mutation.splits)

lemma store_wf_apply_record: "store_wf s \<Longrightarrow> store_wf (apply_record q s)"
  by (simp add: apply_record_def put_def delete_at_def store_wf_mutate)

lemma store_wf_sync_batch: "store_wf s \<Longrightarrow> store_wf (fst (handle_sync_batch req s))"
proof -
  have "store_wf (fold apply_record qs s)" if "store_wf s" for qs s
    using that by (induction qs arbitrary: s) (simp_all add: store_wf_apply_record)
  then show "store_wf s \<Longrightarrow> store_wf (fst (handle_sync_batch req s))" by (simp add: handle_sync_batch_store)
qed

section \<open>Synchronisation\<close>

lemma wstate_wf_sync:
  assumes "wstate_wf st" and "hm_wf states"
  shows "wstate_wf (st\<lparr>w_sync := hm_insert p states (w_sync st)\<rparr>)"
  using assms by (auto simp: wstate_wf_def hm_or_default_def split: option.split)

lemma same_cluster_trans [trans]: "same_cluster a b \<Longrightarrow> same_cluster b c \<Longrightarrow> same_cluster a c"
  by (simp add: same_cluster_def)

lemma same_cluster_refl [simp]: "same_cluster st st"
  by (simp add: same_cluster_def)

lemma sync_one_keeps:
  assumes "sync_one clk s me p r (st, out) = (st', out')" and "wstate_wf st"
  shows "wstate_wf st' \<and> same_cluster st st'"
proof -
  obtain c states o1 where
    call: "sync_partition_to_recipient (clk p r) s me p r (hm_or_default [] p (w_sync st)) = (c, states, o1)"
    by (metis prod_cases3)
  let ?st = "st\<lparr>w_sync := hm_insert p states (w_sync st)\<rparr>"
  have st: "wstate_wf ?st"
    using wstate_wf_sync [OF assms(2)] sync_to_recipient_frame(2) [OF call] assms(2) by (simp add: wstate_wf_def)
  have "wstate_wf (fst (record_completed_sync me p r ?st)) \<and> same_cluster st (fst (record_completed_sync me p r ?st))"
    using st by (auto simp: record_completed_sync_def wstate_wf_def same_cluster_def hm_or_default_def split: option.splits)
  with assms(1) call st show ?thesis
    by (auto simp: sync_one_def Let_def same_cluster_def split: if_splits prod.splits)
qed

lemma sync_all_keeps:
  "fold (sync_one clk s me p) rcs (st, out) = (st', out') \<Longrightarrow> wstate_wf st \<Longrightarrow>
   wstate_wf st' \<and> same_cluster st st'"
proof (induction rcs arbitrary: st out)
  case (Cons x rcs)
  obtain st1 out1 where one: "sync_one clk s me p x (st, out) = (st1, out1)" by (metis surj_pair)
  with Cons.prems have rest: "fold (sync_one clk s me p) rcs (st1, out1) = (st', out')" by simp
  from sync_one_keeps [OF one Cons.prems(2)] Cons.IH [OF rest] show ?case
    using same_cluster_trans by blast
qed simp

lemma prune_after_sync_keeps:
  assumes "prune_after_sync p (st, s) = (st', s')" and "wstate_wf st" and "store_wf s"
  shows "wstate_wf st' \<and> same_cluster st st' \<and> store_wf s'"
proof -
  have "hm_wf (hm_retain (\<lambda>_ ss. \<not> ss_confirmed ss) states)" if "hm_get (w_sync st) p = Some states" for states
  proof -
    have "hm_wf (hm_or_default [] p (w_sync st))" using assms(2) by (simp add: wstate_wf_def)
    then show ?thesis using that by (simp add: hm_or_default_def)
  qed
  with assms wstate_wf_sync [OF assms(2)] show ?thesis
    by (auto simp: prune_after_sync_def Let_def same_cluster_def store_wf_prune split: option.splits)
qed

lemma sync_partition_keeps:
  assumes "sync_partition clk me p rcs (st, s, out) = (st', s', out')" and "wstate_wf st" and "store_wf s"
  shows "wstate_wf st' \<and> same_cluster st st' \<and> store_wf s'"
proof -
  let ?st = "st\<lparr>w_sync := hm_update p (hm_retain (\<lambda>r _. hm_get (w_nodes st) r \<noteq> None)) (w_sync st)\<rparr>"
  obtain st2 out2 where all: "fold (sync_one clk s me p) rcs (?st, out) = (st2, out2)" by (metis surj_pair)
  have prune: "prune_after_sync p (st2, s) = (st', s')"
    using assms(1) all by (auto simp: sync_partition_def Let_def split: prod.splits)
  have "hm_or_default [] q (w_sync ?st) = (if q = p then hm_retain (\<lambda>r _. hm_get (w_nodes st) r \<noteq> None)
      (hm_or_default [] p (w_sync st)) else hm_or_default [] q (w_sync st))" for q
    by (simp add: hm_or_default_def hm_retain_def split: option.split)
  then have "wstate_wf ?st" using assms(2) by (simp add: wstate_wf_def)
  with sync_all_keeps [OF all] have "wstate_wf st2 \<and> same_cluster ?st st2" by blast
  with prune_after_sync_keeps [OF prune _ assms(3)] show ?thesis by (auto simp: same_cluster_def)
qed

lemma sync_parts_keeps:
  "fold (sync_part clk me synced) ps (st, s, out) = (st', s', out') \<Longrightarrow> wstate_wf st \<Longrightarrow> store_wf s \<Longrightarrow>
   wstate_wf st' \<and> same_cluster st st' \<and> store_wf s'"
proof (induction ps arbitrary: st s out)
  case (Cons x ps)
  obtain st1 s1 out1 where one: "sync_part clk me synced x (st, s, out) = (st1, s1, out1)" by (metis prod_cases3)
  with Cons.prems have rest: "fold (sync_part clk me synced) ps (st1, s1, out1) = (st', s', out')" by simp
  have "wstate_wf st1 \<and> same_cluster st st1 \<and> store_wf s1"
    using one Cons.prems sync_partition_keeps by (auto simp: sync_part_def Let_def)
  with Cons.IH [OF rest] show ?case using same_cluster_trans by blast
qed simp

lemma sync_partitions_eq:
  "sync_partitions clk me st s =
     (let (st1, s1, out) = fold (sync_part clk me (get_currently_synced_actual_nodes st)) [0..<PARTITIONS_AMOUNT] (st, s, []);
          (st2, s2) = remove_completed_syncs_and_obsolete_partitions me (st1, s1)
      in (st2, s2, out))"
  unfolding sync_partitions_def sync_part_def [abs_def] Let_def by (simp add: case_prod_unfold)

lemma remove_obsolete_keeps:
  assumes "remove_completed_syncs_and_obsolete_partitions me (st, s) = (st', s')" and "wstate_wf st" and "store_wf s"
  shows "wstate_wf st' \<and> same_cluster st st' \<and> store_wf s'"
proof -
  have "store_wf (fold (\<lambda>(p, states) s. if states = [] \<and> P p then remove_partition s p else s) xs s)" for xs P
    using assms(3) by (induction xs arbitrary: s) (auto simp: store_wf_remove_partition)
  moreover have "wstate_wf (st\<lparr>w_sync := hm_retain (\<lambda>_ states. states \<noteq> []) (w_sync st)\<rparr>)"
    using assms(2) by (auto simp: wstate_wf_def hm_or_default_def hm_get_retain split: option.splits if_splits)
  ultimately show ?thesis
    using assms(1) by (auto simp: remove_completed_syncs_and_obsolete_partitions_def same_cluster_def)
qed

lemma sync_partitions_keeps:
  assumes "sync_partitions clk me st s = (st', s', out)" and "wstate_wf st" and "store_wf s"
  shows "wstate_wf st' \<and> same_cluster st st' \<and> store_wf s'"
proof -
  obtain st1 s1 out1 where
    all: "fold (sync_part clk me (get_currently_synced_actual_nodes st)) [0..<PARTITIONS_AMOUNT] (st, s, []) = (st1, s1, out1)"
    by (metis prod_cases3)
  have rm: "remove_completed_syncs_and_obsolete_partitions me (st1, s1) = (st', s')"
    using assms(1) all by (auto simp: sync_partitions_eq split: prod.splits)
  from sync_parts_keeps [OF all assms(2,3)] remove_obsolete_keeps [OF rm] show ?thesis
    using same_cluster_trans by blast
qed

section \<open>The handlers\<close>

lemma no_managers_get: "no_managers st \<Longrightarrow> hm_get (w_nodes st) i = Some n \<Longrightarrow> n_node_type n = Worker"
  by (auto simp: no_managers_def list_all_iff dest!: map_of_SomeD)

lemma no_managers_update:
  assumes "no_managers st" and "\<And>n. n_node_type (f n) = n_node_type n"
  shows "list_all (\<lambda>(_, n). n_node_type n = Worker) (hm_update i f (w_nodes st))"
proof -
  have "list_all (\<lambda>(_, n). n_node_type n = Worker) (hm_update i f m) = list_all (\<lambda>(_, n). n_node_type n = Worker) m" for m
    using assms(2) by (induction m) auto
  with assms(1) show ?thesis by (simp add: no_managers_def)
qed

lemma no_managers_insert:
  "no_managers st \<Longrightarrow> n_node_type n = Worker \<Longrightarrow>
   list_all (\<lambda>(_, n). n_node_type n = Worker) (hm_insert i n (w_nodes st))"
proof -
  have "list_all (\<lambda>(_, n). n_node_type n = Worker) m \<Longrightarrow> n_node_type n = Worker \<Longrightarrow>
      list_all (\<lambda>(_, n). n_node_type n = Worker) (hm_insert i n m)" for m
    by (induction m) auto
  then show "no_managers st \<Longrightarrow> n_node_type n = Worker \<Longrightarrow>
     list_all (\<lambda>(_, n). n_node_type n = Worker) (hm_insert i n (w_nodes st))" by (simp add: no_managers_def)
qed

lemma ask_managers_none: "no_managers st \<Longrightarrow> ask_managers me st = []"
  by (auto simp: ask_managers_def no_managers_def is_manager_def list_all_iff filter_empty_conv)

text \<open>The nodes after a cluster state: some of those known before, with later heartbeats.\<close>

lemma w_merge_items:
  assumes "fold w_merge_item items (nodes, out) = (nodes', out')"
  shows "hm_wf nodes \<Longrightarrow> hm_wf nodes'"
    and "list_all (\<lambda>(_, n). n_node_type n = Worker) nodes \<Longrightarrow> list_all (\<lambda>(_, n). n_node_type n = Worker) nodes'"
    and "WGetClusterState i \<notin> set out \<Longrightarrow> WGetClusterState i \<notin> set out'"
proof -
  have touch: "list_all (\<lambda>(_, n). n_node_type n = Worker) (hm_update i (touch t) m) =
      list_all (\<lambda>(_, n). n_node_type n = Worker) m" for i t and m :: "(node_id, node) hash_map"
    by (induction m) (auto simp: touch_def)
  have "(hm_wf nodes \<longrightarrow> hm_wf nodes') \<and>
    (list_all (\<lambda>(_, n). n_node_type n = Worker) nodes \<longrightarrow> list_all (\<lambda>(_, n). n_node_type n = Worker) nodes') \<and>
    (WGetClusterState i \<notin> set out \<longrightarrow> WGetClusterState i \<notin> set out')"
    using assms
  proof (induction items arbitrary: nodes out)
    case (Cons x items)
    obtain nodes1 out1 where one: "w_merge_item x (nodes, out) = (nodes1, out1)" by (metis surj_pair)
    from Cons.prems one have "fold w_merge_item items (nodes1, out1) = (nodes', out')" by simp
    from Cons.IH [OF this] one show ?case by (auto simp: w_merge_item_def touch split: option.splits)
  qed simp
  then show "hm_wf nodes \<Longrightarrow> hm_wf nodes'"
    "list_all (\<lambda>(_, n). n_node_type n = Worker) nodes \<Longrightarrow> list_all (\<lambda>(_, n). n_node_type n = Worker) nodes'"
    "WGetClusterState i \<notin> set out \<Longrightarrow> WGetClusterState i \<notin> set out'" by blast+
qed

lemma w_handle_cluster_state_cases:
  assumes "w_handle_cluster_state me now epoch leader items parts st = (st', out)"
    and "fold w_merge_item items
      (if items \<noteq> [] then hm_retain (\<lambda>i _. i = me_id me \<or> i \<in> set (map cn_id items)) (w_nodes st)
       else w_nodes st, []) = (nodes, o')"
  shows "((st' = st \<and> out = []) \<or> (w_nodes st' = nodes \<and> out = o' \<and> w_partitions st' = parts \<and>
      w_sync st' = w_sync st \<and> w_actual_nodes_sync_completion st' = w_actual_nodes_sync_completion st)) \<and>
      w_advances st st'"
proof (cases "w_epoch st = None \<or> opt_less (w_epoch st) (Some epoch)")
  case True
  with assms show ?thesis
    by (cases "partitions_eq (w_partitions st) parts"; cases "items = []")
      (auto simp: w_handle_cluster_state_def w_advances_def)
next
  case older: False
  show ?thesis
  proof (cases "w_epoch st = Some epoch \<and> w_elected_leader_id st = Some leader")
    case True
    with assms show ?thesis
      by (cases "partitions_eq (w_partitions st) parts"; cases "items = []")
        (auto simp: w_handle_cluster_state_def w_advances_def)
  next
    case False
    have "st' = st \<and> out = []"
      using assms(1) unfolding w_handle_cluster_state_def if_not_P [OF older] if_not_P [OF False] by simp
    then show ?thesis by (simp add: w_advances_def)
  qed
qed

lemma w_handle_cluster_state_keeps:
  assumes "w_handle_cluster_state me now epoch leader items parts st = (st', out)"
  shows "wstate_wf st \<Longrightarrow> parts_wf parts \<Longrightarrow> wstate_wf st'"
    and "no_managers st \<Longrightarrow> no_managers st'"
    and "w_advances st st'" and "WGetClusterState i \<notin> set out" and "items = [] \<Longrightarrow> out = []"
proof -
  define kept where "kept = (if items \<noteq> [] then hm_retain (\<lambda>i _. i = me_id me \<or> i \<in> set (map cn_id items)) (w_nodes st)
      else w_nodes st)"
  obtain nodes o' where merge: "fold w_merge_item items (kept, []) = (nodes, o')" by (metis surj_pair)
  have both: "((st' = st \<and> out = []) \<or> (w_nodes st' = nodes \<and> out = o' \<and> w_partitions st' = parts \<and>
      w_sync st' = w_sync st \<and> w_actual_nodes_sync_completion st' = w_actual_nodes_sync_completion st)) \<and>
      w_advances st st'"
    by (rule w_handle_cluster_state_cases [OF assms merge [unfolded kept_def]])
  note cases = both [THEN conjunct1]
  note items = w_merge_items [OF merge]
  show "w_advances st st'" using both by blast
  show "WGetClusterState i \<notin> set out" using cases items(3) by auto
  show "items = [] \<Longrightarrow> out = []" using cases merge by auto
  show "no_managers st'" if "no_managers st"
  proof -
    have "list_all (\<lambda>(_, n). n_node_type n = Worker) kept"
      using that by (simp add: no_managers_def kept_def list_all_iff)
    from items(2) [OF this] cases that show ?thesis by (auto simp only: no_managers_def)
  qed
  show "wstate_wf st'" if "wstate_wf st" "parts_wf parts"
  proof -
    have "hm_wf kept" using that by (simp add: wstate_wf_def kept_def)
    from items(1) [OF this] cases that show ?thesis by (elim disjE) (simp_all add: wstate_wf_def)
  qed
qed

lemma response_same_cluster: "same_cluster st (handle_sync_batch_response mk r st)"
  unfolding handle_sync_batch_response_def
  by (induction mk arbitrary: st)
    (auto simp: confirm_batch_def same_cluster_def split: prod.splits)

lemma response_keeps: "wstate_wf st \<Longrightarrow> wstate_wf (handle_sync_batch_response mk r st)"
proof -
  have "hm_wf (w_sync (handle_sync_batch_response mk r st)) \<longleftrightarrow> hm_wf (w_sync st)"
    "w_actual_nodes_sync_completion (handle_sync_batch_response mk r st) = w_actual_nodes_sync_completion st"
    unfolding handle_sync_batch_response_def
    by (induction mk arbitrary: st) (auto simp: confirm_batch_def split: prod.splits)
  then show "wstate_wf st \<Longrightarrow> wstate_wf (handle_sync_batch_response mk r st)"
    using response_wf response_same_cluster [of st mk r] by (simp add: wstate_wf_def same_cluster_def)
qed

text \<open>What a handler keeps: the invariant, the absence of managers, and the order of epochs.\<close>

lemma advances_same_cluster: "same_cluster st st' \<Longrightarrow> w_advances st st'"
  by (simp add: same_cluster_def w_advances_def)

lemma w_advances_trans: "w_advances a b \<Longrightarrow> w_advances b c \<Longrightarrow> w_advances a c"
  by (auto simp: w_advances_def intro: opt_less_trans)

lemma w_dispatch_advances: "w_dispatch me rd m st s = (st', s', out) \<Longrightarrow> w_advances st st'"
proof (cases m)
  case (WClusterState cs)
  then show "w_dispatch me rd m st s = (st', s', out) \<Longrightarrow> ?thesis"
    using w_handle_cluster_state_keeps(3) by (auto split: prod.splits)
next
  case (WSyncBatchResponse r mk)
  then show "w_dispatch me rd m st s = (st', s', out) \<Longrightarrow> ?thesis"
    using response_same_cluster advances_same_cluster by auto
qed (auto simp: w_advances_def w_handle_new_connection_def w_handle_heartbeat_def w_handle_node_disconnected_def
    w_handle_leader_def split: prod.splits option.splits if_splits)

lemma w_dispatch_keeps:
  assumes "w_dispatch me rd m st s = (st', s', out)" and "worker_msg_wf m"
    and "wstate_wf st" and "no_managers st" and "store_wf s"
  shows "wstate_wf st' \<and> no_managers st' \<and> store_wf s' \<and> (\<forall>i. WGetClusterState i \<notin> set out)"
proof (cases m)
  case (WClusterState cs)
  then have call: "w_handle_cluster_state me (w_state_now rd) (cs_epoch cs) (cs_leader_id cs) (cs_nodes cs)
      (cs_partitions cs) st = (st', out)" "s' = s"
    using assms(1) by (auto split: prod.splits)
  from w_handle_cluster_state_keeps [OF call(1)] call(2) assms WClusterState show ?thesis by simp
next
  case (WSyncBatchResponse r mk)
  with assms response_same_cluster [of st mk r] response_keeps show ?thesis
    by (auto simp: no_managers_def same_cluster_def)
next
  case (WSyncBatch i req)
  with assms store_wf_sync_batch [of s req] handle_sync_batch_answer [of req s] show ?thesis
    by (auto split: prod.splits)
next
  case (WLeader i epoch ts)
  with assms no_managers_get [OF assms(4)] show ?thesis
    by (auto simp: w_handle_leader_def ask_managers_none split: if_splits option.splits)
next
  case (WHeartbeat i hb)
  with assms no_managers_update [OF assms(4)] show ?thesis
    by (auto simp: w_handle_heartbeat_def ask_managers_none wstate_wf_def no_managers_def split: option.splits)
next
  case (WNewConnection i host port manager)
  with assms no_managers_insert [OF assms(4)] show ?thesis
    by (auto simp: w_handle_new_connection_def wstate_wf_def no_managers_def split: option.splits)
next
  case (WNodeDisconnected i)
  with assms show ?thesis
    by (auto simp: w_handle_node_disconnected_def wstate_wf_def no_managers_def list_all_iff AList.delete_eq distinct_map_filter)
next
  case (WRemovePartitionFromReplica i j p)
  with assms show ?thesis by (auto simp: w_handle_remove_old_partition_def ask_managers_none)
qed (use assms in simp_all)

section \<open>The messages of a tick\<close>

lemma sync_one_messages:
  assumes "sync_one clk s me p r (st, out) = (st', out')" and "list_all sync_message out"
  shows "list_all sync_message out'"
proof -
  obtain c states o1 where
    call: "sync_partition_to_recipient (clk p r) s me p r (hm_or_default [] p (w_sync st)) = (c, states, o1)"
    by (metis prod_cases3)
  have "list_all sync_message o1"
    using sync_to_recipient_frame(1) [OF call] by (auto simp: list_all_iff)
  moreover have "list_all sync_message (snd (record_completed_sync me p r x))" for x
    by (simp add: record_completed_sync_def split: option.split)
  then have "list_all sync_message o2" if "record_completed_sync me p r x = (y, o2)" for x y o2
    using that by (metis snd_conv)
  ultimately show ?thesis
    using assms call by (auto simp: sync_one_def Let_def split: if_splits prod.splits)
qed

lemma sync_all_messages:
  "fold (sync_one clk s me p) rcs (st, out) = (st', out') \<Longrightarrow> list_all sync_message out \<Longrightarrow> list_all sync_message out'"
proof (induction rcs arbitrary: st out)
  case (Cons x rcs)
  obtain st1 out1 where one: "sync_one clk s me p x (st, out) = (st1, out1)" by (metis surj_pair)
  with Cons.prems have "fold (sync_one clk s me p) rcs (st1, out1) = (st', out')" by simp
  from Cons.IH [OF this sync_one_messages [OF one Cons.prems(2)]] show ?case .
qed simp

lemma sync_parts_messages:
  "fold (sync_part clk me synced) ps (st, s, out) = (st', s', out') \<Longrightarrow> list_all sync_message out \<Longrightarrow>
   list_all sync_message out'"
proof (induction ps arbitrary: st s out)
  case (Cons x ps)
  obtain st1 s1 out1 where one: "sync_part clk me synced x (st, s, out) = (st1, s1, out1)" by (metis prod_cases3)
  with Cons.prems have rest: "fold (sync_part clk me synced) ps (st1, s1, out1) = (st', s', out')" by simp
  have "list_all sync_message out1"
    using one Cons.prems(2) sync_all_messages by (auto simp: sync_part_def sync_partition_def Let_def split: prod.splits)
  from Cons.IH [OF rest this] show ?case .
qed simp

lemma sync_partitions_messages: "sync_partitions clk me st s = (st', s', out) \<Longrightarrow> list_all sync_message out"
  using sync_parts_messages [of clk me "get_currently_synced_actual_nodes st" "[0..<PARTITIONS_AMOUNT]" st s "[]"]
  by (auto simp: sync_partitions_eq split: prod.splits)

lemma w_heartbeats_keeps:
  assumes "w_heartbeats me now st = (st', out)"
  shows "wstate_wf st \<Longrightarrow> wstate_wf st'" and "no_managers st \<Longrightarrow> no_managers st'"
    and "w_epoch st' = w_epoch st \<and> w_elected_leader_id st' = w_elected_leader_id st"
    and "\<forall>m\<in>set out. \<exists>i hb. m = WHeartbeat i hb"
  using assms no_managers_update [of st "\<lambda>n. n\<lparr>n_last_heartbeat := now\<rparr>" "me_id me"]
  by (auto simp: w_heartbeats_def wstate_wf_def no_managers_def Let_def split: option.splits if_splits)

lemma w_tick_keeps:
  assumes "ws_state svc = Some st" and "wstate_wf st" and "store_wf (ws_runtime_store svc)"
    and "w_tick rd svc = (svc', out)"
  shows "\<exists>st'. ws_state svc' = Some st' \<and> ws_me svc' = ws_me svc \<and> wstate_wf st' \<and> store_wf (ws_runtime_store svc') \<and>
    w_epoch st' = w_epoch st \<and> w_elected_leader_id st' = w_elected_leader_id st \<and> (no_managers st \<longrightarrow> no_managers st') \<and>
    (\<forall>m\<in>set out. sync_message m \<or> (\<exists>i hb. m = WHeartbeat i hb))"
proof -
  obtain st1 out1 where hb: "w_heartbeats (ws_me svc) (w_hb_now rd) st = (st1, out1)" by (metis surj_pair)
  obtain st2 s2 out2 where sync: "sync_partitions (w_clk rd) (ws_me svc) st1 (ws_runtime_store svc) = (st2, s2, out2)"
    by (metis prod_cases3)
  note keeps = w_heartbeats_keeps [OF hb] sync_partitions_keeps [OF sync _ assms(3)] sync_partitions_messages [OF sync]
  have "w_epoch st2 = w_epoch st \<and> w_elected_leader_id st2 = w_elected_leader_id st"
    using keeps(1,3,5) assms(2) by (simp add: same_cluster_def)
  moreover have "no_managers st \<longrightarrow> no_managers st2"
    using keeps(1,2,5) assms(2) by (auto simp: no_managers_def same_cluster_def)
  moreover have "svc' = svc\<lparr>ws_state := Some st2, ws_runtime_store := s2\<rparr>" "out = out1 @ out2"
    using assms(1,4) hb sync by (auto simp: w_tick_def)
  ultimately show ?thesis using keeps(1,4,5,6) assms(2) by (auto simp: list_all_iff)
qed

text \<open>Only a cluster state that lists unknown nodes makes a worker connect to somebody.\<close>

lemma w_dispatch_dials:
  assumes "w_dispatch me rd m st s = (st', s', out)" and "WNewConnection i host port manager \<in> set out"
  shows "\<exists>cs. m = WClusterState cs \<and> cs_nodes cs \<noteq> []"
proof (cases m)
  case (WClusterState cs)
  with assms w_handle_cluster_state_keeps(5) show ?thesis by (fastforce split: prod.splits)
next
  case (WSyncBatch j req)
  with assms handle_sync_batch_answer [of req s] show ?thesis by (auto split: prod.splits)
qed (use assms in \<open>auto simp: w_handle_new_connection_def w_handle_heartbeat_def w_handle_leader_def
    w_handle_remove_old_partition_def ask_managers_def split: prod.splits option.splits if_splits\<close>)

section \<open>Reachable workers\<close>

lemma worker_invE:
  assumes "worker_inv me svc"
  obtains st where "ws_state svc = Some st" and "wstate_wf st" and "no_managers st"
    and "store_wf (ws_runtime_store svc)" and "ws_me svc = me"
  using assms by (auto simp: worker_inv_def wservice_ok_def split: option.splits)

lemma w_tick_inv: "worker_inv me svc \<Longrightarrow> worker_inv me (fst (w_tick rd svc))"
proof (erule worker_invE)
  fix st
  assume "ws_state svc = Some st" "wstate_wf st" "no_managers st" "store_wf (ws_runtime_store svc)" "ws_me svc = me"
  with w_tick_keeps [of svc st rd "fst (w_tick rd svc)" "snd (w_tick rd svc)"]
  show "worker_inv me (fst (w_tick rd svc))" by (auto simp: worker_inv_def wservice_ok_def)
qed

text \<open>A message, in two halves: its handler and the tick that follows.\<close>

lemma w_process_cases:
  assumes "worker_inv me svc" and "worker_msg_wf m" and "w_process rd m svc = (svc', out)"
  obtains st st1 st' svc1 s1 out1 out2 where
    "ws_state svc = Some st" "w_dispatch me rd m st (ws_runtime_store svc) = (st1, s1, out1)"
    "worker_inv me svc1" "ws_state svc1 = Some st1" "w_tick rd svc1 = (svc', out2)" "out = out1 @ out2"
    "ws_state svc' = Some st'" "w_epoch st' = w_epoch st1" "w_elected_leader_id st' = w_elected_leader_id st1"
    "\<forall>i. WGetClusterState i \<notin> set out1" "\<forall>m\<in>set out2. sync_message m \<or> (\<exists>i hb. m = WHeartbeat i hb)"
  using assms(1)
proof (rule worker_invE)
  fix st
  assume st: "ws_state svc = Some st" "wstate_wf st" "no_managers st" "store_wf (ws_runtime_store svc)" "ws_me svc = me"
  obtain st1 s1 out1 where d: "w_dispatch me rd m st (ws_runtime_store svc) = (st1, s1, out1)" by (metis prod_cases3)
  let ?svc = "svc\<lparr>ws_state := Some st1, ws_runtime_store := s1\<rparr>"
  note keeps = w_dispatch_keeps [OF d assms(2) st(2-4)]
  obtain out2 where t: "w_tick rd ?svc = (svc', out2)" and out: "out = out1 @ out2"
    using assms(3) st(1,5) d by (auto simp: w_process_def split: prod.splits)
  obtain st' where "ws_state svc' = Some st'" "w_epoch st' = w_epoch st1"
    "w_elected_leader_id st' = w_elected_leader_id st1"
    "\<forall>m\<in>set out2. sync_message m \<or> (\<exists>i hb. m = WHeartbeat i hb)"
    using w_tick_keeps [of ?svc st1 rd svc' out2] keeps t by auto
  moreover have "worker_inv me ?svc" using keeps st(5) by (simp add: worker_inv_def wservice_ok_def)
  ultimately show thesis using that [OF st(1) d _ _ t out] keeps by auto
qed

lemma w_process_inv:
  assumes "worker_inv me svc" and "worker_msg_wf m"
  shows "worker_inv me (fst (w_process rd m svc))"
  using w_process_cases [OF assms, of rd "fst (w_process rd m svc)" "snd (w_process rd m svc)"] w_tick_inv
  by (metis fst_conv prod.collapse)

lemma worker_started_inv: "worker_start config i now = Inr (Some (svc, out)) \<Longrightarrow> worker_inv (node_me config i) svc"
  by (auto simp: worker_start_def w_get_init_messages_def new_wservice_def worker_inv_def wservice_ok_def Let_def
      new_wstate_def wstate_wf_def hm_or_default_def no_managers_def split: option.splits)

lemma worker_reachable_inv: "worker_reachable worker_msg_wf config i svc \<Longrightarrow> worker_inv (node_me config i) svc"
proof (induction rule: worker_reachable.induct)
  case (w_served svc now now2 r)
  then show ?case
    using store_wf_client_request [of "ws_runtime_store svc" now now2 r]
    by (auto simp: worker_inv_def wservice_ok_def serve_client_def split: prod.splits)
next
  case (w_cleaned svc now)
  then show ?case by (simp add: worker_inv_def wservice_ok_def expired_cleanup_def store_wf_remove_expired)
qed (simp_all add: worker_started_inv w_process_inv w_tick_inv)

lemma demo_worker_reachable: "worker_reachable allowed demo_worker_config (NodeId ''w'') demo_worker"
  by (rule w_started [of _ _ 0 _ "[WNewConnection None ''m'' 1 True]"])
    (simp add: worker_start_def w_get_init_messages_def demo_worker_config_def demo_worker_me_def demo_worker_def
      demo_wstate_def new_wservice_def node_me_def)

lemma demo_state_message_wf: "worker_msg_wf demo_state_message"
  by (simp add: demo_state_message_def)

lemma demo_process: "\<exists>st'. ws_state (fst (w_process demo_wreadings demo_state_message demo_worker)) = Some st'"
  using w_process_inv [OF worker_reachable_inv [OF demo_worker_reachable] demo_state_message_wf, of demo_wreadings]
  by (blast elim: worker_invE)

section \<open>A partition whose recipients are gone\<close>

lemma sync_one_other_partition:
  "sync_one clk s me q r (st, out) = (st', out') \<Longrightarrow> q \<noteq> p \<Longrightarrow> hm_get (w_sync st') p = hm_get (w_sync st) p"
  by (auto simp: sync_one_def record_completed_sync_def Let_def split: if_splits prod.splits)

lemma sync_all_other_partition:
  "fold (sync_one clk s me q) rcs (st, out) = (st', out') \<Longrightarrow> q \<noteq> p \<Longrightarrow> hm_get (w_sync st') p = hm_get (w_sync st) p"
proof (induction rcs arbitrary: st out)
  case (Cons x rcs)
  obtain st1 out1 where one: "sync_one clk s me q x (st, out) = (st1, out1)" by (metis surj_pair)
  with Cons.prems have "fold (sync_one clk s me q) rcs (st1, out1) = (st', out')" by simp
  from Cons.IH [OF this Cons.prems(2)] sync_one_other_partition [OF one Cons.prems(2)] show ?case by simp
qed simp

lemma sync_partition_other_partition:
  assumes "sync_partition clk me q rcs (st, s, out) = (st', s', out')" and "q \<noteq> p"
  shows "hm_get (w_sync st') p = hm_get (w_sync st) p"
proof -
  let ?st = "st\<lparr>w_sync := hm_update q (hm_retain (\<lambda>r _. hm_get (w_nodes st) r \<noteq> None)) (w_sync st)\<rparr>"
  obtain st2 out2 where all: "fold (sync_one clk s me q) rcs (?st, out) = (st2, out2)" by (metis surj_pair)
  have "prune_after_sync q (st2, s) = (st', s')"
    using assms(1) all by (auto simp: sync_partition_def Let_def split: prod.splits)
  then have "hm_get (w_sync st') p = hm_get (w_sync st2) p"
    using assms(2) by (auto simp: prune_after_sync_def Let_def split: option.splits)
  with sync_all_other_partition [OF all assms(2)] assms(2) show ?thesis by simp
qed

lemma sync_parts_other_partition:
  "fold (sync_part clk me synced) ps (st, s, out) = (st', s', out') \<Longrightarrow>
   \<forall>x\<in>set ps. PartitionId (word_of_nat x) \<noteq> p \<Longrightarrow> hm_get (w_sync st') p = hm_get (w_sync st) p"
proof (induction ps arbitrary: st s out)
  case (Cons x ps)
  obtain st1 s1 out1 where one: "sync_part clk me synced x (st, s, out) = (st1, s1, out1)" by (metis prod_cases3)
  with Cons.prems have rest: "fold (sync_part clk me synced) ps (st1, s1, out1) = (st', s', out')" by simp
  have "hm_get (w_sync st1) p = hm_get (w_sync st) p"
    using one Cons.prems(2) sync_partition_other_partition by (fastforce simp: sync_part_def Let_def)
  with Cons.IH [OF rest] Cons.prems(2) show ?case by simp
qed simp

lemma partition_numbers_differ:
  assumes "x < PARTITIONS_AMOUNT" and "y < PARTITIONS_AMOUNT" and "x \<noteq> y"
  shows "PartitionId (word_of_nat x) \<noteq> PartitionId (word_of_nat y)"
proof -
  have "unat (word_of_nat x :: 16 word) = x" "unat (word_of_nat y :: 16 word) = y"
    using assms(1,2) by (simp_all add: PARTITIONS_AMOUNT_def unat_of_nat)
  with assms(3) show ?thesis by (metis partition_id.inject)
qed

lemma sync_partition_lost:
  assumes "sync_partition clk me p [] (st, s, out) = (st', s', out')"
    and "hm_get (w_sync st) p = Some states" and "\<forall>r\<in>set (hm_keys states). hm_get (w_nodes st) r = None"
  shows "hm_get (w_sync st') p = Some []"
proof -
  have "hm_retain (\<lambda>r _. hm_get (w_nodes st) r \<noteq> None) states = []"
    using assms(3) by (auto simp: hm_retain_def filter_empty_conv)
  with assms(1,2) show ?thesis
    by (auto simp: sync_partition_def prune_after_sync_def Let_def hm_retain_def filter_empty_conv split: option.splits)
qed

lemma removed_partition_gone:
  assumes "(p, []) \<in> set sync" and "P p"
  shows "hm_get (cache (fold (\<lambda>(p, states) s. if states = [] \<and> P p then remove_partition s p else s) sync s)) p = None"
proof -
  have gone: "hm_get (cache s) p = None \<Longrightarrow>
      hm_get (cache (fold (\<lambda>(p, states) s. if states = [] \<and> P p then remove_partition s p else s) xs s)) p = None" for xs s
    by (induction xs arbitrary: s) (auto simp: remove_partition_def)
  show ?thesis
    using assms
  proof (induction sync arbitrary: s)
    case (Cons e sync)
    show ?case
    proof (cases "e = (p, [])")
      case True
      with Cons.prems(2) gone [of "remove_partition s p" sync] show ?thesis by (simp add: remove_partition_def)
    next
      case False
      with Cons show ?thesis by (auto split: prod.splits)
    qed
  qed simp
qed

lemma sync_partition_other_store:
  assumes "sync_partition clk me q rcs (st, s, out) = (st', s', out')" and "q \<noteq> p"
  shows "hm_get (cache s') p = hm_get (cache s) p"
  using assms by (auto simp: sync_partition_def prune_after_sync_def prune_partition_changes_def Let_def
      split: prod.splits option.splits)

lemma sync_parts_other_store:
  "fold (sync_part clk me synced) ps (st, s, out) = (st', s', out') \<Longrightarrow>
   \<forall>x\<in>set ps. PartitionId (word_of_nat x) \<noteq> p \<Longrightarrow> hm_get (cache s') p = hm_get (cache s) p"
proof (induction ps arbitrary: st s out)
  case (Cons x ps)
  obtain st1 s1 out1 where one: "sync_part clk me synced x (st, s, out) = (st1, s1, out1)" by (metis prod_cases3)
  with Cons.prems have rest: "fold (sync_part clk me synced) ps (st1, s1, out1) = (st', s', out')" by simp
  have "hm_get (cache s1) p = hm_get (cache s) p"
    using one Cons.prems(2) sync_partition_other_store by (fastforce simp: sync_part_def Let_def)
  with Cons.IH [OF rest] Cons.prems(2) show ?case by simp
qed simp

text \<open>What \<open>sync_partitions\<close> does to one partition: its own turn, then the removal of obsolete partitions.\<close>

lemma sync_partitions_turn:
  assumes wf: "wstate_wf st" "store_wf s" and part: "part < PARTITIONS_AMOUNT" "p = PartitionId (word_of_nat part)"
    and step: "sync_partitions clk me st s = (st', s', out)"
  obtains st1 s1 out1 st2 s2 out2 st3 s3 where
    "same_cluster st st1" "wstate_wf st1" "store_wf s1"
    "hm_get (w_sync st1) p = hm_get (w_sync st) p" "hm_get (cache s1) p = hm_get (cache s) p"
    "sync_partition clk me p (get_node_ids_curr_node_has_to_sync_the_partition_to p (me_id me) (w_partitions st) (w_nodes st)
       (hm_get (get_currently_synced_actual_nodes st) p)) (st1, s1, out1) = (st2, s2, out2)"
    "hm_get (w_sync st3) p = hm_get (w_sync st2) p" "hm_get (cache s3) p = hm_get (cache s2) p" "wstate_wf st3"
    "w_partitions st3 = w_partitions st"
    "remove_completed_syncs_and_obsolete_partitions me (st3, s3) = (st', s')"
proof -
  let ?f = "sync_part clk me (get_currently_synced_actual_nodes st)"
  obtain st1 s1 out1 where before: "fold ?f [0..<part] (st, s, []) = (st1, s1, out1)" by (metis prod_cases3)
  obtain st2 s2 out2 where turn: "?f part (st1, s1, out1) = (st2, s2, out2)" by (metis prod_cases3)
  obtain st3 s3 out3 where after: "fold ?f [Suc part..<PARTITIONS_AMOUNT] (st2, s2, out2) = (st3, s3, out3)"
    by (metis prod_cases3)
  have "[0..<PARTITIONS_AMOUNT] = [0..<part] @ part # [Suc part..<PARTITIONS_AMOUNT]"
    using part(1) upt_add_eq_append [of 0 part "PARTITIONS_AMOUNT - part"] upt_conv_Cons [of part PARTITIONS_AMOUNT] by simp
  then have all: "fold ?f [0..<PARTITIONS_AMOUNT] (st, s, []) = (st3, s3, out3)" using before turn after by simp
  have other: "\<forall>x\<in>set [0..<part]. PartitionId (word_of_nat x) \<noteq> p"
    "\<forall>x\<in>set [Suc part..<PARTITIONS_AMOUNT]. PartitionId (word_of_nat x) \<noteq> p"
    using part partition_numbers_differ by auto
  note keep1 = sync_parts_keeps [OF before wf]
  note keep3 = sync_parts_keeps [OF all wf]
  show thesis
  proof (rule that)
    show "sync_partition clk me p (get_node_ids_curr_node_has_to_sync_the_partition_to p (me_id me) (w_partitions st)
        (w_nodes st) (hm_get (get_currently_synced_actual_nodes st) p)) (st1, s1, out1) = (st2, s2, out2)"
      using turn keep1 by (simp add: sync_part_def part(2) same_cluster_def Let_def)
    show "remove_completed_syncs_and_obsolete_partitions me (st3, s3) = (st', s')"
      using step all by (auto simp: sync_partitions_eq split: prod.splits)
  qed (use keep1 keep3 sync_parts_other_partition [OF before other(1)] sync_parts_other_store [OF before other(1)]
      sync_parts_other_partition [OF after other(2)] sync_parts_other_store [OF after other(2)]
      in \<open>simp_all add: same_cluster_def\<close>)
qed

lemma remove_obsolete_drops:
  assumes "remove_completed_syncs_and_obsolete_partitions me (st, s) = (st', s')"
    and "hm_get (w_sync st) p = Some []" and "\<not> node_owns_partition (w_partitions st) p (me_id me)"
  shows "hm_get (cache s') p = None"
  using assms removed_partition_gone [of p "w_sync st" "\<lambda>p. \<not> node_owns_partition (w_partitions st) p (me_id me)" s]
  by (auto simp: remove_completed_syncs_and_obsolete_partitions_def dest: map_of_SomeD)

lemma sync_partitions_lost:
  assumes wf: "wstate_wf st" "store_wf s" and part: "part < PARTITIONS_AMOUNT" "p = PartitionId (word_of_nat part)"
    and sync: "hm_get (w_sync st) p = Some states" "\<forall>r\<in>set (hm_keys states). hm_get (w_nodes st) r = None"
    and none: "\<And>synced. get_node_ids_curr_node_has_to_sync_the_partition_to p (me_id me) (w_partitions st) (w_nodes st) synced = []"
    and not_owner: "\<not> node_owns_partition (w_partitions st) p (me_id me)"
    and step: "sync_partitions clk me st s = (st', s', out)"
  shows "hm_get (cache s') p = None"
proof (rule sync_partitions_turn [OF wf part step])
  fix st1 s1 out1 st2 s2 out2 st3 s3
  assume st1: "same_cluster st st1" "hm_get (w_sync st1) p = hm_get (w_sync st) p"
    and turn: "sync_partition clk me p (get_node_ids_curr_node_has_to_sync_the_partition_to p (me_id me) (w_partitions st)
      (w_nodes st) (hm_get (get_currently_synced_actual_nodes st) p)) (st1, s1, out1) = (st2, s2, out2)"
    and st3: "hm_get (w_sync st3) p = hm_get (w_sync st2) p" "w_partitions st3 = w_partitions st"
    and rm: "remove_completed_syncs_and_obsolete_partitions me (st3, s3) = (st', s')"
  from sync_partition_lost [OF turn [unfolded none], of states] sync st1 have "hm_get (w_sync st2) p = Some []"
    by (simp add: same_cluster_def)
  with remove_obsolete_drops [OF rm] st3 not_owner show ?thesis by simp
qed

text \<open>The messages the gRPC layer hands to the service.\<close>

lemma wg_announce_wf: "worker_msg_wf (wg_announce_worker i host port)" "worker_msg_wf (wg_announce_manager i host port)"
  by (simp_all add: wg_announce_worker_def wg_announce_manager_def)

lemma wg_on_peer_event_wf: "wg_on_peer_event me i e = Emit m \<Longrightarrow> worker_msg_wf m"
  by (cases e) auto

lemma wg_on_manager_event_wf: "wg_on_manager_event uuid i e = Emit m \<Longrightarrow> worker_msg_wf m"
  by (cases e) (auto simp: emit_with_def decoded_state_wf split: option.splits)

section \<open>Properties\<close>

text \<open>
  In every state a worker reaches, its cluster state is in place and well-formed (one entry per
  node, partition and recipient) and its store satisfies the store's invariant, whatever
  messages, ticks, client requests and clean-ups led there.
\<close>

theorem worker_stays_wf:
  assumes "worker_reachable worker_msg_wf config i svc"
  shows "\<exists>st. ws_state svc = Some st \<and> wstate_wf st \<and> store_wf (ws_runtime_store svc)"
  using worker_reachable_inv [OF assms] by (rule worker_invE) blast

theorem worker_stays_wf_witness: "wstate_wf demo_wstate"
  using worker_stays_wf [OF demo_worker_reachable] by (simp add: demo_worker_def)

text \<open>One step of a reachable worker: a message, a tick, the clean-up, a request of a client.\<close>

definition worker_moves :: "config \<Rightarrow> node_id \<Rightarrow> wservice \<Rightarrow> wservice \<Rightarrow> bool" where
  "worker_moves config i svc svc' \<longleftrightarrow> worker_reachable worker_msg_wf config i svc \<and>
     ((\<exists>rd m. worker_msg_wf m \<and> svc' = fst (w_process rd m svc)) \<or> (\<exists>rd. svc' = fst (w_tick rd svc)) \<or>
      (\<exists>now. svc' = expired_cleanup now svc) \<or> (\<exists>now now' r. svc' = fst (serve_client now now' r svc)))"

definition worker_age :: "wservice \<Rightarrow> nat" where
  "worker_age svc = (case ws_state svc of None \<Rightarrow> 0 | Some st \<Rightarrow> epoch_age (w_epoch st))"

definition worker_leader :: "wservice \<Rightarrow> node_id option" where
  "worker_leader svc = Option.bind (ws_state svc) w_elected_leader_id"

lemma worker_moves_advances:
  assumes "worker_moves config i svc svc'"
  obtains st st' where "ws_state svc = Some st" "ws_state svc' = Some st'" "w_advances st st'"
proof -
  have inv: "worker_inv (node_me config i) svc" using assms worker_reachable_inv by (simp add: worker_moves_def)
  then obtain st where st: "ws_state svc = Some st" by (auto elim: worker_invE)
  have "\<exists>st'. ws_state svc' = Some st' \<and> w_advances st st'"
    using assms unfolding worker_moves_def
  proof (elim conjE disjE exE)
    fix rd m
    assume m: "worker_msg_wf m" "svc' = fst (w_process rd m svc)"
    then have split: "w_process rd m svc = (svc', snd (w_process rd m svc))" by simp
    from w_process_cases [OF inv m(1) split] obtain st1 s1 out1 st' where
      "w_dispatch (node_me config i) rd m st (ws_runtime_store svc) = (st1, s1, out1)" "ws_state svc' = Some st'"
      "w_epoch st' = w_epoch st1" "w_elected_leader_id st' = w_elected_leader_id st1"
      using st by (metis option.inject)
    with w_dispatch_advances [of "node_me config i" rd m st] show ?thesis by (simp add: w_advances_def)
  next
    fix rd
    assume t: "svc' = fst (w_tick rd svc)"
    from inv show ?thesis
    proof (rule worker_invE)
      fix st0
      assume "ws_state svc = Some st0" "wstate_wf st0" "no_managers st0" "store_wf (ws_runtime_store svc)"
      with w_tick_keeps [of svc st0 rd "fst (w_tick rd svc)" "snd (w_tick rd svc)"] st t show ?thesis
        by (auto simp: w_advances_def)
    qed
  qed (auto simp: st w_advances_def expired_cleanup_def serve_client_def split: prod.splits)
  with st that show ?thesis by blast
qed

interpretation wk: leader_keeper worker_age worker_leader "worker_moves config i" for config i
proof
  show "worker_age svc \<le> worker_age svc'" if "worker_moves config i svc svc'" for svc svc'
    by (rule worker_moves_advances [OF that])
      (auto simp: worker_age_def w_advances_def dest: epoch_age_mono)
  show "worker_leader svc' = Some l"
    if "worker_moves config i svc svc'" "worker_age svc' = worker_age svc" "worker_leader svc = Some l" for svc svc' l
    by (rule worker_moves_advances [OF that(1)])
      (use that(2,3) in \<open>auto simp: worker_age_def worker_leader_def w_advances_def epoch_age_eq dest: epoch_age_mono\<close>)
qed

text \<open>
  C36: no step takes the epoch of a worker back: along every run the epoch advances or stays, and
  while it stays the worker keeps the leader it has; stale cluster states and announcements are
  refused.
\<close>

theorem worker_epochs_advance:
  assumes "(worker_moves config i)\<^sup>*\<^sup>* svc svc'" and "ws_state svc = Some st" and "ws_state svc' = Some st'"
  shows "opt_less (w_epoch st) (w_epoch st') \<or>
    w_epoch st' = w_epoch st \<and>
      (w_elected_leader_id st \<noteq> None \<longrightarrow> w_elected_leader_id st' = w_elected_leader_id st)"
proof (cases "w_epoch st' = w_epoch st")
  case True
  then have same: "worker_age svc' = worker_age svc" using assms(2,3) by (simp add: worker_age_def)
  have "w_elected_leader_id st' = Some l" if "w_elected_leader_id st = Some l" for l
    using wk.run_leader [OF assms(1) same, of l] that assms(2,3) by (simp add: worker_leader_def)
  with True show ?thesis by auto
next
  case False
  then show ?thesis using wk.run_age [OF assms(1)] assms(2,3) by (auto simp: worker_age_def epoch_age_less)
qed

theorem worker_epochs_advance_witness:
  "\<exists>st'. ws_state (fst (w_process demo_wreadings demo_state_message demo_worker)) = Some st' \<and>
     (opt_less None (w_epoch st') \<or> w_epoch st' = None)"
proof -
  obtain st' where st': "ws_state (fst (w_process demo_wreadings demo_state_message demo_worker)) = Some st'"
    using demo_process by blast
  have "worker_moves demo_worker_config (NodeId ''w'') demo_worker
      (fst (w_process demo_wreadings demo_state_message demo_worker))"
    using demo_worker_reachable demo_state_message_wf unfolding worker_moves_def by blast
  then have run: "(worker_moves demo_worker_config (NodeId ''w''))\<^sup>*\<^sup>* demo_worker
      (fst (w_process demo_wreadings demo_state_message demo_worker))" by simp
  have "ws_state demo_worker = Some demo_wstate" by (simp add: demo_worker_def)
  from worker_epochs_advance [OF run this st'] st' show ?thesis
    by (auto simp: demo_wstate_def new_wstate_def)
qed

text \<open>
  Every message the input layer of a worker hands to the service is well-formed; in particular
  the session with a manager is announced as one with a worker. The invariants above rest on this.
\<close>

theorem worker_input_messages_wf:
  "list_all worker_msg_wf (fst (wg_input_from_manager uuid i host port events)) \<and>
   list_all worker_msg_wf (fst (wg_input_from_worker me i host port peer_events))"
proof -
  have "list_all worker_msg_wf (fst (read_stream (wg_on_manager_event uuid i) events))"
    by (rule read_stream_all) (rule wg_on_manager_event_wf)
  moreover have "list_all worker_msg_wf (fst (read_stream (wg_on_peer_event me i) peer_events))"
    by (rule read_stream_all) (rule wg_on_peer_event_wf)
  ultimately show ?thesis
    by (auto simp: wg_input_from_manager_def wg_input_from_worker_def wg_announce_wf split: prod.splits)
qed

text \<open>
  C32: a former owner loses a partition when its recipients disconnect. The transfer of a partition
  to workers that are all gone leaves an empty entry behind, and one call of \<open>sync_partitions\<close> later the
  partition is removed from the store, whether or not anything of it was acknowledged.
\<close>

theorem lost_recipients_drop_partition:
  assumes "wstate_wf st" and "store_wf s" and "part < PARTITIONS_AMOUNT" and "p = PartitionId (word_of_nat part)"
    and "hm_get (w_sync st) p = Some states" and "\<forall>r\<in>set (hm_keys states). hm_get (w_nodes st) r = None"
    and "hm_get (mapping (w_partitions st)) p = Some q" and "me_id me \<notin> insert (p_master q) (set (p_replicas q))"
    and "\<forall>i\<in>insert (p_master q) (set (p_replicas q)). hm_get (w_nodes st) i = None"
    and "sync_partitions clk me st s = (st', s', out)" and "key_partition k = p"
  shows "store_lookup s' k = None"
proof -
  have "get_node_ids_curr_node_has_to_sync_the_partition_to p (me_id me) (w_partitions st) (w_nodes st) synced = []"
    for synced
  proof -
    have "i \<notin> set (get_node_ids_curr_node_has_to_sync_the_partition_to p (me_id me) (w_partitions st) (w_nodes st) synced)" for i
      using assms(8,9) unfolding sync_recipients_iff [OF assms(7) refl refl refl] by auto
    then show ?thesis by (metis equals0I set_empty)
  qed
  moreover have "\<not> node_owns_partition (w_partitions st) p (me_id me)"
    using assms(7,8) by (auto simp: node_owns_partition_def)
  ultimately have "hm_get (cache s') p = None"
    using sync_partitions_lost [OF assms(1-6)] assms(10) by blast
  with assms(11) show ?thesis by (simp add: store_lookup_def)
qed

theorem lost_recipients_drop_partition_witness:
  "store_lookup demo_former_store (Key 1) =
     Some (Put \<lparr>sr_expiration_time_ms = 0, sr_creation_time_ms = 5, sr_value = [7]\<rparr>) \<and>
   store_lookup (fst (snd (sync_partitions (\<lambda>_ _. (5, 5)) demo_worker_me demo_former_state demo_former_store))) (Key 1) = None"
proof -
  let ?q = "\<lparr>p_master = NodeId ''b'', p_replicas = []\<rparr>"
  have held: "store_lookup demo_former_store (Key 1) =
     Some (Put \<lparr>sr_expiration_time_ms = 0, sr_creation_time_ms = 5, sr_value = [7]\<rparr>)" by code_simp
  have wf: "wstate_wf demo_former_state" "store_wf demo_former_store"
    by (auto simp: demo_former_state_def demo_wstate_def new_wstate_def wstate_wf_def hm_or_default_def parts_wf_def
        demo_sent_def demo_former_store_def put_def store_wf_mutate split: option.splits)
  have "store_lookup (fst (snd (sync_partitions (\<lambda>_ _. (5, 5)) demo_worker_me demo_former_state demo_former_store))) (Key 1) = None"
    by (rule lost_recipients_drop_partition [OF wf, of 1 "PartitionId 1" demo_sent ?q demo_worker_me _
          "fst (sync_partitions (\<lambda>_ _. (5, 5)) demo_worker_me demo_former_state demo_former_store)" _
          "snd (snd (sync_partitions (\<lambda>_ _. (5, 5)) demo_worker_me demo_former_state demo_former_store))"])
      (simp_all add: demo_former_state_def demo_sent_def demo_wstate_def new_wstate_def demo_worker_me_def
        PARTITIONS_AMOUNT_def key_partition_word)
  with held show ?thesis by blast
qed

end
