(* ===== verification/Node_Start.thy ===== *)
theory Node_Start
  imports Manager_Service Worker_Node
begin

text \<open>
  Start-up of a node: \<open>main\<close> and the two \<open>run\<close> functions up to the first messages of the service
  (\<open>main.rs\<close>, \<open>manager/mod.rs\<close>, \<open>worker/mod.rs\<close>). The command line is the one \<open>cli.rs\<close> accepts; signals,
  tasks and channels are not modelled.
\<close>

datatype node_start =
    ManagerStarted mservice "manager_protocol list"
  | WorkerStarted wservice "worker_protocol list"
  | StartFailed string
  | StartPanicked

definition manager_start :: "config \<Rightarrow> node_id \<Rightarrow> u64 \<Rightarrow> mservice \<times> manager_protocol list" where
  "manager_start config i now = get_init_messages config now (new_mservice (node_me config i))"

definition start_node :: "command \<Rightarrow> node_id \<Rightarrow> u64 \<Rightarrow> node_start" where
  "start_node cmd i now =
     (case cmd of
        CommandManager _ _ _ _ \<Rightarrow>
          (case manager_start (config_from_cli cmd) i now of (svc, out) \<Rightarrow> ManagerStarted svc out)
      | CommandWorker _ _ _ _ \<Rightarrow>
          (case worker_start (config_from_cli cmd) i now of
             Inl e \<Rightarrow> StartFailed e
           | Inr None \<Rightarrow> StartPanicked
           | Inr (Some (svc, out)) \<Rightarrow> WorkerStarted svc out))"

text \<open>
  Start-up succeeds for every command line. A worker dials the manager it was given; a manager
  dials the given one when host and port are both there, and starts a cluster of its own at epoch 0
  otherwise. Either node announces the host given and the port given, or else its own gRPC port.
\<close>

theorem start_node_succeeds:
  "start_node (CommandWorker common host port interval) i now =
     WorkerStarted
       \<lparr>ws_me = \<lparr>me_id = i, me_host = ca_self_host common, me_port = ucast (self_port common)\<rparr>,
        ws_state = Some (new_wstate [(i, \<lparr>n_host = ca_self_host common, n_port = ucast (self_port common),
                           n_last_heartbeat = now, n_node_type = Worker\<rparr>)]),
        ws_runtime_store = new_runtime_store\<rparr>
       [WNewConnection None host (ucast port) True] \<and>
   start_node (CommandManager common mhost mport rf) i now =
     ManagerStarted
       \<lparr>ms_me = \<lparr>me_id = i, me_host = ca_self_host common, me_port = ucast (self_port common)\<rparr>,
        ms_state = Some (new_mstate [(i, \<lparr>n_host = ca_self_host common, n_port = ucast (self_port common),
                           n_last_heartbeat = now, n_node_type = Manager\<rparr>)]
                    (if mhost = None \<or> mport = None then Some 0 else None)),
        ms_elections = []\<rparr>
       (case mhost of
          None \<Rightarrow> []
        | Some h \<Rightarrow> (case mport of None \<Rightarrow> [] | Some p \<Rightarrow> [MNewConnection None h (ucast p) True]))"
  by (cases mhost; cases mport)
    (simp_all add: start_node_def worker_start_def manager_start_def w_get_init_messages_def get_init_messages_def
      new_wservice_def new_mservice_def node_me_def)

end
