(* ===== verification/Node_End.thy ===== *)
theory Node_End
  imports Node_Start
begin

text \<open>
  How a node ends (\<open>main.rs\<close>, the \<open>select!\<close> of \<open>manager/mod.rs\<close> and \<open>worker/mod.rs\<close>, \<open>start_server\<close> of the two
  gRPC layers). \<open>run\<close> waits for the first of its tasks or signals, cancels the others and returns.
  The tonic server is a parameter: given an address it serves until it is cancelled, or fails.
\<close>

section \<open>The server\<close>

text \<open>\<open>Display\<close> for an unsigned integer.\<close>

fun decimal :: "nat \<Rightarrow> string" where
  "decimal n = (if n < 10 then [char_of (48 + n)] else decimal (n div 10) @ [char_of (48 + n mod 10)])"

declare decimal.simps [simp del]

text \<open>The address both servers bind; it is well-formed for every port.\<close>

definition grpc_address :: "config \<Rightarrow> string" where
  "grpc_address config = ''0.0.0.0:'' @ decimal (unat (grpc_port config))"

definition manager_start_server :: "(string \<Rightarrow> string + unit) \<Rightarrow> config \<Rightarrow> string + unit" where
  "manager_start_server serve config = (case serve (grpc_address config) of Inl e \<Rightarrow> Inl e | Inr _ \<Rightarrow> Inr ())"

definition worker_start_server :: "(string \<Rightarrow> string + unit) \<Rightarrow> config \<Rightarrow> string + unit" where
  "worker_start_server serve config = (case serve (grpc_address config) of Inl e \<Rightarrow> Inl e | Inr _ \<Rightarrow> Inr ())"

section \<open>The end of a run\<close>

text \<open>What \<open>select!\<close> sees first.\<close>

datatype stop_event = ServerEnds | ServiceEnds | CleanupEnds | Sigterm | Sigint | Cancelled

record run_end =
  re_log :: "string list"
  re_cancelled :: bool
  re_result :: "string + unit"

definition server_log :: "string + unit \<Rightarrow> string list" where
  "server_log res = (case res of Inl e \<Rightarrow> [''GRPC server failed: '' @ e] | Inr _ \<Rightarrow> [])"

definition manager_run_end :: "(string \<Rightarrow> string + unit) \<Rightarrow> config \<Rightarrow> stop_event \<Rightarrow> run_end option" where
  "manager_run_end serve config ev =
     map_option (\<lambda>log. \<lparr>re_log = log @ [''Stopping manager''], re_cancelled = True, re_result = Inr ()\<rparr>)
       (case ev of
          ServerEnds \<Rightarrow> Some (server_log (manager_start_server serve config))
        | ServiceEnds \<Rightarrow> Some [''Manager service stopped'']
        | CleanupEnds \<Rightarrow> None
        | Sigterm \<Rightarrow> Some [''SIGTERM received'']
        | Sigint \<Rightarrow> Some [''SIGINT received'']
        | Cancelled \<Rightarrow> Some [])"

definition worker_run_end :: "(string \<Rightarrow> string + unit) \<Rightarrow> config \<Rightarrow> stop_event \<Rightarrow> run_end option" where
  "worker_run_end serve config ev =
     map_option (\<lambda>log. \<lparr>re_log = log @ [''Stopping worker''], re_cancelled = True, re_result = Inr ()\<rparr>)
       (case ev of
          ServerEnds \<Rightarrow> Some (server_log (worker_start_server serve config))
        | ServiceEnds \<Rightarrow> Some [''Worker service stopped'']
        | CleanupEnds \<Rightarrow> Some [''Expired-record cleanup stopped'']
        | Sigterm \<Rightarrow> Some [''SIGTERM received'']
        | Sigint \<Rightarrow> Some [''SIGINT received'']
        | Cancelled \<Rightarrow> Some [])"

text \<open>
  \<open>main\<close>: start-up, then the run until \<open>ev\<close>. The result is the outcome of the process; \<open>None\<close> when the
  node has no such task, and a panic during start-up.
\<close>

definition node_main ::
  "(string \<Rightarrow> string + unit) \<Rightarrow> command \<Rightarrow> node_id \<Rightarrow> u64 \<Rightarrow> stop_event \<Rightarrow> (string list \<times> (string + unit)) option" where
  "node_main serve cmd i now ev =
     (case start_node cmd i now of
        ManagerStarted _ _ \<Rightarrow>
          map_option (\<lambda>e. (re_log e, re_result e)) (manager_run_end serve (config_from_cli cmd) ev)
      | WorkerStarted _ _ \<Rightarrow>
          map_option (\<lambda>e. (re_log e, re_result e)) (worker_run_end serve (config_from_cli cmd) ev)
      | StartFailed e \<Rightarrow> Some ([], Inl e)
      | StartPanicked \<Rightarrow> None)"

section \<open>Lemmas\<close>

lemma digit_value_char: "d < 10 \<Longrightarrow> digit_value (char_of (48 + d)) = Some d"
  by (simp add: digit_value_def less_eq_char_def)

lemma parse_digits_append:
  "parse_digits acc (xs @ [c]) =
     (case parse_digits acc xs of None \<Rightarrow> None | Some v \<Rightarrow> parse_digits v [c])"
  by (induction xs arbitrary: acc) (auto split: option.split)

lemma parse_decimal: "n < 2 ^ 64 \<Longrightarrow> parse_digits 0 (decimal n) = Some n"
proof (induction n rule: less_induct)
  case (less n)
  show ?case
  proof (cases "n < 10")
    case True
    with less.prems digit_value_char [of n] show ?thesis by (simp add: decimal.simps)
  next
    case False
    then have "parse_digits 0 (decimal (n div 10)) = Some (n div 10)" using less by simp
    with False less.prems digit_value_char [of "n mod 10"] show ?thesis
      by (simp add: decimal.simps [of n] parse_digits_append)
  qed
qed

text \<open>
  The port in the address is the one the node was given: what the address has after the colon reads
  as the configured port.
\<close>

lemma grpc_address_port: "parse_digits 0 (drop 8 (grpc_address config)) = Some (unat (grpc_port config))"
proof -
  have "unat (grpc_port config) < 2 ^ 64" using unsigned_less [of "grpc_port config", where 'a = nat] by simp
  then show ?thesis by (simp add: grpc_address_def parse_decimal)
qed

text \<open>
  Whatever ends a node, its process reports success. Start-up succeeds for every command line, and
  \<open>run\<close> returns \<open>Ok\<close> also when the server could not bind its address, which only the log tells.
\<close>

lemma node_ends_with_success:
  "node_main serve (CommandWorker common host port interval) i now ev =
     Some (the_log, result) \<Longrightarrow> result = Inr ()"
  "node_main serve (CommandManager common mhost mport rf) i now ev =
     Some (the_log, result) \<Longrightarrow> result = Inr ()"
  by (auto simp: node_main_def start_node_def worker_start_def manager_start_def w_get_init_messages_def
      new_wservice_def node_me_def worker_run_end_def manager_run_end_def split: prod.splits option.splits)

lemma failed_server_reported_as_success:
  assumes "serve (''0.0.0.0:'' @ decimal (unat (ca_grpc_port common))) = Inl e"
  shows "node_main serve (CommandWorker common host port interval) i now ServerEnds =
    Some ([''GRPC server failed: '' @ e, ''Stopping worker''], Inr ())"
  using assms
  by (auto simp: node_main_def start_node_def worker_start_def w_get_init_messages_def new_wservice_def node_me_def
      worker_run_end_def worker_start_server_def server_log_def grpc_address_def split: prod.splits option.splits)

end
