(* ===== verification/Store_Threads.thy ===== *)
theory Store_Threads
  imports Runtime_Store
begin

text \<open>
  One partition of the store under concurrent calls (\<open>worker/runtime_store.rs\<close>), at the grain of the
  atomic operations of the source. \<open>put\<close> and \<open>delete_at\<close> hold the partition exclusively
  (\<open>DashMap::entry\<close>); the removal of an expired record by \<open>get_versioned\<close> and \<open>remove_expired\<close>, the four loads of
  \<open>stable_revision\<close> and the reads of records and journal hold it shared (\<open>DashMap::get\<close>) and interleave.
  Several partitions share a lock of the \<open>DashMap\<close>, which allows fewer interleavings than here. Writers of
  other partitions appear in the global revision counter only. The loop that prunes the journal is one
  step, coarser than the others. The counter does not overflow: a thread that would overflow it takes
  no step.
\<close>

section \<open>Threads\<close>

text \<open>
  Where a thread stands. \<open>Writing\<close> phases have entered the partition exclusively, all others but
  \<open>Idle\<close> share it. The second revision in \<open>Quiet\<close>, \<open>Compared\<close> and \<open>Returned\<close> is not part of the program: it notes
  the revision of the partition at the moment the thread saw no writer.
\<close>

datatype phase =
    Idle
  | Entered key mutation
  | Counted key mutation
  | Written key mutation
  | Taken key mutation u64
  | Journalled key mutation u64
  | Stored key mutation u64
  | Shared
  | Found key mutation
  | Leaving key mutation
  | Removed
  | ExpiryTaken u64
  | ExpiryStored
  | Before u64
  | Quiet u64 u64
  | Compared u64 u64 u64
  | Returned "u64 option" u64

fun exclusive :: "phase \<Rightarrow> bool" where
  "exclusive (Entered _ _) = True"
| "exclusive (Counted _ _) = True"
| "exclusive (Written _ _) = True"
| "exclusive (Taken _ _ _) = True"
| "exclusive (Journalled _ _ _) = True"
| "exclusive (Stored _ _ _) = True"
| "exclusive _ = False"

text \<open>The phases between \<open>writer()\<close> and the end of the guard.\<close>

fun writing :: "phase \<Rightarrow> bool" where
  "writing (Counted _ _) = True"
| "writing (Written _ _) = True"
| "writing (Taken _ _ _) = True"
| "writing (Journalled _ _ _) = True"
| "writing (Stored _ _ _) = True"
| "writing (Leaving _ _) = True"
| "writing Removed = True"
| "writing (ExpiryTaken _) = True"
| "writing ExpiryStored = True"
| "writing _ = False"

text \<open>What happened to the partition, in the order of the moments at which it took effect.\<close>

datatype store_op = Wrote key mutation u64 | Expired key mutation | Pruned u64 | Dropped

type_synonym contents = "(key \<times> mutation) list \<times> (u64 \<times> key) list"

definition expire_entry :: "key \<Rightarrow> mutation \<Rightarrow> (key \<times> mutation) list \<Rightarrow> (key \<times> mutation) list" where
  "expire_entry k m rs = (if hm_get rs k = Some m then hm_remove k rs else rs)"

definition write_entry :: "key \<Rightarrow> mutation \<Rightarrow> (key \<times> mutation) list \<Rightarrow> (key \<times> mutation) list" where
  "write_entry k m rs = sm_compare_insert k m (\<lambda>old. version old \<le> version m) rs"

fun apply_op :: "store_op \<Rightarrow> contents \<Rightarrow> contents" where
  "apply_op (Wrote k m r) (rs, cs) = (write_entry k m rs, sm_insert r k cs)"
| "apply_op (Expired k m) (rs, cs) = (expire_entry k m rs, cs)"
| "apply_op (Pruned r) (rs, cs) = (rs, prune_changes r cs)"
| "apply_op Dropped _ = ([], [])"

record conc =
  cc_part :: "partition_store option"
  cc_next :: u64
  cc_phase :: "nat \<Rightarrow> phase"
  cc_log :: "store_op list"

definition conc_init :: "u64 \<Rightarrow> conc" where
  "conc_init n = \<lparr>cc_part = None, cc_next = n, cc_phase = (\<lambda>_. Idle), cc_log = []\<rparr>"

definition go :: "nat \<Rightarrow> phase \<Rightarrow> conc \<Rightarrow> conc" where
  "go t q c = c\<lparr>cc_phase := (cc_phase c)(t := q)\<rparr>"

definition on_part :: "(partition_store \<Rightarrow> partition_store) \<Rightarrow> conc \<Rightarrow> conc" where
  "on_part f c = c\<lparr>cc_part := map_option f (cc_part c)\<rparr>"

definition log_op :: "store_op \<Rightarrow> conc \<Rightarrow> conc" where
  "log_op x c = c\<lparr>cc_log := cc_log c @ [x]\<rparr>"

definition take_revision :: "conc \<Rightarrow> conc" where
  "take_revision c = c\<lparr>cc_next := cc_next c + 1\<rparr>"

text \<open>A write, phase by phase.\<close>

inductive write_step :: "nat \<Rightarrow> conc \<Rightarrow> conc \<Rightarrow> bool" for t c where
  count: "cc_phase c t = Entered k m \<Longrightarrow> write_step t c (go t (Counted k m) (on_part writer c))"
| insert: "cc_phase c t = Counted k m \<Longrightarrow>
    write_step t c (go t (Written k m) (on_part (\<lambda>ps. ps\<lparr>records := write_entry k m (records ps)\<rparr>) c))"
| take: "cc_phase c t = Written k m \<Longrightarrow> cc_next c < cc_next c + 1 \<Longrightarrow>
    write_step t c (go t (Taken k m (cc_next c + 1)) (take_revision c))"
| journal: "cc_phase c t = Taken k m r \<Longrightarrow>
    write_step t c (go t (Journalled k m r) (on_part (\<lambda>ps. ps\<lparr>changes := sm_insert r k (changes ps)\<rparr>) c))"
| store: "cc_phase c t = Journalled k m r \<Longrightarrow>
    write_step t c (go t (Stored k m r) (on_part (\<lambda>ps. ps\<lparr>revision := r\<rparr>) c))"
| leave: "cc_phase c t = Stored k m r \<Longrightarrow>
    write_step t c (log_op (Wrote k m r) (go t Idle (on_part (\<lambda>ps. ps\<lparr>active_writers := active_writers ps - 1\<rparr>) c)))"

text \<open>The removal of an expired record, phase by phase.\<close>

inductive expiry_step :: "nat \<Rightarrow> conc \<Rightarrow> conc \<Rightarrow> bool" for t c where
  find_expired: "cc_phase c t = Shared \<Longrightarrow> cc_part c = Some ps \<Longrightarrow> hm_get (records ps) k = Some m \<Longrightarrow> expired now m \<Longrightarrow>
    expiry_step t c (go t (Found k m) c)"
| count_expiry: "cc_phase c t = Found k m \<Longrightarrow> expiry_step t c (go t (Leaving k m) (on_part writer c))"
| remove: "cc_phase c t = Leaving k m \<Longrightarrow>
    expiry_step t c (log_op (Expired k m) (go t Removed (on_part (\<lambda>ps. ps\<lparr>records := expire_entry k m (records ps)\<rparr>) c)))"
| take_expiry: "cc_phase c t = Removed \<Longrightarrow> cc_next c < cc_next c + 1 \<Longrightarrow>
    expiry_step t c (go t (ExpiryTaken (cc_next c + 1)) (take_revision c))"
| store_expiry: "cc_phase c t = ExpiryTaken r \<Longrightarrow>
    expiry_step t c (go t ExpiryStored (on_part (\<lambda>ps. ps\<lparr>revision := r\<rparr>) c))"
| finish_expiry: "cc_phase c t = ExpiryStored \<Longrightarrow>
    expiry_step t c (go t Shared (on_part (\<lambda>ps. ps\<lparr>active_writers := active_writers ps - 1\<rparr>) c))"

text \<open>The four loads of \<open>stable_revision\<close>.\<close>

inductive revision_step :: "nat \<Rightarrow> conc \<Rightarrow> conc \<Rightarrow> bool" for t c where
  load_before: "cc_phase c t = Shared \<Longrightarrow> cc_part c = Some ps \<Longrightarrow> revision_step t c (go t (Before (revision ps)) c)"
| saw_writers: "cc_phase c t = Before rb \<Longrightarrow> cc_part c = Some ps \<Longrightarrow> active_writers ps \<noteq> 0 \<Longrightarrow>
    revision_step t c (go t (Returned None (revision ps)) c)"
| saw_none: "cc_phase c t = Before rb \<Longrightarrow> cc_part c = Some ps \<Longrightarrow> active_writers ps = 0 \<Longrightarrow>
    revision_step t c (go t (Quiet rb (revision ps)) c)"
| load_after: "cc_phase c t = Quiet rb seen \<Longrightarrow> cc_part c = Some ps \<Longrightarrow>
    revision_step t c (go t (Compared rb seen (revision ps)) c)"
| load_writers: "cc_phase c t = Compared rb seen ra \<Longrightarrow> cc_part c = Some ps \<Longrightarrow>
    revision_step t c (go t (Returned (stable_revision_reads rb 0 ra (active_writers ps)) seen) c)"
| return: "cc_phase c t = Returned res seen \<Longrightarrow> revision_step t c (go t Shared c)"

inductive conc_step :: "conc \<Rightarrow> conc \<Rightarrow> bool" for c where
  writes: "write_step t c c' \<Longrightarrow> conc_step c c'"
| expires: "expiry_step t c c' \<Longrightarrow> conc_step c c'"
| revises: "revision_step t c c' \<Longrightarrow> conc_step c c'"
| enters: "\<forall>u. cc_phase c u = Idle \<Longrightarrow>
    conc_step c (go t (Entered k m)
      (c\<lparr>cc_part := Some (case cc_part c of Some ps \<Rightarrow> ps | None \<Rightarrow> default_partition_store)\<rparr>))"
| shares: "cc_phase c t = Idle \<Longrightarrow> \<forall>u. \<not> exclusive (cc_phase c u) \<Longrightarrow> cc_part c \<noteq> None \<Longrightarrow>
    conc_step c (go t Shared c)"
| unshares: "cc_phase c t = Shared \<Longrightarrow> conc_step c (go t Idle c)"
| prunes: "\<forall>u. \<not> exclusive (cc_phase c u) \<Longrightarrow>
    conc_step c (log_op (Pruned r) (on_part (\<lambda>ps. ps\<lparr>changes := prune_changes r (changes ps)\<rparr>) c))"
| drops: "\<forall>u. cc_phase c u = Idle \<Longrightarrow> conc_step c (log_op Dropped (c\<lparr>cc_part := None\<rparr>))"
| elsewhere: "cc_next c < cc_next c + 1 \<Longrightarrow> conc_step c (take_revision c)"

inductive conc_reachable :: "u64 \<Rightarrow> conc \<Rightarrow> bool" for n where
  conc_start: "conc_reachable n (conc_init n)"
| conc_next: "conc_reachable n c \<Longrightarrow> conc_step c c' \<Longrightarrow> conc_reachable n c'"

section \<open>Locks\<close>

lemma conc_simps [simp]:
  "cc_phase (go t q c) = (cc_phase c)(t := q)" "cc_part (go t q c) = cc_part c" "cc_next (go t q c) = cc_next c"
  "cc_log (go t q c) = cc_log c"
  "cc_phase (on_part f c) = cc_phase c" "cc_part (on_part f c) = map_option f (cc_part c)"
  "cc_next (on_part f c) = cc_next c" "cc_log (on_part f c) = cc_log c"
  "cc_phase (log_op x c) = cc_phase c" "cc_part (log_op x c) = cc_part c" "cc_next (log_op x c) = cc_next c"
  "cc_log (log_op x c) = cc_log c @ [x]"
  "cc_phase (take_revision c) = cc_phase c" "cc_part (take_revision c) = cc_part c"
  "cc_next (take_revision c) = cc_next c + 1" "cc_log (take_revision c) = cc_log c"
  by (simp_all add: go_def on_part_def log_op_def take_revision_def)

definition locks_ok :: "conc \<Rightarrow> bool" where
  "locks_ok c \<longleftrightarrow> (\<forall>t u. exclusive (cc_phase c t) \<longrightarrow> u \<noteq> t \<longrightarrow> cc_phase c u = Idle) \<and>
     (cc_part c = None \<longrightarrow> (\<forall>t. cc_phase c t = Idle))"

lemma exclusive_alone: "locks_ok c \<Longrightarrow> exclusive (cc_phase c t) \<Longrightarrow> u \<noteq> t \<Longrightarrow> cc_phase c u = Idle"
  unfolding locks_ok_def by blast

lemma shared_excludes:
  "locks_ok c \<Longrightarrow> cc_phase c t \<noteq> Idle \<Longrightarrow> \<not> exclusive (cc_phase c t) \<Longrightarrow> \<not> exclusive (cc_phase c u)"
  using exclusive_alone [of c u t] by (cases "t = u") auto

lemma locks_ok_go:
  assumes "locks_ok c" and "cc_phase c t \<noteq> Idle" and "exclusive (cc_phase c' t) \<Longrightarrow> exclusive (cc_phase c t)"
    and "\<And>u. u \<noteq> t \<Longrightarrow> cc_phase c' u = cc_phase c u" and "cc_part c' = None \<longleftrightarrow> cc_part c = None"
  shows "locks_ok c'"
  using assms unfolding locks_ok_def by metis

lemma step_phase:
  "write_step t c c' \<Longrightarrow> exclusive (cc_phase c t)" "expiry_step t c c' \<Longrightarrow> cc_phase c t \<noteq> Idle \<and> \<not> exclusive (cc_phase c t)"
  "revision_step t c c' \<Longrightarrow> cc_phase c t \<noteq> Idle \<and> \<not> exclusive (cc_phase c t)"
  by (auto elim: write_step.cases expiry_step.cases revision_step.cases)

lemma locks_ok_step: "conc_step c c' \<Longrightarrow> locks_ok c \<Longrightarrow> locks_ok c'"
proof (induction rule: conc_step.induct)
  case (writes t c')
  then show ?case by (cases rule: write_step.cases) (auto intro!: locks_ok_go [of c t])
next
  case (expires t c')
  then show ?case by (cases rule: expiry_step.cases) (auto intro!: locks_ok_go [of c t])
next
  case (revises t c')
  then show ?case by (cases rule: revision_step.cases) (auto intro!: locks_ok_go [of c t])
qed (auto simp: locks_ok_def)

section \<open>Revisions\<close>

text \<open>The revision a thread has taken from the counter and not yet stored.\<close>

fun pending :: "phase \<Rightarrow> u64 option" where
  "pending (Taken _ _ r) = Some r"
| "pending (Journalled _ _ r) = Some r"
| "pending (ExpiryTaken r) = Some r"
| "pending _ = None"

text \<open>
  The stored revision, the counter and the pending revisions: all taken from the counter, each
  pending at one thread at most and not stored yet.
\<close>

definition revs_ok :: "u64 option \<Rightarrow> u64 \<Rightarrow> (nat \<Rightarrow> u64 option) \<Rightarrow> bool" where
  "revs_ok stored n p \<longleftrightarrow> (\<forall>x. stored = Some x \<longrightarrow> x \<le> n) \<and>
     (\<forall>t r. p t = Some r \<longrightarrow> r \<le> n \<and> stored \<noteq> Some r \<and> (\<forall>u. p u = Some r \<longrightarrow> u = t))"

text \<open>A revision that will not be stored any more.\<close>

definition past :: "u64 option \<Rightarrow> u64 \<Rightarrow> (nat \<Rightarrow> u64 option) \<Rightarrow> u64 \<Rightarrow> bool" where
  "past stored n p x \<longleftrightarrow> x \<le> n \<and> stored \<noteq> Some x \<and> (\<forall>t. p t \<noteq> Some x)"

lemma revs_elsewhere:
  assumes "revs_ok stored n p" and "n < n'"
  shows "revs_ok stored n' p"
proof -
  have "x \<le> n'" if "x \<le> n" for x using that assms(2) by simp
  with assms(1) show ?thesis unfolding revs_ok_def by blast
qed

lemma revs_take:
  assumes "revs_ok stored n p" and "n < n'"
  shows "revs_ok stored n' (p(t := Some n'))"
proof -
  have "\<not> n' \<le> n" using assms(2) by simp
  with assms(1) have "stored \<noteq> Some n'" "\<forall>u. p u \<noteq> Some n'" unfolding revs_ok_def by blast+
  with revs_elsewhere [OF assms] show ?thesis by (auto simp: revs_ok_def)
qed

lemma revs_store: "revs_ok stored n p \<Longrightarrow> p t = Some r \<Longrightarrow> revs_ok (Some r) n (p(t := None))"
  unfolding revs_ok_def by auto

lemma revs_none: "revs_ok stored n p \<Longrightarrow> revs_ok None n (p(t := None))"
  unfolding revs_ok_def by auto

lemma revs_ok_pending: "revs_ok stored n p \<Longrightarrow> p t = Some r \<Longrightarrow> r \<le> n"
  unfolding revs_ok_def by blast

lemma past_elsewhere: "past stored n p x \<Longrightarrow> n < n' \<Longrightarrow> past stored n' p x"
  unfolding past_def by auto

lemma past_take: "past stored n p x \<Longrightarrow> n < n' \<Longrightarrow> past stored n' (p(t := Some n')) x"
  unfolding past_def by auto

lemma past_store: "past stored n p x \<Longrightarrow> p t = Some r \<Longrightarrow> past (Some r) n (p(t := None)) x"
  unfolding past_def by auto

lemma stored_past: "revs_ok (Some x) n p \<Longrightarrow> p t = Some r \<Longrightarrow> past (Some r) n (p(t := None)) x"
  unfolding past_def revs_ok_def by auto

definition stored_of :: "conc \<Rightarrow> u64 option" where
  "stored_of c = map_option revision (cc_part c)"

definition pending_of :: "conc \<Rightarrow> nat \<Rightarrow> u64 option" where
  "pending_of c = pending \<circ> cc_phase c"

text \<open>What a step does to the revisions: nothing, take one from the counter, store one, or start afresh.\<close>

lemma pending_of_simps [simp]:
  "pending_of (go t q c) = (pending_of c)(t := pending q)" "pending_of (on_part f c) = pending_of c"
  "pending_of (log_op x c) = pending_of c" "pending_of (take_revision c) = pending_of c"
  "pending_of (c\<lparr>cc_part := pp\<rparr>) = pending_of c"
  by (simp_all add: pending_of_def fun_upd_comp)

lemma stored_of_simps [simp]:
  "stored_of (go t q c) = stored_of c" "stored_of (log_op x c) = stored_of c" "stored_of (take_revision c) = stored_of c"
  "stored_of (c\<lparr>cc_part := pp\<rparr>) = map_option revision pp"
  "(\<And>ps. revision (f ps) = revision ps) \<Longrightarrow> stored_of (on_part f c) = stored_of c"
  "stored_of (on_part (\<lambda>ps. ps\<lparr>revision := r\<rparr>) c) = map_option (\<lambda>_. r) (stored_of c)"
  by (simp_all add: stored_of_def option.map_comp comp_def)

lemma pending_of_phase: "cc_phase c t = q \<Longrightarrow> pending_of c t = pending q"
  by (simp add: pending_of_def)

text \<open>What a step does to the revisions: nothing, take one from the counter, store one, or start afresh.\<close>

definition revisions_move :: "conc \<Rightarrow> conc \<Rightarrow> bool" where
  "revisions_move c c' \<longleftrightarrow>
     stored_of c' = stored_of c \<and> cc_next c' = cc_next c \<and> pending_of c' = pending_of c \<or>
     cc_next c < cc_next c' \<and> stored_of c' = stored_of c \<and>
       (pending_of c' = pending_of c \<or> (\<exists>t. pending_of c' = (pending_of c)(t := Some (cc_next c')))) \<or>
     (\<exists>t r. pending_of c t = Some r \<and> stored_of c' = map_option (\<lambda>_. r) (stored_of c) \<and> cc_next c' = cc_next c \<and>
       pending_of c' = (pending_of c)(t := None)) \<or>
     (\<forall>u. cc_phase c u = Idle) \<and> (\<forall>u. pending_of c' u = None) \<and> cc_next c' = cc_next c \<and>
       (stored_of c' = None \<or> stored_of c' = Some 0)"

lemma revisions_moveI:
  "stored_of c' = stored_of c \<Longrightarrow> cc_next c' = cc_next c \<Longrightarrow> pending_of c' = pending_of c \<Longrightarrow> revisions_move c c'"
  "cc_next c < cc_next c' \<Longrightarrow> stored_of c' = stored_of c \<Longrightarrow> pending_of c' = (pending_of c)(t := Some (cc_next c')) \<Longrightarrow>
     revisions_move c c'"
  "pending_of c t = Some r \<Longrightarrow> stored_of c' = map_option (\<lambda>_. r) (stored_of c) \<Longrightarrow> cc_next c' = cc_next c \<Longrightarrow>
     pending_of c' = (pending_of c)(t := None) \<Longrightarrow> revisions_move c c'"
  unfolding revisions_move_def by blast+

lemma step_revisions_move: "conc_step c c' \<Longrightarrow> revisions_move c c'"
proof (induction rule: conc_step.induct)
  case (writes t c')
  then show ?case
  proof (cases rule: write_step.cases)
    case (take k m)
    then show ?thesis by (intro revisions_moveI(2) [of _ _ t]) auto
  next
    case (store k m r)
    then show ?thesis by (intro revisions_moveI(3) [of _ t r]) (auto simp: pending_of_def)
  qed (auto intro!: revisions_moveI(1) simp: fun_upd_idem dest!: pending_of_phase)
next
  case (expires t c')
  then show ?case
  proof (cases rule: expiry_step.cases)
    case (take_expiry)
    then show ?thesis by (intro revisions_moveI(2) [of _ _ t]) auto
  next
    case (store_expiry r)
    then show ?thesis by (intro revisions_moveI(3) [of _ t r]) (auto simp: pending_of_def)
  qed (auto intro!: revisions_moveI(1) simp: fun_upd_idem dest!: pending_of_phase)
next
  case (revises t c')
  then show ?case
    by (cases rule: revision_step.cases) (auto intro!: revisions_moveI(1) simp: fun_upd_idem dest!: pending_of_phase)
next
  case (enters t k m)
  then show ?case by (auto simp: revisions_move_def pending_of_def stored_of_def fun_upd_def split: option.splits)
next
  case (drops)
  then show ?case by (auto simp: revisions_move_def pending_of_def)
next
  case (elsewhere)
  then show ?case by (auto simp: revisions_move_def)
qed (auto intro!: revisions_moveI(1) simp: fun_upd_idem dest!: pending_of_phase)

section \<open>What a thread has loaded\<close>

definition loaded :: "conc \<Rightarrow> u64 \<Rightarrow> bool" where
  "loaded c x \<longleftrightarrow> stored_of c = Some x \<or> past (stored_of c) (cc_next c) (pending_of c) x"

fun load_ok :: "conc \<Rightarrow> phase \<Rightarrow> bool" where
  "load_ok c (Before rb) = loaded c rb"
| "load_ok c (Quiet rb seen) = (loaded c rb \<and> (seen = rb \<or> past (stored_of c) (cc_next c) (pending_of c) rb))"
| "load_ok c (Compared rb seen ra) = (rb = ra \<longrightarrow> seen = rb)"
| "load_ok c (Returned res seen) = (\<forall>r. res = Some r \<longrightarrow> seen = r)"
| "load_ok c _ = True"

definition loads_ok :: "conc \<Rightarrow> bool" where
  "loads_ok c \<longleftrightarrow> revs_ok (stored_of c) (cc_next c) (pending_of c) \<and> (\<forall>t. load_ok c (cc_phase c t))"

lemma revs_ok_move:
  "revisions_move c c' \<Longrightarrow> revs_ok (stored_of c) (cc_next c) (pending_of c) \<Longrightarrow>
   revs_ok (stored_of c') (cc_next c') (pending_of c')"
proof -
  assume m: "revisions_move c c'" and ok: "revs_ok (stored_of c) (cc_next c) (pending_of c)"
  from m consider
      (same) "stored_of c' = stored_of c" "cc_next c' = cc_next c" "pending_of c' = pending_of c"
    | (onward) "cc_next c < cc_next c'" "stored_of c' = stored_of c" "pending_of c' = pending_of c"
    | (take) t where "cc_next c < cc_next c'" "stored_of c' = stored_of c" "pending_of c' = (pending_of c)(t := Some (cc_next c'))"
    | (store) t r where "pending_of c t = Some r" "stored_of c' = map_option (\<lambda>_. r) (stored_of c)" "cc_next c' = cc_next c"
        "pending_of c' = (pending_of c)(t := None)"
    | (fresh) "\<forall>u. pending_of c' u = None" "stored_of c' = None \<or> stored_of c' = Some 0"
    unfolding revisions_move_def by blast
  then show "revs_ok (stored_of c') (cc_next c') (pending_of c')"
  proof cases
    case store
    then show ?thesis using revs_store [OF ok store(1)] revs_none [OF ok] by (cases "stored_of c") simp_all
  next
    case fresh
    then show ?thesis by (auto simp: revs_ok_def)
  qed (use ok in \<open>auto intro: revs_elsewhere revs_take\<close>)
qed

lemma past_move:
  assumes "revisions_move c c'" and "cc_phase c t \<noteq> Idle" and "past (stored_of c) (cc_next c) (pending_of c) x"
  shows "past (stored_of c') (cc_next c') (pending_of c') x"
  using assms unfolding revisions_move_def
  by (elim disjE conjE exE) (auto simp: past_def)

lemma loaded_move:
  assumes "revisions_move c c'" and "revs_ok (stored_of c) (cc_next c) (pending_of c)" and "cc_phase c t \<noteq> Idle"
    and "loaded c x"
  shows "loaded c' x"
proof (cases "stored_of c = Some x")
  case True
  with assms(1-3) show ?thesis
    unfolding revisions_move_def loaded_def
    by (elim disjE conjE exE) (auto simp: revs_ok_def past_def)
next
  case False
  with assms show ?thesis using past_move [OF assms(1,3)] by (auto simp: loaded_def)
qed

lemma load_ok_move:
  assumes "revisions_move c c'" and "revs_ok (stored_of c) (cc_next c) (pending_of c)" and "load_ok c (cc_phase c t)"
  shows "load_ok c' (cc_phase c t)"
  using assms(3) loaded_move [OF assms(1,2)] past_move [OF assms(1)]
  by (cases "cc_phase c t") (fastforce elim: past_move [OF assms(1)])+

lemma loads_ok_same:
  assumes "loads_ok c" and "revisions_move c c'" and "\<And>u. cc_phase c' u = cc_phase c u \<or> load_ok c' (cc_phase c' u)"
  shows "loads_ok c'"
  using assms revs_ok_move load_ok_move unfolding loads_ok_def by metis

lemma loads_ok_step: "conc_step c c' \<Longrightarrow> loads_ok c \<Longrightarrow> loads_ok c'"
proof -
  assume step: "conc_step c c'" and ok: "loads_ok c"
  have "cc_phase c' u = cc_phase c u \<or> load_ok c' (cc_phase c' u)" for u
    using step
  proof (cases rule: conc_step.cases)
    case (writes t)
    then show ?thesis by (cases rule: write_step.cases) auto
  next
    case (expires t)
    then show ?thesis by (cases rule: expiry_step.cases) auto
  next
    case (revises t)
    then show ?thesis
    proof (cases rule: revision_step.cases)
      case (load_before ps)
      then show ?thesis by (auto simp: loaded_def stored_of_def)
    next
      case (saw_none rb ps)
      with ok have "load_ok c (Before rb)" unfolding loads_ok_def by metis
      with saw_none show ?thesis by (auto simp: loaded_def stored_of_def pending_of_def fun_upd_comp fun_upd_idem)
    next
      case (load_after rb seen ps)
      with ok have "load_ok c (Quiet rb seen)" unfolding loads_ok_def by metis
      with load_after show ?thesis by (auto simp: loaded_def stored_of_def past_def)
    next
      case (load_writers rb seen ra ps)
      with ok have "load_ok c (Compared rb seen ra)" unfolding loads_ok_def by metis
      with load_writers show ?thesis by (auto simp: stable_revision_reads_def split: if_splits)
    qed auto
  qed auto
  with loads_ok_same [OF ok step_revisions_move [OF step]] show "loads_ok c'" by blast
qed

section \<open>Writers\<close>

definition writers :: "conc \<Rightarrow> nat set" where
  "writers c = {t. writing (cc_phase c t)}"

lemma writers_simps [simp]:
  "writers (go t q c) = (if writing q then insert t (writers c) else writers c - {t})"
  "writers (on_part f c) = writers c" "writers (log_op x c) = writers c" "writers (take_revision c) = writers c"
  "writers (c\<lparr>cc_part := pp\<rparr>) = writers c"
  by (auto simp: writers_def)

definition writers_ok :: "conc \<Rightarrow> bool" where
  "writers_ok c \<longleftrightarrow> finite (writers c) \<and> (\<forall>ps. cc_part c = Some ps \<longrightarrow> active_writers ps = card (writers c))"

lemma writers_idle: "\<forall>u. cc_phase c u = Idle \<Longrightarrow> writers c = {}"
  by (simp add: writers_def)

lemma in_writers: "cc_phase c t = q \<Longrightarrow> t \<in> writers c \<longleftrightarrow> writing q"
  by (simp add: writers_def)

lemma writers_ok_step: "conc_step c c' \<Longrightarrow> writers_ok c \<Longrightarrow> writers_ok c'"
proof (induction rule: conc_step.induct)
  case (writes t c')
  then show ?case
    by (cases rule: write_step.cases) (auto simp: writers_ok_def insert_absorb dest!: in_writers)
next
  case (expires t c')
  then show ?case
    by (cases rule: expiry_step.cases) (auto simp: writers_ok_def insert_absorb dest!: in_writers)
next
  case (revises t c')
  then show ?case
    by (cases rule: revision_step.cases) (auto simp: writers_ok_def insert_absorb dest!: in_writers)
qed (auto simp: writers_ok_def writers_idle dest!: in_writers split: option.splits)

section \<open>The journal\<close>

definition journal_of :: "conc \<Rightarrow> u64 set" where
  "journal_of c = (case cc_part c of None \<Rightarrow> {} | Some ps \<Rightarrow> fst ` set (changes ps))"

text \<open>A revision the thread will store or has seen, which no journal entry may exceed.\<close>

fun limit :: "phase \<Rightarrow> u64 option" where
  "limit (Taken _ _ r) = Some r"
| "limit (Journalled _ _ r) = Some r"
| "limit (ExpiryTaken r) = Some r"
| "limit (Quiet _ seen) = Some seen"
| "limit (Compared _ seen _) = Some seen"
| "limit (Returned _ seen) = Some seen"
| "limit _ = None"

definition bounded_by :: "conc \<Rightarrow> u64 \<Rightarrow> bool" where
  "bounded_by c x \<longleftrightarrow> x \<le> cc_next c \<and> (\<forall>t l. limit (cc_phase c t) = Some l \<longrightarrow> x \<le> l) \<and>
     (\<forall>y. stored_of c = Some y \<longrightarrow> x \<le> y \<or> (\<exists>t k m. cc_phase c t = Journalled k m x))"

definition journal_bounded :: "conc \<Rightarrow> bool" where
  "journal_bounded c \<longleftrightarrow> (\<forall>x \<in> journal_of c. bounded_by c x)"

lemma prune_changes_subset: "set (prune_changes r cs) \<subseteq> set cs"
  by (induction cs) auto

lemma journal_of_simps [simp]:
  "journal_of (go t q c) = journal_of c" "journal_of (log_op x c) = journal_of c" "journal_of (take_revision c) = journal_of c"
  "(\<And>ps. changes (f ps) = changes ps) \<Longrightarrow> journal_of (on_part f c) = journal_of c"
  by (auto simp: journal_of_def split: option.split)

lemma journal_of_insert:
  "journal_of (on_part (\<lambda>ps. ps\<lparr>changes := sm_insert r k (changes ps)\<rparr>) c) \<subseteq> insert r (journal_of c)"
  by (auto simp: journal_of_def sm_insert_keys split: option.splits)

lemma journal_of_prune:
  "journal_of (on_part (\<lambda>ps. ps\<lparr>changes := prune_changes r (changes ps)\<rparr>) c) \<subseteq> journal_of c"
  using prune_changes_subset by (fastforce simp: journal_of_def split: option.splits)

text \<open>A step that keeps the stored revision bounds a revision again if its thread's new limit does.\<close>

lemma bounded_by_same:
  assumes "bounded_by c x" and "stored_of c' = stored_of c" and "cc_next c \<le> cc_next c'"
    and "\<And>u. u \<noteq> t \<Longrightarrow> cc_phase c' u = cc_phase c u" and "\<And>l. limit (cc_phase c' t) = Some l \<Longrightarrow> x \<le> l"
    and "\<And>k m r. cc_phase c t \<noteq> Journalled k m r"
  shows "bounded_by c' x"
proof -
  have "x \<le> cc_next c'" using assms(1,3) by (auto simp: bounded_by_def intro: order.trans)
  moreover have "x \<le> l" if "limit (cc_phase c' u) = Some l" for u l
    using that assms(1,4,5) by (cases "u = t") (auto simp: bounded_by_def)
  moreover have "x \<le> y \<or> (\<exists>u k m. cc_phase c' u = Journalled k m x)" if y: "stored_of c' = Some y" for y
  proof (cases "x \<le> y")
    case False
    with assms(1,2) y obtain u k m where "cc_phase c u = Journalled k m x"
      unfolding bounded_by_def by metis
    with assms(4) [of u] assms(6) show ?thesis by (cases "u = t") auto
  qed simp
  ultimately show ?thesis unfolding bounded_by_def by blast
qed

lemma bounded_by_stored:
  assumes "bounded_by c x" and "limit (cc_phase c t) = Some r" and "stored_of c' = map_option (\<lambda>_. r) (stored_of c)"
    and "cc_next c' = cc_next c" and "\<And>u. u \<noteq> t \<Longrightarrow> cc_phase c' u = cc_phase c u" and "limit (cc_phase c' t) = None"
  shows "bounded_by c' x"
proof -
  have "x \<le> l" if "limit (cc_phase c' u) = Some l" for u l
    using that assms(1,5,6) by (cases "u = t") (auto simp: bounded_by_def)
  moreover have "x \<le> r" using assms(1,2) by (simp add: bounded_by_def)
  ultimately show ?thesis using assms(1,3,4) unfolding bounded_by_def by auto
qed

lemma bounded_by_limit: "bounded_by c x \<Longrightarrow> limit (cc_phase c t) = Some l \<Longrightarrow> x \<le> l"
  unfolding bounded_by_def by blast

lemma bounded_by_next: "bounded_by c x \<Longrightarrow> x \<le> cc_next c"
  by (simp add: bounded_by_def)

lemma journal_bounded_take:
  assumes "journal_bounded c" and "cc_next c \<le> cc_next c + 1" and "\<And>k m r. cc_phase c t \<noteq> Journalled k m r"
    and "limit q = None \<or> limit q = Some (cc_next c + 1)"
  shows "journal_bounded (go t q (take_revision c))"
proof -
  have "bounded_by (go t q (take_revision c)) x" if "bounded_by c x" for x
    using that
  proof (rule bounded_by_same [of _ _ _ t])
    show "x \<le> l" if "limit (cc_phase (go t q (take_revision c)) t) = Some l" for l
      using that assms(4) order.trans [OF bounded_by_next [OF \<open>bounded_by c x\<close>] assms(2)] by auto
  qed (use assms(2,3) in auto)
  with assms(1) show ?thesis by (auto simp: journal_bounded_def)
qed

lemma journal_bounded_store:
  assumes "journal_bounded c" and "limit (cc_phase c t) = Some r" and "limit q = None"
  shows "journal_bounded (go t q (on_part (\<lambda>ps. ps\<lparr>revision := r\<rparr>) c))"
proof -
  have "bounded_by (go t q (on_part (\<lambda>ps. ps\<lparr>revision := r\<rparr>) c)) x" if "bounded_by c x" for x
    using that assms(2) by (rule bounded_by_stored) (simp_all add: assms(3))
  with assms(1) show ?thesis by (simp add: journal_bounded_def)
qed

lemma journal_bounded_go:
  assumes "journal_bounded c" and "journal_of c' = journal_of c" and "stored_of c' = stored_of c"
    and "cc_next c' = cc_next c" and "\<And>u. u \<noteq> t \<Longrightarrow> cc_phase c' u = cc_phase c u"
    and "\<And>k m r. cc_phase c t \<noteq> Journalled k m r"
    and "\<And>x l. limit (cc_phase c' t) = Some l \<Longrightarrow> bounded_by c x \<Longrightarrow> x \<le> l"
  shows "journal_bounded c'"
proof -
  have "bounded_by c' x" if "bounded_by c x" for x
    by (rule bounded_by_same [of _ _ _ t, OF that]) (use assms(3-7) that in simp_all)
  with assms(1,2) show ?thesis by (simp add: journal_bounded_def)
qed

lemma journal_bounded_write:
  assumes "write_step t c c'" and "journal_bounded c" and "locks_ok c" and "revs_ok (stored_of c) (cc_next c) (pending_of c)"
  shows "journal_bounded c'"
  using assms(1)
proof (cases rule: write_step.cases)
  case (take k m)
  from take(3) have "cc_next c \<le> cc_next c + 1" by (rule order.strict_implies_order)
  with take(1,2) assms(2) show ?thesis by (auto intro: journal_bounded_take)
next
  case (journal k m r)
  have idle: "cc_phase c u = Idle" if "u \<noteq> t" for u
    by (rule exclusive_alone [OF assms(3) _ that]) (simp add: journal)
  have r: "r \<le> cc_next c"
    by (rule revs_ok_pending [OF assms(4), of t]) (simp add: pending_of_def journal)
  have "bounded_by c' x" if "x \<in> journal_of c'" for x
  proof (cases "x = r")
    case True
    with r journal idle show ?thesis by (auto simp: bounded_by_def)
  next
    case False
    with that journal journal_of_insert [of r k c] assms(2) have x: "bounded_by c x"
      by (auto simp: journal_bounded_def)
    then have "x \<le> r" by (rule bounded_by_limit [of _ _ t]) (simp add: journal)
    then show ?thesis by (intro bounded_by_same [OF x, of _ t]) (simp_all add: journal)
  qed
  then show ?thesis by (simp add: journal_bounded_def)
next
  case (store k m r)
  with assms(2) show ?thesis by (auto intro: journal_bounded_store)
qed (rule journal_bounded_go [OF assms(2), of _ t]; simp)+

lemma journal_bounded_expiry:
  assumes "expiry_step t c c'" and "journal_bounded c"
  shows "journal_bounded c'"
  using assms(1)
proof (cases rule: expiry_step.cases)
  case take_expiry
  from take_expiry(3) have "cc_next c \<le> cc_next c + 1" by (rule order.strict_implies_order)
  with take_expiry(1,2) assms(2) show ?thesis by (auto intro: journal_bounded_take)
next
  case (store_expiry r)
  with assms(2) show ?thesis by (auto intro: journal_bounded_store)
qed (rule journal_bounded_go [OF assms(2), of _ t]; simp)+

lemma journal_bounded_revision:
  assumes "revision_step t c c'" and "journal_bounded c" and "locks_ok c"
  shows "journal_bounded c'"
proof -
  have no: "cc_phase c u \<noteq> Journalled k m r" for u k m r
  proof
    assume "cc_phase c u = Journalled k m r"
    with shared_excludes [OF assms(3), of t u] step_phase(3) [OF assms(1)] show False by simp
  qed
  have stored: "x \<le> revision ps" if "cc_part c = Some ps" "bounded_by c x" for x ps
    using that no by (auto simp: bounded_by_def stored_of_def)
  have frame: "journal_of c' = journal_of c" "stored_of c' = stored_of c" "cc_next c' = cc_next c"
    "\<And>u. u \<noteq> t \<Longrightarrow> cc_phase c' u = cc_phase c u"
    using assms(1) by (cases rule: revision_step.cases; simp)+
  have "x \<le> l" if "limit (cc_phase c' t) = Some l" "bounded_by c x" for x l
    using assms(1)
  proof (cases rule: revision_step.cases)
    case (load_after rb seen ps)
    with that bounded_by_limit [of c x t seen] show ?thesis by simp
  next
    case (load_writers rb seen ra ps)
    with that bounded_by_limit [of c x t seen] show ?thesis by simp
  next
    case (saw_none rb ps)
    with that(1) stored [OF saw_none(3) that(2)] show ?thesis by simp
  next
    case (saw_writers rb ps)
    with that(1) stored [OF saw_writers(3) that(2)] show ?thesis by simp
  qed (use that in simp_all)
  from journal_bounded_go [OF assms(2) frame no this] show ?thesis by blast
qed

lemma journal_bounded_step:
  assumes "conc_step c c'" and "journal_bounded c" and "locks_ok c" and "loads_ok c"
  shows "journal_bounded c'"
  using assms
proof (cases rule: conc_step.cases)
  case (writes t)
  with assms show ?thesis by (auto intro: journal_bounded_write simp: loads_ok_def)
next
  case (expires t)
  with assms show ?thesis by (auto intro: journal_bounded_expiry)
next
  case (revises t)
  with assms show ?thesis by (auto intro: journal_bounded_revision)
next
  case (enters t k m)
  with assms(2) show ?thesis
    by (auto simp: journal_bounded_def journal_of_def bounded_by_def stored_of_def split: option.splits)
next
  case (prunes r)
  have "bounded_by c' x = bounded_by c x" for x using prunes by (simp add: bounded_by_def)
  with prunes assms(2) journal_of_prune [of r c] show ?thesis by (auto simp: journal_bounded_def)
next
  case elsewhere
  from elsewhere(2) have "cc_next c \<le> cc_next c + 1" by (rule order.strict_implies_order)
  with elsewhere(1) assms(2) show ?thesis
    by (auto simp: journal_bounded_def bounded_by_def)
next
  case (shares t)
  then show ?thesis by (intro journal_bounded_go [OF assms(2), of _ t]) simp_all
next
  case (unshares t)
  then show ?thesis by (intro journal_bounded_go [OF assms(2), of _ t]) simp_all
qed (simp add: journal_bounded_def journal_of_def)

section \<open>Records and the order of operations\<close>

definition contents_of :: "conc \<Rightarrow> contents" where
  "contents_of c = (case cc_part c of None \<Rightarrow> ([], []) | Some ps \<Rightarrow> (records ps, changes ps))"

definition logged :: "conc \<Rightarrow> contents" where
  "logged c = fold apply_op (cc_log c) ([], [])"

text \<open>What a write in progress has already done.\<close>

fun in_flight :: "phase \<Rightarrow> contents \<Rightarrow> contents" where
  "in_flight (Written k m) (rs, cs) = (write_entry k m rs, cs)"
| "in_flight (Taken k m _) (rs, cs) = (write_entry k m rs, cs)"
| "in_flight (Journalled k m r) x = apply_op (Wrote k m r) x"
| "in_flight (Stored k m r) x = apply_op (Wrote k m r) x"
| "in_flight _ x = x"

definition contents_ok :: "conc \<Rightarrow> bool" where
  "contents_ok c \<longleftrightarrow> (\<forall>t. exclusive (cc_phase c t) \<longrightarrow> contents_of c = in_flight (cc_phase c t) (logged c)) \<and>
     ((\<forall>t. \<not> exclusive (cc_phase c t)) \<longrightarrow> contents_of c = logged c)"

lemma logged_simps [simp]:
  "logged (go t q c) = logged c" "logged (on_part f c) = logged c" "logged (take_revision c) = logged c"
  "logged (log_op x c) = apply_op x (logged c)" "logged (c\<lparr>cc_part := pp\<rparr>) = logged c"
  by (simp_all add: logged_def go_def on_part_def take_revision_def log_op_def)

lemma contents_simps [simp]:
  "contents_of (go t q c) = contents_of c" "contents_of (log_op x c) = contents_of c"
  "contents_of (take_revision c) = contents_of c"
  by (simp_all add: contents_of_def)

lemma contents_on_part:
  "(\<And>ps. records (f ps) = g (records ps)) \<Longrightarrow> (\<And>ps. changes (f ps) = h (changes ps)) \<Longrightarrow> cc_part c \<noteq> None \<Longrightarrow>
   contents_of (on_part f c) = (g (fst (contents_of c)), h (snd (contents_of c)))"
  by (auto simp: contents_of_def)

lemma contents_ok_write:
  assumes "contents_of c' = in_flight q (logged c')" and "exclusive q" and "locks_ok c'" and "cc_phase c' t = q"
  shows "contents_ok c'"
proof -
  have "u = t" if "exclusive (cc_phase c' u)" for u
    using exclusive_alone [OF assms(3) that, of t] assms(2,4) by (cases "u = t") auto
  with assms(1,2,4) show ?thesis unfolding contents_ok_def by auto
qed

lemma contents_ok_shared:
  assumes "contents_of c' = logged c'" and "\<And>u. \<not> exclusive (cc_phase c' u)"
  shows "contents_ok c'"
  using assms by (simp add: contents_ok_def)

lemma contents_ok_write_step:
  assumes "write_step t c c'" and "contents_ok c" and "locks_ok c" and "locks_ok c'"
  shows "contents_ok c'"
proof -
  have now: "contents_of c = in_flight (cc_phase c t) (logged c)"
    using assms(2) step_phase(1) [OF assms(1)] by (simp add: contents_ok_def)
  have part: "cc_part c \<noteq> None" using assms(3) step_phase(1) [OF assms(1)] by (force simp: locks_ok_def)
  have others: "\<not> exclusive (cc_phase c u)" if "u \<noteq> t" for u
    using exclusive_alone [OF assms(3) step_phase(1) [OF assms(1)] that] by simp
  obtain rs cs where l: "logged c = (rs, cs)" by (cases "logged c")
  show ?thesis
    using assms(1)
  proof (cases rule: write_step.cases)
    case (leave k m r)
    with now l part others show ?thesis
      by (intro contents_ok_shared) (auto simp: contents_on_part [where g = "\<lambda>x. x" and h = "\<lambda>x. x"])
  next
    case (count k m)
    with now l part assms(4) show ?thesis
      by (intro contents_ok_write [of _ _ t]) (auto simp: contents_on_part [where g = "\<lambda>x. x" and h = "\<lambda>x. x"])
  next
    case (insert k m)
    with now l part assms(4) show ?thesis
      by (intro contents_ok_write [of _ _ t]) (auto simp: contents_on_part [where g = "write_entry k m" and h = "\<lambda>x. x"])
  next
    case (take k m)
    with now l assms(4) show ?thesis by (intro contents_ok_write [of _ _ t]) auto
  next
    case (journal k m r)
    with now l part assms(4) show ?thesis
      by (intro contents_ok_write [of _ _ t]) (auto simp: contents_on_part [where g = "\<lambda>x. x" and h = "sm_insert r k"])
  next
    case (store k m r)
    with now l part assms(4) show ?thesis
      by (intro contents_ok_write [of _ _ t]) (auto simp: contents_on_part [where g = "\<lambda>x. x" and h = "\<lambda>x. x"])
  qed
qed

lemma contents_ok_step:
  assumes "conc_step c c'" and "contents_ok c" and "locks_ok c"
  shows "contents_ok c'"
  using assms(1)
proof (cases rule: conc_step.cases)
  case (writes t)
  then show ?thesis by (rule contents_ok_write_step [OF _ assms(2,3) locks_ok_step [OF assms(1,3)]])
next
  case (expires t)
  have part: "cc_part c \<noteq> None" using assms(3) step_phase(2) [OF expires] by (auto simp: locks_ok_def)
  have others: "\<not> exclusive (cc_phase c u)" for u
    using shared_excludes [OF assms(3)] step_phase(2) [OF expires] by blast
  then have now: "contents_of c = logged c" using assms(2) by (simp add: contents_ok_def)
  obtain rs cs where l: "logged c = (rs, cs)" by (cases "logged c")
  show ?thesis
    using expires
  proof (cases rule: expiry_step.cases)
    case (remove k m)
    with now l part others show ?thesis
      by (intro contents_ok_shared) (auto simp: contents_on_part [where g = "expire_entry k m" and h = "\<lambda>x. x"])
  qed (use now l part others in \<open>auto intro!: contents_ok_shared split: if_splits
      simp: contents_on_part [where g = "\<lambda>x. x" and h = "\<lambda>x. x"]\<close>)
next
  case (revises t)
  have others: "\<not> exclusive (cc_phase c u)" for u
    using shared_excludes [OF assms(3)] step_phase(3) [OF revises] by blast
  then have "contents_of c = logged c" using assms(2) by (simp add: contents_ok_def)
  with revises others show ?thesis
    by (cases rule: revision_step.cases) (auto intro!: contents_ok_shared split: if_splits)
next
  case (enters t k m)
  with assms have "contents_of c = logged c" by (simp add: contents_ok_def)
  with enters locks_ok_step [OF assms(1,3)] show ?thesis
    by (intro contents_ok_write [of _ _ t]) (auto simp: contents_of_def split: option.splits)
next
  case (prunes r)
  with assms(2) have "contents_of c = logged c" by (simp add: contents_ok_def)
  with prunes show ?thesis
    by (intro contents_ok_shared, cases "logged c") (auto simp: contents_of_def split: option.splits)
next
  case drops
  then show ?thesis by (intro contents_ok_shared) (auto simp: contents_of_def)
next
  case elsewhere
  with assms(2) show ?thesis by (simp add: contents_ok_def)
next
  case (unshares t)
  then have "\<not> exclusive (cc_phase c u)" for u using shared_excludes [OF assms(3), of t] by simp
  with unshares assms(2) show ?thesis by (auto simp: contents_ok_def split: if_splits)
qed (use assms(2) in \<open>auto simp: contents_ok_def split: if_splits\<close>)

text \<open>The record a thread is about to expire is still the one it found, or gone.\<close>

definition found_ok :: "conc \<Rightarrow> bool" where
  "found_ok c \<longleftrightarrow> (\<forall>t k m. cc_phase c t = Found k m \<or> cc_phase c t = Leaving k m \<longrightarrow> (\<exists>now. expired now m) \<and>
     (hm_get (fst (contents_of c)) k = None \<or> hm_get (fst (contents_of c)) k = Some m))"

lemma expire_entry_get: "hm_get (expire_entry k m rs) j = (if j = k \<and> hm_get rs k = Some m then None else hm_get rs j)"
  by (simp add: expire_entry_def)

lemma found_ok_keep:
  assumes "found_ok c" and "fst (contents_of c') = fst (contents_of c)"
    and "\<And>u k m. cc_phase c' u = Found k m \<or> cc_phase c' u = Leaving k m \<Longrightarrow> cc_phase c u = Found k m \<or> cc_phase c u = Leaving k m"
  shows "found_ok c'"
  using assms unfolding found_ok_def by metis

lemma found_ok_none:
  assumes "\<And>u. cc_phase c' u = Idle \<or> exclusive (cc_phase c' u)"
  shows "found_ok c'"
proof -
  have "cc_phase c' u \<noteq> Found k m" "cc_phase c' u \<noteq> Leaving k m" for u k m using assms [of u] by auto
  then show ?thesis by (simp add: found_ok_def)
qed

lemma found_ok_step:
  assumes "conc_step c c'" and "found_ok c" and "locks_ok c"
  shows "found_ok c'"
  using assms(1)
proof (cases rule: conc_step.cases)
  case (writes t)
  have "cc_phase c u = Idle" if "u \<noteq> t" for u by (rule exclusive_alone [OF assms(3) step_phase(1) [OF writes] that])
  with writes show ?thesis by (cases rule: write_step.cases) (auto intro!: found_ok_none)
next
  case (expires t)
  then show ?thesis
  proof (cases rule: expiry_step.cases)
    case (find_expired ps k m now)
    with assms(2) show ?thesis by (auto simp: found_ok_def contents_of_def)
  next
    case (count_expiry k m)
    with assms(2) have "(\<exists>now. expired now m) \<and>
        (hm_get (fst (contents_of c)) k = None \<or> hm_get (fst (contents_of c)) k = Some m)"
      unfolding found_ok_def by blast
    moreover have "fst (contents_of c') = fst (contents_of c)"
      using count_expiry by (simp add: contents_of_def split: option.split)
    ultimately show ?thesis using count_expiry assms(2) by (auto simp: found_ok_def)
  next
    case (remove k m)
    have "fst (contents_of c') = expire_entry k m (fst (contents_of c))"
      using remove by (auto simp: contents_of_def expire_entry_def split: option.split)
    with remove assms(2) show ?thesis by (auto simp: found_ok_def expire_entry_get)
  qed (use assms(2) in \<open>auto intro!: found_ok_keep [of c] simp: contents_of_def split: option.splits if_splits\<close>)
next
  case (revises t)
  from revises assms(2) show ?thesis
    by (cases rule: revision_step.cases) (auto intro!: found_ok_keep [of c] split: if_splits)
next
  case (enters t k m)
  then show ?thesis by (auto intro!: found_ok_none)
next
  case drops
  then show ?thesis by (auto intro!: found_ok_none)
qed (use assms(2) in \<open>auto intro!: found_ok_keep [of c] simp: contents_of_def split: option.splits if_splits\<close>)

section \<open>Reachable states\<close>

definition conc_ok :: "conc \<Rightarrow> bool" where
  "conc_ok c \<longleftrightarrow> locks_ok c \<and> loads_ok c \<and> writers_ok c \<and> journal_bounded c \<and> contents_ok c \<and> found_ok c"

lemma conc_reachable_ok: "conc_reachable n c \<Longrightarrow> conc_ok c"
proof (induction rule: conc_reachable.induct)
  case conc_start
  show ?case
    by (simp add: conc_ok_def conc_init_def locks_ok_def loads_ok_def revs_ok_def stored_of_def pending_of_def writers_ok_def
        writers_def journal_bounded_def journal_of_def contents_ok_def contents_of_def logged_def found_ok_def)
next
  case (conc_next c c')
  then show ?case
    by (auto simp: conc_ok_def intro: locks_ok_step loads_ok_step writers_ok_step journal_bounded_step contents_ok_step
        found_ok_step)
qed

section \<open>Calls that run alone\<close>

text \<open>An uninterrupted write does to the partition what \<open>mutate\<close> does.\<close>

lemma write_alone:
  assumes "conc_reachable n c" and "\<forall>u. cc_phase c u = Idle" and "cc_next c < cc_next c + 1"
    and "ps = (case cc_part c of Some ps \<Rightarrow> ps | None \<Rightarrow> default_partition_store)"
  shows "conc_reachable n (c\<lparr>cc_part := Some (ps\<lparr>records := write_entry k m (records ps),
      changes := sm_insert (cc_next c + 1) k (changes ps), revision := cc_next c + 1\<rparr>),
      cc_next := cc_next c + 1, cc_log := cc_log c @ [Wrote k m (cc_next c + 1)]\<rparr>)"
proof -
  obtain pp nr ph lg where c: "c = \<lparr>cc_part = pp, cc_next = nr, cc_phase = ph, cc_log = lg\<rparr>" by (cases c)
  let ?r = "nr + 1"
  have idle: "ph(0 := Idle) = ph" using assms(2) c by (simp add: fun_upd_idem)
  let ?c = "\<lambda>q ps' r. \<lparr>cc_part = Some ps', cc_next = r, cc_phase = ph(0 := q), cc_log = lg\<rparr>"
  let ?ps1 = "writer ps"
  let ?ps2 = "?ps1\<lparr>records := write_entry k m (records ?ps1)\<rparr>"
  let ?ps3 = "?ps2\<lparr>changes := sm_insert ?r k (changes ?ps2)\<rparr>"
  let ?ps4 = "?ps3\<lparr>revision := ?r\<rparr>"
  have "conc_reachable n (?c (Entered k m) ps nr)"
    using conc_next [OF assms(1) enters [OF assms(2), of 0 k m]] assms(4) c by (simp add: go_def)
  from conc_next [OF this writes [OF count [of _ 0 k m]]] have "conc_reachable n (?c (Counted k m) ?ps1 nr)"
    by (simp add: go_def on_part_def)
  from conc_next [OF this writes [OF insert [of _ 0 k m]]] have "conc_reachable n (?c (Written k m) ?ps2 nr)"
    by (simp add: go_def on_part_def)
  from conc_next [OF this writes [OF take [of _ 0 k m]]] assms(3) c have "conc_reachable n (?c (Taken k m ?r) ?ps2 ?r)"
    by (simp add: go_def take_revision_def)
  from conc_next [OF this writes [OF journal [of _ 0 k m ?r]]] have "conc_reachable n (?c (Journalled k m ?r) ?ps3 ?r)"
    by (simp add: go_def on_part_def)
  from conc_next [OF this writes [OF store [of _ 0 k m ?r]]] have "conc_reachable n (?c (Stored k m ?r) ?ps4 ?r)"
    by (simp add: go_def on_part_def)
  from conc_next [OF this writes [OF leave [of _ 0 k m ?r]]] show ?thesis
    by (simp add: c go_def on_part_def log_op_def idle writer_def)
qed

text \<open>An uninterrupted \<open>stable_revision\<close> with no writer around returns the revision.\<close>

lemma load_alone:
  assumes "conc_reachable n c" and "\<forall>u. cc_phase c u = Idle" and "cc_part c = Some ps" and "active_writers ps = 0"
  shows "conc_reachable n (c\<lparr>cc_phase := (cc_phase c)(t := Returned (Some (revision ps)) (revision ps))\<rparr>)"
proof -
  let ?c = "\<lambda>q. c\<lparr>cc_phase := (cc_phase c)(t := q)\<rparr>"
  let ?r = "revision ps"
  have "conc_reachable n (?c Shared)"
    using conc_next [OF assms(1) shares [of _ t]] assms(2,3) by (simp add: go_def)
  from conc_next [OF this revises [OF load_before [of _ t ps]]] assms(3) have "conc_reachable n (?c (Before ?r))"
    by (simp add: go_def)
  from conc_next [OF this revises [OF saw_none [of _ t ?r ps]]] assms(3,4) have "conc_reachable n (?c (Quiet ?r ?r))"
    by (simp add: go_def)
  from conc_next [OF this revises [OF load_after [of _ t ?r ?r ps]]] assms(3)
  have "conc_reachable n (?c (Compared ?r ?r ?r))" by (simp add: go_def)
  from conc_next [OF this revises [OF load_writers [of _ t ?r ?r ?r ps]]] assms(3,4) show ?thesis
    by (simp add: go_def stable_revision_reads_def)
qed

section \<open>Properties\<close>

text \<open>
  C10: A stable revision covers the journal. Under all interleavings with writes, with removals of
  expired records and with writers of other partitions: when \<open>stable_revision\<close> returns a revision, the
  partition had this revision at a moment during the call when no writer was in it, no write is in
  progress while the caller holds the partition, and no change in the journal is later, so a
  recipient that got the changes up to this revision got them all. And the counter of writers does
  not leak: when no thread is between \<open>writer()\<close> and the end of its guard, the call succeeds.
\<close>

theorem stable_revision_sound:
  assumes "conc_reachable n c" and "cc_part c = Some ps"
  shows "(cc_phase c t = Returned (Some r) seen \<longrightarrow>
      seen = r \<and> (\<forall>u. \<not> exclusive (cc_phase c u)) \<and> (\<forall>e \<in> set (changes ps). fst e \<le> r)) \<and>
    ((\<forall>u. \<not> writing (cc_phase c u)) \<longrightarrow> stable_revision ps = Some (revision ps))"
proof (intro conjI impI)
  have ok: "conc_ok c" by (rule conc_reachable_ok [OF assms(1)])
  show "stable_revision ps = Some (revision ps)" if "\<forall>u. \<not> writing (cc_phase c u)"
    using that ok assms(2) by (simp add: conc_ok_def writers_ok_def writers_def stable_revision_eq)
  assume t: "cc_phase c t = Returned (Some r) seen"
  have "load_ok c (cc_phase c t)" using ok unfolding conc_ok_def loads_ok_def by blast
  with t show "seen = r" by simp
  show "\<forall>u. \<not> exclusive (cc_phase c u)"
    using shared_excludes [of c t] ok t by (simp add: conc_ok_def)
  show "\<forall>e \<in> set (changes ps). fst e \<le> r"
  proof
    fix e assume "e \<in> set (changes ps)"
    then have "bounded_by c (fst e)" using ok assms(2) by (auto simp: conc_ok_def journal_bounded_def journal_of_def)
    from bounded_by_limit [OF this, of t] t \<open>seen = r\<close> show "fst e \<le> r" by simp
  qed
qed

text \<open>A partition with one record, and a thread that has read its revision.\<close>

definition demo_conc :: conc where
  "demo_conc =
     \<lparr>cc_part = Some \<lparr>records = [(Key 5, Delete 9)], changes = [(1, Key 5)], active_writers = 0, revision = 1\<rparr>,
      cc_next = 1, cc_phase = (\<lambda>_. Idle), cc_log = [Wrote (Key 5) (Delete 9) 1]\<rparr>"

lemma demo_conc_reachable: "conc_reachable 0 demo_conc"
  using write_alone [OF conc_start, of 0 default_partition_store "Key 5" "Delete 9"]
  by (simp add: conc_init_def demo_conc_def write_entry_def sm_compare_insert_def default_partition_store_def)

lemma stable_revision_sound_witness:
  "list_all (\<lambda>e. fst e \<le> 1) (changes (the (cc_part demo_conc))) \<and> stable_revision (the (cc_part demo_conc)) = Some 1"
proof -
  let ?c = "demo_conc\<lparr>cc_phase := (cc_phase demo_conc)(3 := Returned (Some 1) 1)\<rparr>"
  have "conc_reachable 0 ?c"
    using load_alone [OF demo_conc_reachable, of "the (cc_part demo_conc)" 3] by (simp add: demo_conc_def)
  from stable_revision_sound [OF this, of _ 3 1 1] show ?thesis
    by (simp add: demo_conc_def all_conj_distrib)
qed

text \<open>
  C9: Concurrent calls take effect one after the other. Whenever no write is in progress, records and
  journal of a partition are what the writes, removals of expired records, prunings and removals of
  the partition leave that took effect so far, each applied at once in one order; for a write this
  is what \<open>put\<close> and \<open>delete_at\<close> do as single steps. The stored revision alone may differ from such an
  order, because removals may store theirs late.
\<close>

theorem concurrent_calls_serialise:
  assumes "conc_reachable n c" and "\<forall>u. \<not> exclusive (cc_phase c u)"
  shows "contents_of c = fold apply_op (cc_log c) ([], []) \<and>
    (let p = key_partition k; before = hm_or_default default_partition_store p (cache s);
         after = hm_or_default default_partition_store p (cache (apply_mutation (k, m) s))
     in apply_op (Wrote k m (next_revision s + 1)) (records before, changes before) = (records after, changes after))"
proof -
  have "contents_ok c" using conc_reachable_ok [OF assms(1)] by (simp add: conc_ok_def)
  with assms(2) have "contents_of c = fold apply_op (cc_log c) ([], [])" by (simp add: contents_ok_def logged_def)
  moreover have "hm_or_default d p (hm_insert p x h) = x" for d p x and h :: "(partition_id, partition_store) hash_map"
    by (simp add: hm_or_default_def)
  ultimately show ?thesis by (simp add: apply_mutation_mutate mutate_eq Let_def write_entry_def)
qed

lemma concurrent_calls_serialise_witness: "contents_of demo_conc = ([(Key 5, Delete 9)], [(1, Key 5)])"
  using concurrent_calls_serialise [OF demo_conc_reachable]
  by (simp add: demo_conc_def write_entry_def sm_compare_insert_def)

text \<open>
  The expiration of records spares what is written meanwhile. A thread that removes a record it
  found expired removes this very record or nothing, however its steps interleave with others, and
  touches no other key.
\<close>

theorem expiry_spares_writes:
  assumes "conc_reachable n c" and "cc_phase c t = Leaving k m" and "cc_part c = Some ps"
  shows "(\<exists>now. expired now m) \<and> (hm_get (records ps) k = None \<or> hm_get (records ps) k = Some m) \<and>
    (\<exists>c' ps'. expiry_step t c c' \<and> cc_part c' = Some ps' \<and> hm_get (records ps') k = None \<and>
       (\<forall>j. j \<noteq> k \<longrightarrow> hm_get (records ps') j = hm_get (records ps) j) \<and> changes ps' = changes ps)"
proof -
  have "found_ok c" using conc_reachable_ok [OF assms(1)] by (simp add: conc_ok_def)
  with assms(2,3) have m: "(\<exists>now. expired now m) \<and> (hm_get (records ps) k = None \<or> hm_get (records ps) k = Some m)"
    unfolding found_ok_def contents_of_def by fastforce
  moreover have "hm_get (expire_entry k m (records ps)) k = None" using m by (auto simp: expire_entry_get)
  ultimately show ?thesis
    using remove [OF assms(2)] assms(3)
    by (intro conjI exI [of _ "log_op (Expired k m) (go t Removed
          (on_part (\<lambda>ps. ps\<lparr>records := expire_entry k m (records ps)\<rparr>) c))"]
        exI [of _ "ps\<lparr>records := expire_entry k m (records ps)\<rparr>"]) (auto simp: expire_entry_get)
qed


text \<open>A partition with an expired record and a thread about to remove it.\<close>

definition demo_expired :: mutation where
  "demo_expired = Put \<lparr>sr_expiration_time_ms = 1, sr_creation_time_ms = 0, sr_value = [7]\<rparr>"

definition demo_expiring :: "phase \<Rightarrow> nat \<Rightarrow> conc" where
  "demo_expiring q w =
     \<lparr>cc_part = Some \<lparr>records = [(Key 5, demo_expired)], changes = [(1, Key 5)], active_writers = w, revision = 1\<rparr>,
      cc_next = 1, cc_phase = (\<lambda>_. Idle)(0 := q), cc_log = [Wrote (Key 5) demo_expired 1]\<rparr>"

lemma demo_expiring_reachable: "conc_reachable 0 (demo_expiring (Leaving (Key 5) demo_expired) 1)"
proof -
  have "conc_reachable 0 (demo_expiring Idle 0)"
    using write_alone [OF conc_start, of 0 default_partition_store "Key 5" demo_expired]
    by (simp add: conc_init_def demo_expiring_def write_entry_def sm_compare_insert_def default_partition_store_def
        fun_upd_idem)
  from conc_next [OF this shares [of _ 0]] have "conc_reachable 0 (demo_expiring Shared 0)"
    by (simp add: demo_expiring_def go_def)
  from conc_next [OF this expires [OF find_expired [of _ 0 _ "Key 5" demo_expired 2]]]
  have "conc_reachable 0 (demo_expiring (Found (Key 5) demo_expired) 0)"
    by (simp add: demo_expiring_def go_def) (simp add: demo_expired_def)
  from conc_next [OF this expires [OF count_expiry [of _ 0 "Key 5" demo_expired]]] show ?thesis
    by (simp add: demo_expiring_def go_def on_part_def writer_def)
qed

lemma expiry_spares_writes_witness: "\<exists>now. expired now demo_expired"
  using expiry_spares_writes [OF demo_expiring_reachable, of 0 "Key 5" demo_expired]
  by (simp add: demo_expiring_def)

end
