(* ===== verification/Client.thy ===== *)
theory Client
  imports Worker_Grpc
begin

text \<open>
  The client (\<open>no-sql-store-client/src/lib.rs\<close> and \<open>connection.rs\<close>): keys, topology, routing,
  retries and the three operations. Connecting and the manager streams are in \<open>Client_Streams\<close>, a worker
  connection in \<open>Client_Connection\<close>.

  The network is a value of any type with two operations: \<open>dial\<close> opens a connection to an endpoint,
  \<open>exchange\<close> sends one request to a worker and yields its response, a failure, or nothing within the
  request timeout. The requests of \<open>join_all\<close> run one after the other in the order of the targets;
  they go to different workers and their results are read in that order. \<open>Duration\<close> is a number of
  nanoseconds. The hash function of the \<open>blake3\<close> crate is the parameter \<open>blake3\<close>, from the bytes fed
  to the hasher to the bytes of the digest.
\<close>

section \<open>Keys\<close>

definition CLIENT_PARTITIONS_AMOUNT :: u64 where
  "CLIENT_PARTITIONS_AMOUNT = 4096"

definition KEY_HASH_DOMAIN :: "u8 list" where
  "KEY_HASH_DOMAIN = map of_char ''no-sql-store:key:v1'' @ [0]"

text \<open>\<open>u64::from_le_bytes\<close>.\<close>

fun from_le_bytes :: "u8 list \<Rightarrow> u64" where
  "from_le_bytes [] = 0"
| "from_le_bytes (b # bs) = ucast b + 256 * from_le_bytes bs"

definition hash_key :: "(u8 list \<Rightarrow> u8 list) \<Rightarrow> u8 list \<Rightarrow> u64" where
  "hash_key blake3 k = from_le_bytes (take 8 (blake3 (KEY_HASH_DOMAIN @ k)))"

datatype store_key =
    KeyU64 u64 | KeyU8 u8 | KeyU16 u16 | KeyU32 u32 | KeyUsize u64
  | KeyI8 "8 word" | KeyI16 "16 word" | KeyI32 "32 word" | KeyI64 "64 word" | KeyIsize "64 word"
  | KeyStr string | KeyBytes "u8 list"

text \<open>
  Integer keys are cast to 64 bits: unsigned ones are zero-extended, signed ones sign-extended;
  \<open>usize\<close> and \<open>isize\<close> have 64 bits. Text is hashed as its bytes.
\<close>

fun to_store_key :: "(u8 list \<Rightarrow> u8 list) \<Rightarrow> store_key \<Rightarrow> u64" where
  "to_store_key blake3 (KeyU64 k) = k"
| "to_store_key blake3 (KeyU8 k) = ucast k"
| "to_store_key blake3 (KeyU16 k) = ucast k"
| "to_store_key blake3 (KeyU32 k) = ucast k"
| "to_store_key blake3 (KeyUsize k) = k"
| "to_store_key blake3 (KeyI8 k) = scast k"
| "to_store_key blake3 (KeyI16 k) = scast k"
| "to_store_key blake3 (KeyI32 k) = scast k"
| "to_store_key blake3 (KeyI64 k) = k"
| "to_store_key blake3 (KeyIsize k) = k"
| "to_store_key blake3 (KeyStr s) = hash_key blake3 (map of_char s)"
| "to_store_key blake3 (KeyBytes b) = hash_key blake3 b"

definition client_partition :: "u64 \<Rightarrow> u32" where
  "client_partition k = ucast (k mod CLIENT_PARTITIONS_AMOUNT)"

section \<open>Errors, configuration and topology\<close>

datatype client_error =
    NoManagerAddress
  | ManagerUnavailable string
  | PartitionUnavailable u32
  | UnknownWorker string
  | WorkerRequest string string
  | Timeout
  | InvalidSystemTime
  | TtlOverflow

text \<open>A \<open>Duration\<close> is not negative; the type is signed so that it evaluates fast.\<close>

type_synonym duration = int

record client_config =
  cc_retry_attempts :: nat
  cc_initial_retry_delay :: duration
  cc_request_timeout :: duration
  cc_manager_connect_timeout :: duration

definition default_client_config :: client_config where
  "default_client_config =
     \<lparr>cc_retry_attempts = 3, cc_initial_retry_delay = 50000000, cc_request_timeout = 5000000000,
      cc_manager_connect_timeout = 5000000000\<rparr>"

text \<open>\<open>Duration::MAX\<close>: \<open>2 ^ 64 - 1\<close> seconds and 999999999 nanoseconds.\<close>

definition DURATION_MAX :: duration where
  "DURATION_MAX = 18446744073709551615999999999"

definition duration_saturating_double :: "duration \<Rightarrow> duration" where
  "duration_saturating_double d = min (2 * d) DURATION_MAX"

record topology_node =
  tn_endpoint :: string
  tn_node_type :: i32

record topology =
  t_epoch :: u64
  t_leader_id :: string
  t_nodes :: "(string, topology_node) hash_map"
  t_mapping :: "(u32, grpc_partition) hash_map"
  t_old_replicas :: "(u32, string list) hash_map"
  t_new_replicas :: "(u32, string list) hash_map"

definition default_topology :: topology where
  "default_topology = \<lparr>t_epoch = 0, t_leader_id = '''', t_nodes = [], t_mapping = [],
     t_old_replicas = [], t_new_replicas = []\<rparr>"

definition starts_with :: "string \<Rightarrow> string \<Rightarrow> bool" where
  "starts_with pre s \<longleftrightarrow> take (length pre) s = pre"

definition normalize_endpoint :: "string \<Rightarrow> string" where
  "normalize_endpoint e =
     (if starts_with ''http://'' e \<or> starts_with ''https://'' e then e else ''http://'' @ e)"

fun show_digits :: "nat \<Rightarrow> string" where
  "show_digits n = (if n < 10 then [char_of (48 + n)] else show_digits (n div 10) @ [char_of (48 + n mod 10)])"

definition endpoint :: "string \<Rightarrow> u32 \<Rightarrow> string" where
  "endpoint host port = normalize_endpoint (host @ '':'' @ show_digits (unat port))"

definition apply_state :: "grpc_cluster_state \<Rightarrow> topology \<Rightarrow> topology" where
  "apply_state state t =
     (if gc_epoch state < t_epoch t
         \<or> gc_epoch state = t_epoch t \<and> t_leader_id t \<noteq> '''' \<and> gc_leader_id state \<noteq> t_leader_id t
      then t
      else
        let t1 = t\<lparr>t_epoch := gc_epoch state, t_leader_id := gc_leader_id state\<rparr>;
            t2 = (if gc_nodes state \<noteq> []
                  then t1\<lparr>t_nodes := hm_collect (List.map_filter (\<lambda>n. map_option (\<lambda>(host, port).
                           (gn_id n, \<lparr>tn_endpoint = endpoint host port, tn_node_type = gn_node_type n\<rparr>))
                           (gn_addr n)) (gc_nodes state))\<rparr>
                  else t1)
        in case gc_partitions state of
             Some ps \<Rightarrow> t2\<lparr>t_mapping := gps_mapping ps, t_old_replicas := gps_old_replicas ps,
                           t_new_replicas := gps_new_replicas ps\<rparr>
           | None \<Rightarrow> t2)"

section \<open>The client's state and its network\<close>

text \<open>
  The task behind a manager's endpoint: in its first subscription, reading a stream, or pausing before
  it subscribes again.
\<close>

datatype stream_phase = Subscribing | Listening | Pausing

text \<open>\<open>Inner\<close>; the last field lists the tasks spawned for manager streams.\<close>

record inner =
  in_id :: string
  in_config :: client_config
  in_state :: topology
  in_workers :: "string hash_set"
  in_managers :: "string hash_set"
  in_next_request_id :: i32
  in_streams :: "(string, stream_phase) hash_map"

text \<open>The outcome of one exchange: nothing within the timeout, a failure with its reason, a response.\<close>

datatype reply = NoReply | Failed string | Replied worker_response

record 'w network =
  dial :: "string \<Rightarrow> 'w \<Rightarrow> 'w \<times> string option"
  exchange :: "string \<Rightarrow> client_request \<Rightarrow> 'w \<Rightarrow> 'w \<times> reply"

text \<open>\<open>connection.rs\<close>: what a response delivers to the waiting request.\<close>

definition response_record :: "worker_response \<Rightarrow> grpc_record option" where
  "response_record r =
     (case wr_record r of
        Some rec \<Rightarrow> Some rec
      | None \<Rightarrow> map_option (\<lambda>t. \<lparr>gr_key = 0, gr_value = [], gr_ttl = 0, gr_creation_time = t,
                  gr_deleted = True\<rparr>) (wr_deletion_time r))"

section \<open>Requests\<close>

definition request :: "i32 \<Rightarrow> u64 \<Rightarrow> u8 list option \<Rightarrow> u64 option \<Rightarrow> u64 option \<Rightarrow> client_request" where
  "request request_type k v creation_time ttl =
     \<lparr>cr_id = 0, cr_request_type = request_type, cr_key = k, cr_creation_time = creation_time,
      cr_value = v, cr_ttl = ttl\<rparr>"

fun error_to_string :: "client_error \<Rightarrow> string" where
  "error_to_string NoManagerAddress = ''at least one manager address is required''"
| "error_to_string (ManagerUnavailable s) = ''could not connect to any configured manager: '' @ s"
| "error_to_string (PartitionUnavailable p) =
     ''cluster has no mapping for partition '' @ show_digits (unat p)"
| "error_to_string (UnknownWorker s) = ''cluster state references unknown worker '' @ s"
| "error_to_string (WorkerRequest i reason) = ''worker '' @ i @ '' request failed: '' @ reason"
| "error_to_string Timeout = ''operation timed out''"
| "error_to_string InvalidSystemTime = ''system clock is before the Unix epoch''"
| "error_to_string TtlOverflow = ''TTL is too large''"

text \<open>\<open>Inner::worker\<close>: the connection to a worker, opened when there is none.\<close>

definition worker_connection ::
  "'w network \<Rightarrow> string \<Rightarrow> inner \<times> 'w \<Rightarrow> (inner \<times> 'w) \<times> client_error option" where
  "worker_connection net i = (\<lambda>(inn, w).
     if i \<in> set (in_workers inn) then ((inn, w), None)
     else case hm_get (t_nodes (in_state inn)) i of
            None \<Rightarrow> ((inn, w), Some (UnknownWorker i))
          | Some n \<Rightarrow>
              (case dial net (tn_endpoint n) w of
                 (w', Some reason) \<Rightarrow> ((inn, w'), Some (WorkerRequest i reason))
               | (w', None) \<Rightarrow> ((inn\<lparr>in_workers := hs_insert i (in_workers inn)\<rparr>, w'), None)))"

text \<open>
  One attempt: a fresh request id, the connection, the exchange. After a failure the connection is
  dropped; the result is then the reason.
\<close>

definition attempt ::
  "'w network \<Rightarrow> string \<Rightarrow> client_request \<Rightarrow> inner \<times> 'w \<Rightarrow> (inner \<times> 'w) \<times> (string + grpc_record option)" where
  "attempt net i req = (\<lambda>(inn, w).
     case worker_connection net i (inn\<lparr>in_next_request_id := in_next_request_id inn + 1\<rparr>, w) of
       ((inn2, w2), Some e) \<Rightarrow>
         ((inn2\<lparr>in_workers := hs_remove i (in_workers inn2)\<rparr>, w2), Inl (error_to_string e))
     | ((inn2, w2), None) \<Rightarrow>
         (case exchange net i (req\<lparr>cr_id := in_next_request_id inn\<rparr>) w2 of
            (w3, Replied r) \<Rightarrow> ((inn2, w3), Inr (response_record r))
          | (w3, Failed reason) \<Rightarrow>
              ((inn2\<lparr>in_workers := hs_remove i (in_workers inn2)\<rparr>, w3), Inl reason)
          | (w3, NoReply) \<Rightarrow>
              ((inn2\<lparr>in_workers := hs_remove i (in_workers inn2)\<rparr>, w3), Inl ''request timeout'')))"

text \<open>The retry loop, \<open>left\<close> attempts remaining; the last component lists the delays slept.\<close>

fun retry_loop ::
  "'w network \<Rightarrow> string \<Rightarrow> client_request \<Rightarrow> nat \<Rightarrow> duration \<Rightarrow> string \<Rightarrow> inner \<times> 'w \<Rightarrow>
   (inner \<times> 'w) \<times> (client_error + grpc_record option) \<times> duration list" where
  "retry_loop net i req 0 delay last_reason s = (s, Inl (WorkerRequest i last_reason), [])"
| "retry_loop net i req (Suc left) delay last_reason s =
     (case attempt net i req s of
        (s1, Inr rec) \<Rightarrow> (s1, Inr rec, [])
      | (s1, Inl reason) \<Rightarrow>
          (case retry_loop net i req left (duration_saturating_double delay) reason s1 of
             (s2, res, slept) \<Rightarrow> (s2, res, if left > 0 then delay # slept else slept)))"

definition request_with_retry ::
  "'w network \<Rightarrow> string \<Rightarrow> client_request \<Rightarrow> inner \<times> 'w \<Rightarrow>
   (inner \<times> 'w) \<times> (client_error + grpc_record option) \<times> duration list" where
  "request_with_retry net i req = (\<lambda>(inn, w).
     retry_loop net i req (max (cc_retry_attempts (in_config inn)) 1)
       (cc_initial_retry_delay (in_config inn)) '''' (inn, w))"

definition read_targets :: "u64 \<Rightarrow> inner \<Rightarrow> client_error + (string \<times> string list)" where
  "read_targets k inn =
     (let p = client_partition k; t = in_state inn
      in case hm_get (t_mapping t) p of
           None \<Rightarrow> Inl (PartitionUnavailable p)
         | Some current \<Rightarrow>
             (let fallback = hs_extend (hs_extend (hs_collect (gp_replicas current))
                    (hm_or_default [] p (t_old_replicas t))) (hm_or_default [] p (t_new_replicas t))
              in Inr (gp_master current, hs_remove (gp_master current) fallback)))"

text \<open>\<open>join_all\<close> of the requests to several targets.\<close>

fun request_all ::
  "'w network \<Rightarrow> client_request \<Rightarrow> string list \<Rightarrow> inner \<times> 'w \<Rightarrow>
   (inner \<times> 'w) \<times> (client_error + grpc_record option) list" where
  "request_all net req [] s = (s, [])"
| "request_all net req (i # is) s =
     (case request_with_retry net i req s of
        (s1, res, _) \<Rightarrow> (case request_all net req is s1 of (s2, rs) \<Rightarrow> (s2, res # rs)))"

fun first_error :: "(client_error + 'a) list \<Rightarrow> client_error option" where
  "first_error [] = None"
| "first_error (Inl e # rs) = Some e"
| "first_error (Inr _ # rs) = first_error rs"

definition write_targets :: "u64 \<Rightarrow> inner \<Rightarrow> client_error + string list" where
  "write_targets k inn =
     (let p = client_partition k
      in case hm_get (t_mapping (in_state inn)) p of
           None \<Rightarrow> Inl (PartitionUnavailable p)
         | Some m \<Rightarrow> Inr (hs_insert (gp_master m) (hs_collect (gp_replicas m))))"

definition write_all ::
  "'w network \<Rightarrow> u64 \<Rightarrow> client_request \<Rightarrow> inner \<times> 'w \<Rightarrow> (inner \<times> 'w) \<times> (client_error + unit)" where
  "write_all net k template = (\<lambda>(inn, w).
     case write_targets k inn of
       Inl e \<Rightarrow> ((inn, w), Inl e)
     | Inr targets \<Rightarrow>
         (case request_all net template targets (inn, w) of
            (s, results) \<Rightarrow> (s, case first_error results of Some e \<Rightarrow> Inl e | None \<Rightarrow> Inr ())))"

section \<open>Operations\<close>

text \<open>The record kept of the fallback answers: the first with the greatest creation time.\<close>

fun newest_record :: "grpc_record option \<Rightarrow> (client_error + grpc_record option) list \<Rightarrow> grpc_record option" where
  "newest_record cur [] = cur"
| "newest_record cur (Inr (Some rec) # rs) =
     newest_record (case cur of
         None \<Rightarrow> Some rec
       | Some c \<Rightarrow> if gr_creation_time c < gr_creation_time rec then Some rec else cur) rs"
| "newest_record cur (_ # rs) = newest_record cur rs"

fun last_error :: "client_error option \<Rightarrow> (client_error + 'a) list \<Rightarrow> client_error option" where
  "last_error e [] = e"
| "last_error e (Inl e' # rs) = last_error (Some e') rs"
| "last_error e (Inr _ # rs) = last_error e rs"

definition visible_value :: "grpc_record \<Rightarrow> u8 list option" where
  "visible_value rec = (if gr_deleted rec then None else Some (gr_value rec))"

definition is_ok :: "client_error + 'a \<Rightarrow> bool" where
  "is_ok r = (case r of Inl _ \<Rightarrow> False | Inr _ \<Rightarrow> True)"

definition client_get ::
  "'w network \<Rightarrow> u64 \<Rightarrow> inner \<times> 'w \<Rightarrow> (inner \<times> 'w) \<times> (client_error + u8 list option)" where
  "client_get net k = (\<lambda>(inn, w).
     case read_targets k inn of
       Inl e \<Rightarrow> ((inn, w), Inl e)
     | Inr (primary, fallback) \<Rightarrow>
         (case request_with_retry net primary (request REQUEST_GET k None None None) (inn, w) of
            (s1, Inl e, _) \<Rightarrow> (s1, Inl e)
          | (s1, Inr (Some rec), _) \<Rightarrow> (s1, Inr (visible_value rec))
          | (s1, Inr None, _) \<Rightarrow>
              if fallback = [] then (s1, Inr None)
              else
                (case request_all net (request REQUEST_GET k None None None) fallback s1 of
                   (s2, responses) \<Rightarrow>
                     if list_ex is_ok responses
                     then (s2, Inr (Option.bind (newest_record None responses) visible_value))
                     else (s2, Inl (case last_error None responses of Some e \<Rightarrow> e | None \<Rightarrow> Timeout)))))"

text \<open>
  \<open>now_millis\<close> of the client, for a system clock in nanoseconds since 1970: it fails before 1970 and when
  the milliseconds leave 64 bits.
\<close>

definition client_now_millis :: "int \<Rightarrow> u64 option" where
  "client_now_millis system_time =
     (if system_time < 0 \<or> 2 ^ 64 \<le> system_time div 1000000 then None
      else Some (word_of_int (system_time div 1000000)))"

text \<open>In the operations \<open>clock\<close> is the result of \<^const>\<open>client_now_millis\<close>.\<close>

definition expiration_time :: "u64 \<Rightarrow> duration option \<Rightarrow> client_error + u64 option" where
  "expiration_time creation_time ttl =
     (case ttl of
        None \<Rightarrow> Inr None
      | Some d \<Rightarrow>
          (let ms = d div 1000000
           in if ms < 2 ^ 64
              then (case checked_add creation_time (word_of_int ms) of
                      Some t \<Rightarrow> Inr (Some t)
                    | None \<Rightarrow> Inl TtlOverflow)
              else Inl TtlOverflow))"

definition client_put ::
  "'w network \<Rightarrow> u64 option \<Rightarrow> u64 \<Rightarrow> u8 list \<Rightarrow> duration option \<Rightarrow> inner \<times> 'w \<Rightarrow>
   (inner \<times> 'w) \<times> (client_error + unit)" where
  "client_put net clock k v ttl s =
     (case clock of
        None \<Rightarrow> (s, Inl InvalidSystemTime)
      | Some creation_time \<Rightarrow>
          (case expiration_time creation_time ttl of
             Inl e \<Rightarrow> (s, Inl e)
           | Inr expiration \<Rightarrow>
               write_all net k (request REQUEST_PUT k (Some v) (Some creation_time) expiration) s))"

definition client_delete ::
  "'w network \<Rightarrow> u64 option \<Rightarrow> u64 \<Rightarrow> inner \<times> 'w \<Rightarrow> (inner \<times> 'w) \<times> (client_error + unit)" where
  "client_delete net clock k s =
     (case clock of
        None \<Rightarrow> (s, Inl InvalidSystemTime)
      | Some deletion_time \<Rightarrow>
          write_all net k (request REQUEST_DELETE k None (Some deletion_time) None) s)"

section \<open>Properties\<close>

lemma retry_loop_slept:
  assumes "retry_loop net i req n delay reason s = (s', res, slept)"
  shows "length slept \<le> n - 1 \<and>
    slept = map (\<lambda>j. (duration_saturating_double ^^ j) delay) [0..<length slept] \<and>
    (\<not> is_ok res \<longrightarrow> length slept = n - 1)"
  using assms
proof (induction n arbitrary: delay reason s slept)
  case 0
  then show ?case by (auto simp: is_ok_def)
next
  case (Suc n)
  obtain s1 r1 where a: "attempt net i req s = (s1, r1)" by fastforce
  show ?case
  proof (cases r1)
    case (Inr rec)
    with a Suc.prems show ?thesis by (auto simp: is_ok_def)
  next
    case (Inl reason')
    obtain slept' where r: "retry_loop net i req n (duration_saturating_double delay) reason' s1 = (s', res, slept')"
      and sl: "slept = (if n > 0 then delay # slept' else slept')"
      using a Inl Suc.prems by (auto split: prod.splits)
    note ih = Suc.IH [OF r]
    have "delay # map (\<lambda>j. (duration_saturating_double ^^ j) (duration_saturating_double delay)) [0..<length slept'] =
        map (\<lambda>j. (duration_saturating_double ^^ j) delay) [0..<Suc (length slept')]"
      by (simp add: upt_conv_Cons map_Suc_upt [symmetric] comp_def funpow_swap1 del: upt_Suc)
    with ih sl show ?thesis by auto
  qed
qed

lemma saturating_double_iter:
  assumes "0 \<le> d" and "d \<le> DURATION_MAX"
  shows "(duration_saturating_double ^^ j) d = min (2 ^ j * d) DURATION_MAX"
proof (induction j)
  case (Suc j)
  have "0 \<le> DURATION_MAX" by (simp add: DURATION_MAX_def)
  with Suc show ?case by (auto simp: duration_saturating_double_def min_def)
qed (use assms in simp)

text \<open>
  Retries are bounded. A request makes at most the configured number of attempts, and one when
  that is zero; it sleeps between attempts only, \<open>2 ^ j\<close> times the initial delay before attempt
  \<open>j + 2\<close> up to the longest representable duration, and gives up only after the last attempt.
\<close>

theorem retries_bounded:
  assumes "request_with_retry net i req (inn, w) = (s', res, slept)"
    and "0 \<le> cc_initial_retry_delay (in_config inn)" and "cc_initial_retry_delay (in_config inn) \<le> DURATION_MAX"
  shows "length slept < max (cc_retry_attempts (in_config inn)) 1 \<and>
    slept = map (\<lambda>j. min (2 ^ j * cc_initial_retry_delay (in_config inn)) DURATION_MAX) [0..<length slept] \<and>
    (\<not> is_ok res \<longrightarrow> length slept = max (cc_retry_attempts (in_config inn)) 1 - 1)"
proof -
  have "retry_loop net i req (max (cc_retry_attempts (in_config inn)) 1)
      (cc_initial_retry_delay (in_config inn)) '''' (inn, w) = (s', res, slept)"
    using assms(1) by (simp add: request_with_retry_def)
  from retry_loop_slept [OF this] show ?thesis
    by (auto simp: saturating_double_iter [OF assms(2,3)])
qed

definition dead_network :: "unit network" where
  "dead_network = \<lparr>dial = (\<lambda>_ w. (w, Some ''down'')), exchange = (\<lambda>_ _ w. (w, NoReply))\<rparr>"

definition demo_client :: inner where
  "demo_client = \<lparr>in_id = ''c'', in_config = \<lparr>cc_retry_attempts = 3, cc_initial_retry_delay = 5, cc_request_timeout = 1,
       cc_manager_connect_timeout = 1\<rparr>, in_state = default_topology, in_workers = [''a''],
     in_managers = [], in_next_request_id = 1, in_streams = []\<rparr>"

lemma retries_bounded_witness:
  "length (snd (snd (request_with_retry dead_network ''a'' (request REQUEST_GET 1 None None None) (demo_client, ())))) = 2"
proof -
  obtain s' res slept where r: "request_with_retry dead_network ''a'' (request REQUEST_GET 1 None None None) (demo_client, ()) =
      (s', res, slept)" by (cases "request_with_retry dead_network ''a'' (request REQUEST_GET 1 None None None) (demo_client, ())") auto
  have "\<not> is_ok (fst (snd (request_with_retry dead_network ''a'' (request REQUEST_GET 1 None None None) (demo_client, ()))))"
    by code_simp
  with retries_bounded [OF r] r show ?thesis by (simp add: demo_client_def DURATION_MAX_def)
qed

text \<open>
  The client's topology never goes back. Applying a cluster state either leaves it as it is or
  moves it to the state's epoch and leader, which is a later epoch or the same epoch with the
  leader it already had (or had none); it is left alone when the state is older or from a
  conflicting leader. An update without nodes keeps the node list.
\<close>

theorem topology_never_goes_back:
  "(apply_state state t = t \<or>
     (t_epoch (apply_state state t) = gc_epoch state \<and> t_leader_id (apply_state state t) = gc_leader_id state)) \<and>
   t_epoch t \<le> t_epoch (apply_state state t) \<and>
   (t_epoch (apply_state state t) = t_epoch t \<and> t_leader_id t \<noteq> '''' \<longrightarrow>
     t_leader_id (apply_state state t) = t_leader_id t) \<and>
   (gc_epoch state < t_epoch t \<longrightarrow> apply_state state t = t) \<and>
   (gc_nodes state = [] \<longrightarrow> t_nodes (apply_state state t) = t_nodes t)"
  by (auto simp: apply_state_def Let_def not_less split: option.split)

lemma topology_never_goes_back_witness:
  "apply_state \<lparr>gc_epoch = 1, gc_leader_id = ''old'', gc_nodes = [], gc_partitions = None\<rparr>
     (default_topology\<lparr>t_epoch := 2, t_leader_id := ''new''\<rparr>) =
   default_topology\<lparr>t_epoch := 2, t_leader_id := ''new''\<rparr>"
  using topology_never_goes_back [of "\<lparr>gc_epoch = 1, gc_leader_id = ''old'', gc_nodes = [], gc_partitions = None\<rparr>"
      "default_topology\<lparr>t_epoch := 2, t_leader_id := ''new''\<rparr>"] by simp

text \<open>The records among the answers of the fallback nodes.\<close>

definition answers :: "(client_error + grpc_record option) list \<Rightarrow> grpc_record set" where
  "answers rs = {rec. Inr (Some rec) \<in> set rs}"

lemma answers_simps [simp]:
  "answers [] = {}" "answers (Inr (Some rec) # rs) = insert rec (answers rs)"
  "answers (Inr None # rs) = answers rs" "answers (Inl e # rs) = answers rs"
  by (auto simp: answers_def)

lemma newest_record_newest:
  "(case newest_record cur rs of
      None \<Rightarrow> cur = None \<and> answers rs = {}
    | Some rec \<Rightarrow> rec \<in> set_option cur \<union> answers rs \<and>
        (\<forall>r \<in> set_option cur \<union> answers rs. gr_creation_time r \<le> gr_creation_time rec))"
proof (induction cur rs rule: newest_record.induct)
  case (2 cur rec rs)
  show ?case
  proof (cases cur)
    case None
    with 2 show ?thesis by (auto split: option.splits)
  next
    case (Some c)
    with 2 show ?thesis
      by (cases "gr_creation_time c < gr_creation_time rec") (auto split: option.splits)
  qed
qed (auto split: option.splits)

text \<open>
  A read that falls back returns the newest answer: when the master answers that it has no
  record and at least one fallback node answers, the result is the value of an answer whose
  creation time is the greatest of all, nothing if that answer is a tombstone, and nothing if no
  node has a record.
\<close>

theorem fallback_reads_newest:
  assumes "read_targets k inn = Inr (primary, fallback)" and "fallback \<noteq> []"
    and "request_with_retry net primary (request REQUEST_GET k None None None) (inn, w) = (s1, Inr None, slept)"
    and "request_all net (request REQUEST_GET k None None None) fallback s1 = (s2, responses)"
    and "list_ex is_ok responses"
  shows "\<exists>found. client_get net k (inn, w) = (s2, Inr found) \<and>
    (if answers responses = {} then found = None
     else \<exists>rec\<in>answers responses. found = visible_value rec \<and>
       (\<forall>r\<in>answers responses. gr_creation_time r \<le> gr_creation_time rec))"
proof -
  have "client_get net k (inn, w) = (s2, Inr (Option.bind (newest_record None responses) visible_value))"
    using assms by (simp add: client_get_def)
  moreover have "if answers responses = {} then Option.bind (newest_record None responses) visible_value = None
     else \<exists>rec\<in>answers responses. Option.bind (newest_record None responses) visible_value = visible_value rec \<and>
       (\<forall>r\<in>answers responses. gr_creation_time r \<le> gr_creation_time rec)"
    using newest_record_newest [of None responses] by (auto split: option.splits)
  ultimately show ?thesis by blast
qed

definition split_network :: "unit network" where
  "split_network = \<lparr>dial = (\<lambda>_ w. (w, None)), exchange = (\<lambda>i r w. (w, Replied
     \<lparr>wr_request_id = cr_id r,
      wr_record = (if i = ''b'' then Some \<lparr>gr_key = 7, gr_value = [9], gr_ttl = 0, gr_creation_time = 3,
                     gr_deleted = False\<rparr> else None),
      wr_deletion_time = None\<rparr>))\<rparr>"

definition demo_reader :: inner where
  "demo_reader = demo_client\<lparr>in_state := default_topology\<lparr>
     t_mapping := [(7, \<lparr>gp_master = ''a'', gp_replicas = [''b'']\<rparr>)]\<rparr>, in_workers := [''a'', ''b'']\<rparr>"

lemma fallback_reads_newest_witness:
  "\<exists>s. client_get split_network 7 (demo_reader, ()) = (s, Inr (Some [9]))"
proof -
  let ?g = "request REQUEST_GET 7 None None None"
  let ?rec = "\<lparr>gr_key = 7, gr_value = [9], gr_ttl = 0, gr_creation_time = 3, gr_deleted = False\<rparr>"
  have t: "read_targets 7 demo_reader = Inr (''a'', [''b''])" by code_simp
  obtain s1 res slept where one: "request_with_retry split_network ''a'' ?g (demo_reader, ()) = (s1, res, slept)"
    by (cases "request_with_retry split_network ''a'' ?g (demo_reader, ())") auto
  have "fst (snd (request_with_retry split_network ''a'' ?g (demo_reader, ()))) = Inr None" by code_simp
  with one have res: "res = Inr None" by simp
  obtain s2 rs where all: "request_all split_network ?g [''b''] s1 = (s2, rs)" by fastforce
  have "snd (request_all split_network ?g [''b''] (fst (request_with_retry split_network ''a'' ?g (demo_reader, ())))) =
      [Inr (Some ?rec)]" by code_simp
  with one all have rs: "rs = [Inr (Some ?rec)]" by simp
  from fallback_reads_newest [OF t _ one [unfolded res] all] obtain found where
    "client_get split_network 7 (demo_reader, ()) = (s2, Inr found)" "found = visible_value ?rec"
    by (auto simp: rs is_ok_def)
  then have "client_get split_network 7 (demo_reader, ()) = (s2, Inr (Some [9]))" by (simp add: visible_value_def)
  then show ?thesis by blast
qed

end
