(* ===== verification/Replication.thy ===== *)
theory Replication
  imports Client
begin

text \<open>
  The client and the workers together: what a successful or failed write leaves on the workers, and
  what a read returns. The locale \<open>worker_network\<close> is the contract between the two sides: a request
  that is answered was handled once by the worker's request handler, one that is not answered was
  handled or lost. \<open>cluster_network\<close> is such a network, built from the workers' request handler and a
  list of fates for the requests on their way.
\<close>

section \<open>A network of workers\<close>

datatype fate = Answered | RequestLost | ReplyLost | Refused string

record cluster_world =
  cw_stores :: "string \<Rightarrow> runtime_store"
  cw_fates :: "fate list"
  cw_clock :: u64

definition next_fate :: "cluster_world \<Rightarrow> fate \<times> cluster_world" where
  "next_fate w = (case cw_fates w of [] \<Rightarrow> (Answered, w) | f # fs \<Rightarrow> (f, w\<lparr>cw_fates := fs\<rparr>))"

definition serve :: "string \<Rightarrow> client_request \<Rightarrow> cluster_world \<Rightarrow> cluster_world \<times> worker_response" where
  "serve i req w =
     (let (s', r) = handle_client_request (cw_clock w) (cw_clock w) req (cw_stores w i)
      in (w\<lparr>cw_stores := (cw_stores w)(i := s')\<rparr>, r))"

definition cluster_exchange :: "string \<Rightarrow> client_request \<Rightarrow> cluster_world \<Rightarrow> cluster_world \<times> reply" where
  "cluster_exchange i req w =
     (case next_fate w of
        (Answered, w1) \<Rightarrow> (let (w2, r) = serve i req w1 in (w2, Replied r))
      | (RequestLost, w1) \<Rightarrow> (w1, NoReply)
      | (ReplyLost, w1) \<Rightarrow> (fst (serve i req w1), NoReply)
      | (Refused reason, w1) \<Rightarrow> (w1, Failed reason))"

definition cluster_dial :: "string \<Rightarrow> cluster_world \<Rightarrow> cluster_world \<times> string option" where
  "cluster_dial e w =
     (case next_fate w of (Refused reason, w1) \<Rightarrow> (w1, Some reason) | (_, w1) \<Rightarrow> (w1, None))"

definition cluster_network :: "cluster_world network" where
  "cluster_network = \<lparr>dial = cluster_dial, exchange = cluster_exchange\<rparr>"

section \<open>Writes and reads of a request\<close>

text \<open>The mutation a write request carries.\<close>

definition write_of :: "client_request \<Rightarrow> mutation option" where
  "write_of r =
     (case (cr_value r, cr_creation_time r) of
        (Some v, Some t) \<Rightarrow>
          if cr_request_type r = REQUEST_PUT
          then Some (Put \<lparr>sr_expiration_time_ms = (case cr_ttl r of Some x \<Rightarrow> x | None \<Rightarrow> 0),
                          sr_creation_time_ms = t, sr_value = v\<rparr>)
          else None
      | (None, Some t) \<Rightarrow> if cr_request_type r = REQUEST_DELETE then Some (Delete t) else None
      | _ \<Rightarrow> None)"

lemma handle_write:
  assumes "write_of r = Some m"
  shows "handle_client_request now now2 r s =
    (apply_mutation (Key (cr_key r), m) s,
     \<lparr>wr_request_id = cr_id r, wr_record = None, wr_deletion_time = None\<rparr>)"
  using assms
  by (auto simp: write_of_def handle_client_request_def apply_mutation_def REQUEST_PUT_def REQUEST_DELETE_def
      Let_def split: option.splits if_splits)

lemma write_of_id [simp]: "write_of (r\<lparr>cr_id := i\<rparr>) = write_of r"
  by (simp add: write_of_def split: option.split)

text \<open>The record a worker that holds mutation \<open>m\<close> answers a read with.\<close>

definition answer_for :: "u64 \<Rightarrow> mutation option \<Rightarrow> grpc_record option" where
  "answer_for k m =
     (case m of
        None \<Rightarrow> None
      | Some (Put q) \<Rightarrow> Some \<lparr>gr_key = k, gr_value = sr_value q, gr_ttl = sr_expiration_time_ms q,
                           gr_creation_time = sr_creation_time_ms q, gr_deleted = False\<rparr>
      | Some (Delete t) \<Rightarrow> Some \<lparr>gr_key = 0, gr_value = [], gr_ttl = 0, gr_creation_time = t, gr_deleted = True\<rparr>)"

lemma handle_read:
  assumes "store_wf s" and "cr_request_type r = REQUEST_GET"
  shows "response_record (snd (handle_client_request now now2 r s)) =
      answer_for (cr_key r) (purge now (store_lookup s (Key (cr_key r))))"
    and "store_lookup (fst (handle_client_request now now2 r s)) =
      (store_lookup s)(Key (cr_key r) := purge now (store_lookup s (Key (cr_key r))))"
    and "store_wf (fst (handle_client_request now now2 r s))"
proof -
  obtain s' res where g: "get_versioned s now (Key (cr_key r)) = (s', res)" by fastforce
  have t: "cr_request_type r \<noteq> REQUEST_PUT" "cr_request_type r \<noteq> REQUEST_DELETE"
    using assms(2) by (simp_all add: REQUEST_GET_def REQUEST_PUT_def REQUEST_DELETE_def)
  have look: "res = purge now (store_lookup s (Key (cr_key r)))"
      "store_lookup s' = (store_lookup s)(Key (cr_key r) := purge now (store_lookup s (Key (cr_key r))))"
    using get_versioned_lookup [OF assms(1), of now "Key (cr_key r)"] g by simp_all
  have wf: "store_wf s'" using store_wf_get_versioned [OF assms(1), of now "Key (cr_key r)"] g by simp
  have fst: "fst (handle_client_request now now2 r s) = s'"
    using t g by (auto simp: handle_client_request_def Let_def split: option.split mutation.split)
  show "response_record (snd (handle_client_request now now2 r s)) =
      answer_for (cr_key r) (purge now (store_lookup s (Key (cr_key r))))"
    using t g look(1)
    by (auto simp: handle_client_request_def Let_def response_record_def answer_for_def
        split: option.split mutation.split)
  show "store_lookup (fst (handle_client_request now now2 r s)) =
      (store_lookup s)(Key (cr_key r) := purge now (store_lookup s (Key (cr_key r))))"
    unfolding fst by (rule look(2))
  show "store_wf (fst (handle_client_request now now2 r s))" unfolding fst by (rule wf)
qed

lemma newer_idem: "newer ver (Some (newer ver a m)) m = newer ver a m"
  by (cases a) auto

section \<open>What a write leaves behind\<close>

text \<open>
  The effect of a write on a store: done once or several times, the key holds the newer of what it
  held and the mutation; a write that failed on the way may or may not have been done.
\<close>

definition has_written :: "key \<Rightarrow> mutation \<Rightarrow> runtime_store \<Rightarrow> runtime_store \<Rightarrow> bool" where
  "has_written k m s s' \<longleftrightarrow> store_wf s' \<and>
     store_lookup s' = (store_lookup s)(k \<mapsto> newer version (store_lookup s k) m)"

definition may_have_written :: "key \<Rightarrow> mutation \<Rightarrow> runtime_store \<Rightarrow> runtime_store \<Rightarrow> bool" where
  "may_have_written k m s s' \<longleftrightarrow> (store_wf s' \<and> store_lookup s' = store_lookup s) \<or> has_written k m s s'"

lemma may_have_written_refl: "store_wf s \<Longrightarrow> may_have_written k m s s"
  by (simp add: may_have_written_def)

lemma may_have_written_wf: "may_have_written k m s s' \<Longrightarrow> store_wf s'"
  by (auto simp: may_have_written_def has_written_def)

lemma has_written_apply: "may_have_written k m s s' \<Longrightarrow> has_written k m s (apply_mutation (k, m) s')"
  by (auto simp: may_have_written_def has_written_def rs.lookup_apply store_wf_apply newer_idem
      simp del: newer.simps)

lemma has_written_may: "has_written k m s s' \<Longrightarrow> may_have_written k m s s'"
  by (simp add: may_have_written_def)

lemma has_written_then_may: "has_written k m s s' \<Longrightarrow> may_have_written k m s' s'' \<Longrightarrow> has_written k m s s''"
  by (auto simp: may_have_written_def has_written_def newer_idem simp del: newer.simps)

lemma may_have_written_trans:
  "may_have_written k m s s' \<Longrightarrow> may_have_written k m s' s'' \<Longrightarrow> may_have_written k m s s''"
  by (auto simp: may_have_written_def has_written_def newer_idem simp del: newer.simps)

lemma may_then_has_written:
  "may_have_written k m s s' \<Longrightarrow> has_written k m s' s'' \<Longrightarrow> has_written k m s s''"
  by (auto simp: may_have_written_def has_written_def newer_idem simp del: newer.simps)

locale worker_network =
  fixes net :: "'w network"
    and store :: "'w \<Rightarrow> string \<Rightarrow> runtime_store"
  assumes dial_keeps: "store (fst (dial net e w)) = store w"
    and exchange_others: "j \<noteq> i \<Longrightarrow> store (fst (exchange net i r w)) j = store w j"
    and exchange_answered: "snd (exchange net i r w) = Replied resp \<Longrightarrow>
      \<exists>now now2. (store (fst (exchange net i r w)) i, resp) = handle_client_request now now2 r (store w i)"
    and exchange_unanswered: "\<forall>resp. snd (exchange net i r w) \<noteq> Replied resp \<Longrightarrow>
      store (fst (exchange net i r w)) i = store w i \<or>
      (\<exists>now now2. store (fst (exchange net i r w)) i = fst (handle_client_request now now2 r (store w i)))"
begin

lemma worker_connection_keeps:
  assumes "worker_connection net i (inn, w) = ((inn', w'), err)"
  shows "store w' = store w" and "in_state inn' = in_state inn" and "in_config inn' = in_config inn"
proof -
  have "store w'' = store w" if "dial net e w = (w'', r)" for e w'' r
    using dial_keeps [of e w] that by simp
  with assms show "store w' = store w"
    by (auto simp: worker_connection_def split: if_splits option.splits prod.splits)
  from assms show "in_state inn' = in_state inn" and "in_config inn' = in_config inn"
    by (auto simp: worker_connection_def split: if_splits option.splits prod.splits)
qed

lemma exchange_write:
  assumes "exchange net i r w = (w', rep)" and "write_of r = Some m" and "store_wf (store w i)"
  shows "may_have_written (Key (cr_key r)) m (store w i) (store w' i)"
    and "rep = Replied resp \<Longrightarrow> has_written (Key (cr_key r)) m (store w i) (store w' i)"
proof -
  have done': "has_written (Key (cr_key r)) m (store w i) (apply_mutation (Key (cr_key r), m) (store w i))"
    by (rule has_written_apply [OF may_have_written_refl [OF assms(3)]])
  show ok: "has_written (Key (cr_key r)) m (store w i) (store w' i)" if "rep = Replied resp" for resp
    using exchange_answered [of i r w resp] that assms(1) done' by (auto simp: handle_write [OF assms(2)])
  show "may_have_written (Key (cr_key r)) m (store w i) (store w' i)"
  proof (cases rep)
    case (Replied resp)
    then show ?thesis using ok by (blast intro: has_written_may)
  next
    case NoReply
    then show ?thesis
      using exchange_unanswered [of i r w] assms(1) done' may_have_written_refl [OF assms(3)]
      by (auto simp: handle_write [OF assms(2)] has_written_may)
  next
    case (Failed reason)
    then show ?thesis
      using exchange_unanswered [of i r w] assms(1) done' may_have_written_refl [OF assms(3)]
      by (auto simp: handle_write [OF assms(2)] has_written_may)
  qed
qed

lemma attempt_write:
  assumes "attempt net i r (inn, w) = ((inn', w'), res)" and "write_of r = Some m" and "store_wf (store w i)"
  shows "(\<forall>j. j \<noteq> i \<longrightarrow> store w' j = store w j) \<and> in_state inn' = in_state inn \<and> in_config inn' = in_config inn \<and>
    may_have_written (Key (cr_key r)) m (store w i) (store w' i) \<and>
    (\<forall>rec. res = Inr rec \<longrightarrow> has_written (Key (cr_key r)) m (store w i) (store w' i))"
proof -
  let ?r = "r\<lparr>cr_id := in_next_request_id inn\<rparr>"
  let ?inn1 = "inn\<lparr>in_next_request_id := in_next_request_id inn + 1\<rparr>"
  obtain inn2 w2 err where c: "worker_connection net i (?inn1, w) = ((inn2, w2), err)"
    by (cases "worker_connection net i (?inn1, w)") auto
  note keep = worker_connection_keeps [OF c]
  obtain w3 rep where x: "exchange net i ?r w2 = (w3, rep)" by fastforce
  have wr: "write_of ?r = Some m" and wf2: "store_wf (store w2 i)" using assms keep by simp_all
  have others: "\<forall>j. j \<noteq> i \<longrightarrow> store w3 j = store w j" using exchange_others [of _ i ?r w2] x keep by auto
  have step: "may_have_written (Key (cr_key r)) m (store w i) (store w3 i)"
    using exchange_write(1) [OF x wr wf2] keep by simp
  have done': "has_written (Key (cr_key r)) m (store w i) (store w3 i)" if "rep = Replied resp" for resp
    using exchange_write(2) [OF x wr wf2 that] keep by simp
  show ?thesis
    using assms(1,3) c x others step done' keep
    by (cases err; cases rep) (auto simp: attempt_def may_have_written_refl)
qed

lemma retry_loop_write:
  assumes "retry_loop net i r n delay reason (inn, w) = ((inn', w'), res, slept)"
    and "write_of r = Some m" and "store_wf (store w i)"
  shows "(\<forall>j. j \<noteq> i \<longrightarrow> store w' j = store w j) \<and> in_state inn' = in_state inn \<and> in_config inn' = in_config inn \<and>
    may_have_written (Key (cr_key r)) m (store w i) (store w' i) \<and>
    (is_ok res \<longrightarrow> has_written (Key (cr_key r)) m (store w i) (store w' i))"
  using assms(1,3)
proof (induction n arbitrary: delay reason inn w inn' w' res slept)
  case 0
  then show ?case by (auto simp: is_ok_def may_have_written_refl)
next
  case (Suc n)
  obtain inn1 w1 r1 where a: "attempt net i r (inn, w) = ((inn1, w1), r1)"
    by (cases "attempt net i r (inn, w)") auto
  note f = attempt_write [OF a assms(2) Suc.prems(2)]
  show ?case
  proof (cases r1)
    case (Inr rec)
    with a f Suc.prems(1) show ?thesis by auto
  next
    case (Inl reason')
    with a Suc.prems(1) obtain slept' where
      "retry_loop net i r n (duration_saturating_double delay) reason' (inn1, w1) = ((inn', w'), res, slept')"
      by (auto split: prod.splits)
    from Suc.IH [OF this] f show ?thesis
      by (auto dest: may_have_written_wf intro: may_have_written_trans may_then_has_written)
  qed
qed

lemma request_with_retry_write:
  assumes "request_with_retry net i r (inn, w) = ((inn', w'), res, slept)"
    and "write_of r = Some m" and "store_wf (store w i)"
  shows "(\<forall>j. j \<noteq> i \<longrightarrow> store w' j = store w j) \<and> in_state inn' = in_state inn \<and> in_config inn' = in_config inn \<and>
    may_have_written (Key (cr_key r)) m (store w i) (store w' i) \<and>
    (is_ok res \<longrightarrow> has_written (Key (cr_key r)) m (store w i) (store w' i))"
  using retry_loop_write [OF _ assms(2,3)] assms(1) by (simp add: request_with_retry_def)

lemma request_all_write:
  assumes "request_all net r targets (inn, w) = ((inn', w'), results)"
    and "write_of r = Some m" and "\<forall>j. store_wf (store w j)"
  shows "in_state inn' = in_state inn \<and> (\<forall>j. j \<notin> set targets \<longrightarrow> store w' j = store w j) \<and>
    (\<forall>j. j \<in> set targets \<longrightarrow> may_have_written (Key (cr_key r)) m (store w j) (store w' j)) \<and>
    (list_all is_ok results \<longrightarrow>
      (\<forall>j. j \<in> set targets \<longrightarrow> has_written (Key (cr_key r)) m (store w j) (store w' j)))"
  using assms(1,3)
proof (induction targets arbitrary: inn w results)
  case (Cons i targets)
  obtain inn1 w1 res slept where one: "request_with_retry net i r (inn, w) = ((inn1, w1), res, slept)"
    by (cases "request_with_retry net i r (inn, w)") auto
  obtain results' where rest: "request_all net r targets (inn1, w1) = ((inn', w'), results')"
    and res: "results = res # results'"
    using Cons.prems(1) one by (auto simp: Let_def split: prod.splits)
  have wfi: "store_wf (store w i)" using Cons.prems(2) by blast
  note f = request_with_retry_write [OF one assms(2) wfi]
  have wf1: "\<forall>j. store_wf (store w1 j)"
  proof
    fix j
    show "store_wf (store w1 j)"
      using f Cons.prems(2) may_have_written_wf by (cases "j = i") auto
  qed
  note g = Cons.IH [OF rest wf1]
  let ?k = "Key (cr_key r)"
  have mi: "may_have_written ?k m (store w1 i) (store w' i)"
    using g may_have_written_refl [of "store w1 i"] wf1 by (cases "i \<in> set targets") auto
  have "may_have_written ?k m (store w j) (store w' j)" if "j \<in> set (i # targets)" for j
    using that f g mi by (cases "j = i") (auto intro: may_have_written_trans)
  moreover have "has_written ?k m (store w j) (store w' j)"
    if "list_all is_ok results" "j \<in> set (i # targets)" for j
    using that f g mi by (cases "j = i") (auto simp: res intro: has_written_then_may)
  ultimately show ?case using f g by auto
qed simp

text \<open>Reads of a record that does not expire.\<close>

lemma attempt_read:
  assumes "attempt net i r (inn, w) = ((inn', w'), res)"
    and "cr_request_type r = REQUEST_GET" and "store_wf (store w i)"
    and "store_lookup (store w i) (Key (cr_key r)) = Some m" and "\<And>now. \<not> expired now m"
  shows "store_wf (store w' i) \<and> store_lookup (store w' i) (Key (cr_key r)) = Some m \<and>
    (\<forall>ans. res = Inr ans \<longrightarrow> ans = answer_for (cr_key r) (Some m))"
proof -
  let ?r = "r\<lparr>cr_id := in_next_request_id inn\<rparr>"
  let ?inn1 = "inn\<lparr>in_next_request_id := in_next_request_id inn + 1\<rparr>"
  obtain inn2 w2 err where c: "worker_connection net i (?inn1, w) = ((inn2, w2), err)"
    by (cases "worker_connection net i (?inn1, w)") auto
  note keep = worker_connection_keeps [OF c]
  obtain w3 rep where x: "exchange net i ?r w2 = (w3, rep)" by fastforce
  have get: "cr_request_type ?r = REQUEST_GET" and wf2: "store_wf (store w2 i)"
    and look: "store_lookup (store w2 i) (Key (cr_key ?r)) = Some m"
    using assms keep by simp_all
  have unexp: "purge now (Some m) = Some m" for now using assms(5) by (simp add: purge_def)
  have handled: "store_wf (fst (handle_client_request now now2 ?r (store w2 i))) \<and>
      store_lookup (fst (handle_client_request now now2 ?r (store w2 i))) (Key (cr_key r)) = Some m \<and>
      response_record (snd (handle_client_request now now2 ?r (store w2 i))) = answer_for (cr_key r) (Some m)"
    for now now2
    using handle_read [OF wf2 get, of now now2] look unexp by simp
  have kept: "store_wf (store w3 i) \<and> store_lookup (store w3 i) (Key (cr_key r)) = Some m"
    using exchange_unanswered [of i ?r w2] exchange_answered [of i ?r w2] x wf2 look handled
    by (cases rep) (auto, (metis fst_conv handled)+)
  have ans: "response_record resp = answer_for (cr_key r) (Some m)" if "rep = Replied resp" for resp
    using exchange_answered [of i ?r w2 resp] x that handled by (metis fst_conv snd_conv)
  show ?thesis
    using assms(1) c x kept ans wf2 look by (cases err; cases rep) (auto simp: attempt_def)
qed

lemma retry_loop_read:
  assumes "retry_loop net i r n delay reason (inn, w) = ((inn', w'), Inr ans, slept)"
    and "cr_request_type r = REQUEST_GET" and "store_wf (store w i)"
    and "store_lookup (store w i) (Key (cr_key r)) = Some m" and "\<And>now. \<not> expired now m"
  shows "ans = answer_for (cr_key r) (Some m)"
  using assms(1,3,4)
proof (induction n arbitrary: delay reason inn w slept)
  case 0
  then show ?case by simp
next
  case (Suc n)
  obtain inn1 w1 r1 where a: "attempt net i r (inn, w) = ((inn1, w1), r1)"
    by (cases "attempt net i r (inn, w)") auto
  note f = attempt_read [OF a assms(2) Suc.prems(2,3) assms(5)]
  show ?case
  proof (cases r1)
    case (Inr rec)
    with a f Suc.prems(1) show ?thesis by auto
  next
    case (Inl reason')
    with a Suc.prems(1) obtain slept' where
      "retry_loop net i r n (duration_saturating_double delay) reason' (inn1, w1) = ((inn', w'), Inr ans, slept')"
      by (auto split: prod.splits)
    from Suc.IH [OF this] f show ?thesis by blast
  qed
qed

end

interpretation cn: worker_network cluster_network cw_stores
proof
  show "cw_stores (fst (dial cluster_network e w)) = cw_stores w" for e w
    by (auto simp: cluster_network_def cluster_dial_def next_fate_def split: list.split fate.split)
  show "j \<noteq> i \<Longrightarrow> cw_stores (fst (exchange cluster_network i r w)) j = cw_stores w j" for i j r w
    by (auto simp: cluster_network_def cluster_exchange_def next_fate_def serve_def
        split: list.split fate.split prod.split)
  show "snd (exchange cluster_network i r w) = Replied resp \<Longrightarrow>
      \<exists>now now2. (cw_stores (fst (exchange cluster_network i r w)) i, resp) =
        handle_client_request now now2 r (cw_stores w i)" for i r w resp
    by (rule exI [of _ "cw_clock w"], rule exI [of _ "cw_clock w"])
       (auto simp: cluster_network_def cluster_exchange_def next_fate_def serve_def
         split: list.splits fate.splits prod.splits)
  show "\<forall>resp. snd (exchange cluster_network i r w) \<noteq> Replied resp \<Longrightarrow>
      cw_stores (fst (exchange cluster_network i r w)) i = cw_stores w i \<or>
      (\<exists>now now2. cw_stores (fst (exchange cluster_network i r w)) i =
        fst (handle_client_request now now2 r (cw_stores w i)))" for i r w
  proof -
    have "cw_stores (fst (exchange cluster_network i r w)) i \<in>
        {cw_stores w i, fst (handle_client_request (cw_clock w) (cw_clock w) r (cw_stores w i))}"
      by (auto simp: cluster_network_def cluster_exchange_def next_fate_def serve_def
          split: list.split fate.split prod.split)
    then show ?thesis by blast
  qed
qed

section \<open>Outcome of a client write\<close>

lemma first_error_None: "first_error rs = None \<longleftrightarrow> list_all is_ok rs"
proof (induction rs)
  case (Cons r rs)
  then show ?case by (cases r) (auto simp: is_ok_def)
qed simp

lemma write_all_outcome:
  assumes "write_all cluster_network (cr_key r) r (inn, w) = ((inn', w'), res)"
    and "write_of r = Some m" and "\<forall>j. store_wf (cw_stores w j)"
    and "write_targets (cr_key r) inn = Inr targets"
  shows "in_state inn' = in_state inn \<and> (\<forall>j. j \<notin> set targets \<longrightarrow> cw_stores w' j = cw_stores w j) \<and>
    (\<forall>j. j \<in> set targets \<longrightarrow> may_have_written (Key (cr_key r)) m (cw_stores w j) (cw_stores w' j)) \<and>
    (res = Inr () \<longrightarrow> (\<forall>j. j \<in> set targets \<longrightarrow> has_written (Key (cr_key r)) m (cw_stores w j) (cw_stores w' j)))"
proof -
  obtain results where "request_all cluster_network r targets (inn, w) = ((inn', w'), results)"
    and "res = (case first_error results of Some e \<Rightarrow> Inl e | None \<Rightarrow> Inr ())"
    using assms(1,4) by (auto simp: write_all_def split: prod.splits)
  with cn.request_all_write [OF _ assms(2,3)] show ?thesis
    by (auto simp: first_error_None [symmetric] split: option.splits)
qed

lemma write_targets_owners:
  "write_targets k inn = Inr targets \<longleftrightarrow>
   (\<exists>q. hm_get (t_mapping (in_state inn)) (client_partition k) = Some q \<and>
        targets = hs_insert (gp_master q) (hs_collect (gp_replicas q)))"
  by (auto simp: write_targets_def Let_def split: option.split)

text \<open>The writes of \<open>put\<close> and \<open>delete\<close>.\<close>

definition put_mutation :: "u64 \<Rightarrow> u8 list \<Rightarrow> u64 option \<Rightarrow> mutation" where
  "put_mutation t v e = Put \<lparr>sr_expiration_time_ms = (case e of Some x \<Rightarrow> x | None \<Rightarrow> 0),
     sr_creation_time_ms = t, sr_value = v\<rparr>"

lemma write_of_put [simp]: "write_of (request REQUEST_PUT k (Some v) (Some t) e) = Some (put_mutation t v e)"
  by (simp add: write_of_def request_def put_mutation_def)

lemma write_of_delete [simp]: "write_of (request REQUEST_DELETE k None (Some t) None) = Some (Delete t)"
  by (simp add: write_of_def request_def)

lemma request_key [simp]: "cr_key (request ty k v t e) = k"
  by (simp add: request_def)

section \<open>Properties\<close>

definition demo_stores :: cluster_world where
  "demo_stores = \<lparr>cw_stores = (\<lambda>_. new_runtime_store), cw_fates = [Refused ''down'', ReplyLost], cw_clock = 100\<rparr>"

definition demo_inner :: inner where
  "demo_inner = \<lparr>in_id = ''c'', in_config = \<lparr>cc_retry_attempts = 3, cc_initial_retry_delay = 1, cc_request_timeout = 1,
                     cc_manager_connect_timeout = 1\<rparr>,
     in_state = \<lparr>t_epoch = 1, t_leader_id = ''m'',
       t_nodes = [(''a'', \<lparr>tn_endpoint = ''http://a:1'', tn_node_type = 1\<rparr>),
                  (''b'', \<lparr>tn_endpoint = ''http://b:1'', tn_node_type = 1\<rparr>)],
       t_mapping = [(7, \<lparr>gp_master = ''a'', gp_replicas = []\<rparr>)],
       t_old_replicas = [], t_new_replicas = []\<rparr>,
     in_workers = [], in_managers = [], in_next_request_id = 1, in_streams = []\<rparr>"

lemma client_partition_agrees: "PartitionId (ucast (client_partition k)) = key_partition (Key k)"
proof -
  define n where "n = unat k mod 4096"
  have lt: "n < 4096" by (simp add: n_def)
  have "k mod 4096 = word_of_nat n" by (simp add: word_mod_4096 n_def)
  with lt show ?thesis
    by (simp add: client_partition_def CLIENT_PARTITIONS_AMOUNT_def key_partition_def PARTITIONS_AMOUNT_def
        n_def [symmetric] unsigned_of_nat take_bit_nat_eq_self)
qed

text \<open>
  C39: Client and worker agree on partitions: the partition the client routes a key to is the
  partition under which every worker files it.
\<close>

theorem client_routes_to_stored_partition:
  "PartitionId (ucast (client_partition k)) = key_partition (Key k)"
  by (rule client_partition_agrees)

text \<open>
  C3: A put that succeeds has reached every owner of the key's partition: on the master and on each
  replica the key holds the new record, or the newer one the owner already had, and nothing else
  has changed anywhere. Requests and replies lost on the way and repeated by the retries make no
  difference. A put that fails has changed nothing but that key, and it may have reached some of the owners.
\<close>

theorem put_reaches_all_owners:
  assumes "\<forall>j. store_wf (cw_stores w j)"
    and "hm_get (t_mapping (in_state inn)) (client_partition k) = Some q"
    and "expiration_time t ttl = Inr e"
    and "client_put cluster_network (Some t) k v ttl (inn, w) = ((inn', w'), res)"
  shows "(\<forall>j. j \<noteq> gp_master q \<and> j \<notin> set (gp_replicas q) \<longrightarrow> cw_stores w' j = cw_stores w j) \<and>
    (\<forall>j. may_have_written (Key k) (put_mutation t v e) (cw_stores w j) (cw_stores w' j)) \<and>
    (res = Inr () \<longrightarrow> (\<forall>j. j = gp_master q \<or> j \<in> set (gp_replicas q) \<longrightarrow>
       has_written (Key k) (put_mutation t v e) (cw_stores w j) (cw_stores w' j)))"
proof -
  let ?r = "request REQUEST_PUT k (Some v) (Some t) e"
  let ?targets = "hs_insert (gp_master q) (hs_collect (gp_replicas q))"
  have wa: "write_all cluster_network (cr_key ?r) ?r (inn, w) = ((inn', w'), res)"
    using assms(3,4) by (simp add: client_put_def)
  have t: "write_targets (cr_key ?r) inn = Inr ?targets" using assms(2) by (simp add: write_targets_owners)
  note o = write_all_outcome [OF wa write_of_put assms(1) t]
  have "may_have_written (Key k) (put_mutation t v e) (cw_stores w j) (cw_stores w' j)" for j
    using o assms(1) by (cases "j \<in> set ?targets") (auto simp: may_have_written_refl)
  with o show ?thesis by auto
qed

lemma put_reaches_all_owners_witness:
  "\<exists>inn' w'. client_put cluster_network (Some 50) 7 [1] None (demo_inner, demo_stores) = ((inn', w'), Inr ()) \<and>
     has_written (Key 7) (put_mutation 50 [1] None) new_runtime_store (cw_stores w' ''a'')"
proof -
  obtain inn' w' res where p: "client_put cluster_network (Some 50) 7 [1] None (demo_inner, demo_stores) = ((inn', w'), res)"
    by (cases "client_put cluster_network (Some 50) 7 [1] None (demo_inner, demo_stores)") auto
  moreover have "snd (client_put cluster_network (Some 50) 7 [1] None (demo_inner, demo_stores)) = Inr ()" by code_simp
  ultimately have res: "res = Inr ()" by simp
  have m: "hm_get (t_mapping (in_state demo_inner)) (client_partition 7) =
    Some \<lparr>gp_master = ''a'', gp_replicas = []\<rparr>" by code_simp
  have "has_written (Key 7) (put_mutation 50 [1] None) (cw_stores demo_stores ''a'') (cw_stores w' ''a'')"
    using put_reaches_all_owners [OF _ m _ p, of None] res
    by (auto simp: demo_stores_def expiration_time_def)
  with p res show ?thesis by (auto simp: demo_stores_def)
qed

text \<open>
  C4: Read your write. After a put without expiry or a delete has succeeded, with a time not below
  the version the master held, a read that succeeds returns the value written, and nothing after a
  delete, whatever was lost and retried on the way. It does not consult the fallback nodes.
\<close>

theorem read_your_write:
  assumes "\<forall>j. store_wf (cw_stores w j)"
    and "hm_get (t_mapping (in_state inn)) (client_partition k) = Some q"
    and "\<And>m. store_lookup (cw_stores w (gp_master q)) (Key k) = Some m \<Longrightarrow> version m \<le> t"
    and "\<not> del \<Longrightarrow> client_put cluster_network (Some t) k v None (inn, w) = ((inn', w'), Inr ())"
    and "del \<Longrightarrow> client_delete cluster_network (Some t) k (inn, w) = ((inn', w'), Inr ())"
    and "client_get cluster_network k (inn', w') = (s'', Inr found)"
  shows "found = (if del then None else Some v)"
proof -
  define r where "r = (if del then request REQUEST_DELETE k None (Some t) None
    else request REQUEST_PUT k (Some v) (Some t) None)"
  define m where "m = (if del then Delete t else put_mutation t v None)"
  have k: "cr_key r = k" and wr: "write_of r = Some m" by (simp_all add: r_def m_def)
  have wa: "write_all cluster_network (cr_key r) r (inn, w) = ((inn', w'), Inr ())"
    using assms(4,5) by (simp add: r_def client_put_def client_delete_def expiration_time_def split: if_splits)
  have tg: "write_targets (cr_key r) inn = Inr (hs_insert (gp_master q) (hs_collect (gp_replicas q)))"
    using assms(2) k by (simp add: write_targets_owners)
  have o: "in_state inn' = in_state inn"
      "has_written (Key k) m (cw_stores w (gp_master q)) (cw_stores w' (gp_master q))"
    using write_all_outcome [OF wa wr assms(1) tg] k by auto
  have v: "version m = t" by (simp add: m_def put_mutation_def)
  have look: "store_wf (cw_stores w' (gp_master q))" "store_lookup (cw_stores w' (gp_master q)) (Key k) = Some m"
    using o(2) assms(3) v
    by (auto simp: has_written_def) (cases "store_lookup (cw_stores w (gp_master q)) (Key k)"; simp)
  have unexp: "\<not> expired now m" for now by (simp add: m_def put_mutation_def)
  obtain fb where rt: "read_targets k inn' = Inr (gp_master q, fb)"
    using assms(2) o(1) by (simp add: read_targets_def Let_def)
  let ?g = "request REQUEST_GET k None None None"
  obtain inn1 w1 res slept where rr: "request_with_retry cluster_network (gp_master q) ?g (inn', w') = ((inn1, w1), res, slept)"
    by (cases "request_with_retry cluster_network (gp_master q) ?g (inn', w')") auto
  have ok: "\<exists>ans. res = Inr ans"
    using assms(6) rt rr by (cases res) (auto simp: client_get_def)
  then obtain ans where ans: "res = Inr ans" by blast
  have "ans = answer_for k (Some m)"
    using cn.retry_loop_read [of "gp_master q" ?g _ _ _ inn' w' inn1 w1 ans slept m] rr ans look unexp
    by (simp add: request_with_retry_def request_def)
  then show ?thesis
    using assms(6) rt rr ans
    by (auto simp: client_get_def answer_for_def visible_value_def m_def put_mutation_def split: if_splits)
qed

lemma read_your_write_witness:
  "\<exists>s s'. client_put cluster_network (Some 50) 7 [1] None (demo_inner, demo_stores) = (s, Inr ()) \<and>
     client_get cluster_network 7 s = (s', Inr (Some [1]))"
proof -
  let ?p = "client_put cluster_network (Some 50) 7 [1] None (demo_inner, demo_stores)"
  obtain inn' w' where p: "?p = ((inn', w'), Inr ())"
  proof -
    have "snd ?p = Inr ()" by code_simp
    then show ?thesis using that by (cases ?p) auto
  qed
  have m: "hm_get (t_mapping (in_state demo_inner)) (client_partition 7) =
    Some \<lparr>gp_master = ''a'', gp_replicas = []\<rparr>" by code_simp
  obtain s' found where g: "client_get cluster_network 7 (inn', w') = (s', Inr found)"
  proof -
    have "is_ok (snd (client_get cluster_network 7 (fst ?p)))" by code_simp
    then show ?thesis using that p
      by (cases "client_get cluster_network 7 (inn', w')") (auto simp: is_ok_def split: sum.splits)
  qed
  have "found = (if False then None else Some [1])"
    by (rule read_your_write [OF _ m _ _ _ g]) (use p in \<open>auto simp: demo_stores_def\<close>)
  with p g show ?thesis by auto
qed

end
