(* ===== verification/Assignment.thy ===== *)
theory Assignment
  imports Manager_Grpc Replication
begin

text \<open>
  From the leader's recalculation to the nodes that act on it: the assignment leaves the service as
  cluster states (\<open>manager/service/partitions.rs\<close>), the output layer writes them to the sessions of
  workers and of all clients (\<open>manager/grpc/output.rs\<close>), a client takes its targets from what it reads
  (\<open>no-sql-store-client/src/lib.rs\<close>) and a worker its partitions (\<open>worker/service/cluster_state.rs\<close>).
\<close>

section \<open>The broadcast to clients\<close>

lemma broadcast_get:
  "hm_wf clients \<Longrightarrow> hm_get (fold (broadcast_to_client i state) clients sessions) c =
     (case hm_get clients c of
        None \<Rightarrow> hm_get sessions c
      | Some s \<Rightarrow> if c = i then hm_get sessions c
                 else if closed s then None else map_option (session_send state) (hm_get sessions c))"
proof (induction clients arbitrary: sessions)
  case (Cons e clients)
  obtain j t where e: "e = (j, t)" by (cases e)
  with Cons.prems have "hm_get clients j = None" by (simp add: map_of_eq_None_iff)
  with Cons e show ?case by (auto simp: broadcast_to_client_def split: option.split)
qed simp

lemma to_node_clients [simp]:
  "mg_client_sessions (to_worker we i g) = mg_client_sessions g"
  "mg_client_sessions (to_manager e i g) = mg_client_sessions g"
  by (simp_all add: to_worker_def to_manager_def split_beta Let_def)

text \<open>A cluster state for any node reaches every client with an open session.\<close>

lemma clients_get_state:
  assumes "hm_wf (mg_client_sessions g)" and "hm_get (mg_client_sessions g) c = Some s" and "\<not> closed s" and "c \<noteq> i"
  shows "hm_get (mg_client_sessions (handle_output_cluster_state i cs g)) c =
    Some (s\<lparr>sent := sent s @ [cluster_state_to_grpc cs]\<rparr>)"
proof -
  have "hm_wf (hm_update i (session_send (cluster_state_to_grpc cs)) (mg_client_sessions g))" using assms(1) by simp
  with assms broadcast_get [of _ i "cluster_state_to_grpc cs"] show ?thesis
    by (simp add: handle_output_cluster_state_def Let_def session_send_def)
qed

section \<open>The targets of a client\<close>

lemma grpc_mapping_get:
  assumes "hm_wf m"
  shows "hm_get (domain_partition_mapping_to_grpc m) (ucast (partition_number p)) =
    map_option (\<lambda>q. \<lparr>gp_master = node_id_to_string (p_master q), gp_replicas = map node_id_to_string (p_replicas q)\<rparr>)
      (hm_get m p)"
proof -
  let ?f = "\<lambda>q. \<lparr>gp_master = node_id_to_string (p_master q), gp_replicas = map node_id_to_string (p_replicas q)\<rparr>"
  let ?k = "\<lambda>p. ucast (partition_number p) :: u32"
  have inj: "inj ?k" by (rule inj_on_inverseI [of _ "\<lambda>x. PartitionId (ucast x)"]) (rule partition_number_round_trip)
  have "hm_get (map (\<lambda>(p, q). (?k p, ?f q)) m) (?k p) = map_option ?f (hm_get m p)"
    by (induction m) (auto dest: injD [OF inj])
  with hm_collect_distinct [OF hm_wf_partition_keys [OF assms, of ?f]] show ?thesis
    by (simp add: domain_partition_mapping_to_grpc_def)
qed

lemma partition_of_client: "(client_partition k :: u32) = ucast (partition_number (key_partition (Key k)))"
proof -
  have "ucast (ucast (client_partition k) :: u16) = client_partition k"
  proof -
    have "unat (client_partition k) < 4096"
      by (simp add: client_partition_def CLIENT_PARTITIONS_AMOUNT_def word_mod_4096 unsigned_ucast_eq unsigned_of_nat
          take_bit_nat_eq_self)
    then show ?thesis by (simp add: word_unat_eq_iff unsigned_ucast_eq unsigned_take_bit_eq take_bit_nat_eq_self)
  qed
  moreover have "partition_number (key_partition (Key k)) = ucast (client_partition k)"
    using arg_cong [OF client_partition_agrees [of k], of partition_number] by simp
  ultimately show ?thesis by simp
qed

text \<open>A topology that takes over the state of a leader.\<close>

definition takes_over :: "topology \<Rightarrow> u64 \<Rightarrow> string \<Rightarrow> bool" where
  "takes_over t epoch leader \<longleftrightarrow>
     t_epoch t < epoch \<or> t_epoch t = epoch \<and> (t_leader_id t = '''' \<or> t_leader_id t = leader)"

lemma apply_state_mapping:
  assumes "takes_over t (cs_epoch cs) (node_id_to_string (cs_leader_id cs))"
  shows "t_mapping (apply_state (cluster_state_to_grpc cs) t) = domain_partition_mapping_to_grpc (mapping (cs_partitions cs))"
  using assms
  by (auto simp: apply_state_def cluster_state_to_grpc_def domain_partitions_to_grpc_def takes_over_def Let_def)

lemma client_targets:
  assumes "takes_over (in_state inn) (cs_epoch cs) (node_id_to_string (cs_leader_id cs))"
    and "hm_wf (mapping (cs_partitions cs))" and "hm_get (mapping (cs_partitions cs)) (key_partition (Key k)) = Some q"
  shows "\<exists>targets fallback.
    write_targets k (inn\<lparr>in_state := apply_state (cluster_state_to_grpc cs) (in_state inn)\<rparr>) = Inr targets \<and>
    set targets = node_id_to_string ` owners q \<and>
    read_targets k (inn\<lparr>in_state := apply_state (cluster_state_to_grpc cs) (in_state inn)\<rparr>) =
      Inr (node_id_to_string (p_master q), fallback) \<and>
    node_id_to_string ` owners q - {node_id_to_string (p_master q)} \<subseteq> set fallback"
proof -
  have "hm_get (t_mapping (apply_state (cluster_state_to_grpc cs) (in_state inn))) (client_partition k) =
      Some \<lparr>gp_master = node_id_to_string (p_master q), gp_replicas = map node_id_to_string (p_replicas q)\<rparr>"
    using assms(3) by (simp add: apply_state_mapping [OF assms(1)] partition_of_client grpc_mapping_get [OF assms(2)])
  then show ?thesis by (auto simp: write_targets_def read_targets_def Let_def owners_def)
qed


section \<open>Properties\<close>

text \<open>What a recalculation sends, with the owners of the partition of a key.\<close>

lemma recalculation_for_key:
  assumes "m_elected_leader_id st = Some (me_id me)" and "m_epoch st = Some epoch"
    and "worker_keys st \<noteq> []" and "worker_keys st \<noteq> m_workers_with_calculated_partitions st" and "0 < rf"
    and "worker_partitions me rf st = Some (st', msgs)" and "m \<in> set msgs"
  obtains i cs where "m = MClusterState i cs" "cs_epoch cs = epoch" "cs_leader_id cs = me_id me"
    "cs_partitions cs = m_partitions st'" "hm_wf (mapping (cs_partitions cs))"
    "hm_get (mapping (cs_partitions cs)) (key_partition (Key k)) = Some (layout (worker_keys st) rf (unat k mod 4096))"
proof -
  obtain new where new: "new_mapping_for PARTITIONS_AMOUNT rf (worker_keys st) = Some new"
    and wp: "worker_partitions me rf st =
      Some (recalculated new st,
            map (\<lambda>i. MClusterState i \<lparr>cs_epoch = epoch, cs_leader_id = me_id me, cs_nodes = [],
                   cs_partitions = m_partitions (recalculated new st)\<rparr>)
              (filter (\<lambda>k. k \<noteq> me_id me) (hm_keys (m_nodes st))))"
    by (rule worker_partitions_recalc [OF assms(1-4)])
  have "hm_wf new" by (rule new_mapping_for_get(3) [OF assms(3,5) _ new]) (simp add: PARTITIONS_AMOUNT_def)
  moreover have "hm_get new (key_partition (Key k)) = Some (layout (worker_keys st) rf (unat k mod 4096))"
    using new_mapping_for_get(1) [OF assms(3,5) _ new, of "unat k mod 4096"]
    by (simp add: PARTITIONS_AMOUNT_def key_partition_def part_of_nat_def)
  moreover have "mapping (m_partitions (recalculated new st)) = new" by (simp add: recalculated_def Let_def)
  ultimately show ?thesis using that wp assms(6,7) by auto
qed

text \<open>A leader with one worker, before its first recalculation, and its sessions.\<close>

definition fresh_leader :: mstate where
  "fresh_leader = (new_mstate [(NodeId ''m'', demo_manager), (NodeId ''a'', demo_worker)] (Some 1))
     \<lparr>m_elected_leader_id := Some (NodeId ''m'')\<rparr>"

lemma fresh_leader_simps [simp]:
  "worker_keys fresh_leader = [NodeId ''a'']" "m_elected_leader_id fresh_leader = Some (me_id demo_me)"
  "m_epoch fresh_leader = Some 1" "m_workers_with_calculated_partitions fresh_leader = []"
  by (code_simp | simp add: fresh_leader_def new_mstate_def demo_me_def)+

definition serving_mgrpc :: mgrpc where
  "serving_mgrpc = (new_mgrpc demo_me demo_config)\<lparr>mg_worker_sessions := [(NodeId ''a'', open_session [])],
     mg_client_sessions := [(NodeId ''c'', open_session [])]\<rparr>"

lemma fresh_recalculation:
  obtains new where "new_mapping_for PARTITIONS_AMOUNT 1 [NodeId ''a''] = Some new"
    "worker_partitions demo_me 1 fresh_leader = Some (recalculated new fresh_leader,
       [MClusterState (NodeId ''a'') \<lparr>cs_epoch = 1, cs_leader_id = NodeId ''m'', cs_nodes = [],
          cs_partitions = m_partitions (recalculated new fresh_leader)\<rparr>])"
proof -
  have nodes: "filter (\<lambda>k. k \<noteq> me_id demo_me) (hm_keys (m_nodes fresh_leader)) = [NodeId ''a'']" by code_simp
  have me: "me_id demo_me = NodeId ''m''" by (simp add: demo_me_def)
  from worker_partitions_recalc [of fresh_leader demo_me 1 1] nodes me that show ?thesis by auto
qed

lemma fresh_layout:
  "layout [NodeId ''a''] (Suc 0) n = \<lparr>p_master = NodeId ''a'', p_replicas = []\<rparr>" "owner_at [NodeId ''a''] n 0 = NodeId ''a''"
  by (simp_all add: layout_def owner_at_def hs_extend_def)

text \<open>
  C13: The assignment reaches the clients. When a leader has recalculated, each message the output
  layer sends for it is also written to every other client with an open session; a client whose
  topology takes the leader's state over then writes each key to exactly the workers the leader made
  owners of the key's partition, reads it from the master first, and falls back to all other owners.
\<close>

theorem assignment_reaches_clients:
  assumes "m_elected_leader_id st = Some (me_id me)" and "m_epoch st = Some epoch"
    and "worker_keys st \<noteq> []" and "worker_keys st \<noteq> m_workers_with_calculated_partitions st" and "0 < rf"
    and "worker_partitions me rf st = Some (st', msgs)" and "m \<in> set msgs"
    and "hm_wf (mg_client_sessions g)" and "hm_get (mg_client_sessions g) c = Some s" and "\<not> closed s"
    and "addressee m \<noteq> Some c" and "takes_over (in_state inn) epoch (node_id_to_string (me_id me))"
  shows "\<exists>g' state targets fallback. mg_output m g = Some g' \<and>
    hm_get (mg_client_sessions g') c = Some (s\<lparr>sent := sent s @ [state]\<rparr>) \<and>
    write_targets k (inn\<lparr>in_state := apply_state state (in_state inn)\<rparr>) = Inr targets \<and>
    set targets = node_id_to_string ` owners (layout (worker_keys st) rf (unat k mod 4096)) \<and>
    read_targets k (inn\<lparr>in_state := apply_state state (in_state inn)\<rparr>) =
      Inr (node_id_to_string (p_master (layout (worker_keys st) rf (unat k mod 4096))), fallback) \<and>
    set targets - {node_id_to_string (p_master (layout (worker_keys st) rf (unat k mod 4096)))} \<subseteq> set fallback"
proof -
  obtain i cs where cs: "m = MClusterState i cs" "cs_epoch cs = epoch" "cs_leader_id cs = me_id me"
    "hm_wf (mapping (cs_partitions cs))"
    "hm_get (mapping (cs_partitions cs)) (key_partition (Key k)) = Some (layout (worker_keys st) rf (unat k mod 4096))"
    by (rule recalculation_for_key [OF assms(1-7)]) blast
  then have "mg_output m g = Some (handle_output_cluster_state i cs g)" and "c \<noteq> i" using assms(11) by auto
  with clients_get_state [OF assms(8-10)] client_targets [of inn cs k, OF _ cs(4,5)] assms(12) cs show ?thesis by force
qed


lemma assignment_reaches_clients_witness:
  "\<exists>st' msgs m g' state targets. worker_partitions demo_me 1 fresh_leader = Some (st', msgs) \<and> m \<in> set msgs \<and>
     mg_output m serving_mgrpc = Some g' \<and>
     write_targets 7 (demo_client\<lparr>in_state := apply_state state (in_state demo_client)\<rparr>) = Inr targets \<and> set targets = {''a''}"
proof -
  obtain new where new: "worker_partitions demo_me 1 fresh_leader = Some (recalculated new fresh_leader,
       [MClusterState (NodeId ''a'') \<lparr>cs_epoch = 1, cs_leader_id = NodeId ''m'', cs_nodes = [],
          cs_partitions = m_partitions (recalculated new fresh_leader)\<rparr>])" by (rule fresh_recalculation)
  have "takes_over (in_state demo_client) 1 (node_id_to_string (me_id demo_me))"
    by (simp add: takes_over_def demo_client_def default_topology_def)
  from assignment_reaches_clients [OF _ _ _ _ _ new, where g = serving_mgrpc and c = "NodeId ''c''" and
      s = "open_session []" and inn = demo_client and k = 7 and epoch = 1, OF _ _ _ _ _ _ _ _ _ _ this]
  have "\<exists>g' state targets. mg_output (MClusterState (NodeId ''a'') \<lparr>cs_epoch = 1, cs_leader_id = NodeId ''m'', cs_nodes = [],
          cs_partitions = m_partitions (recalculated new fresh_leader)\<rparr>) serving_mgrpc = Some g' \<and>
     write_targets 7 (demo_client\<lparr>in_state := apply_state state (in_state demo_client)\<rparr>) = Inr targets \<and>
     set targets = {''a''}"
    by (auto simp: serving_mgrpc_def open_session_def fresh_layout owners_def)
  with new show ?thesis by (metis list.set_intros(1))
qed

text \<open>
  C14: The assignment reaches the workers. The message a recalculation sends to a worker with an open
  session is read there as the leader's cluster state, and a worker that has no later epoch and no
  other leader takes epoch, leader and partitions over: for every key it then holds the same owners
  as the leader.
\<close>

theorem assignment_reaches_workers:
  assumes "m_elected_leader_id st = Some (me_id me)" and "m_epoch st = Some epoch"
    and "worker_keys st \<noteq> []" and "worker_keys st \<noteq> m_workers_with_calculated_partitions st" and "0 < rf"
    and "worker_partitions me rf st = Some (st', msgs)" and "m \<in> set msgs" and "msg_canonical uuid m"
    and "addressee m = Some i" and "hm_get (mg_client_sessions g) i = None"
    and "hm_get (mg_worker_sessions g) i = Some s" and "\<not> closed s"
    and "accepts_state (w_epoch wst) (w_elected_leader_id wst) epoch (me_id me)"
  shows "\<exists>g' ev cs wst' out. mg_output m g = Some g' \<and>
    hm_get (mg_worker_sessions g') i = Some (s\<lparr>sent := sent s @ [ev]\<rparr>) \<and>
    wg_on_manager_event uuid (me_id me) ev = Emit (WClusterState cs) \<and>
    w_dispatch wme rd (WClusterState cs) wst store = (wst', store, out) \<and>
    w_epoch wst' = Some epoch \<and> w_elected_leader_id wst' = Some (me_id me) \<and> w_partitions wst' = m_partitions st' \<and>
    hm_get (mapping (w_partitions wst')) (key_partition (Key k)) = Some (layout (worker_keys st) rf (unat k mod 4096))"
proof -
  obtain j cs where cs: "m = MClusterState j cs" "cs_epoch cs = epoch" "cs_leader_id cs = me_id me"
    "cs_partitions cs = m_partitions st'"
    "hm_get (mapping (cs_partitions cs)) (key_partition (Key k)) = Some (layout (worker_keys st) rf (unat k mod 4096))"
    by (rule recalculation_for_key [OF assms(1-7)]) blast
  then have i: "j = i" using assms(9) by simp
  have out: "mg_output m g = Some (handle_output_cluster_state i cs g)"
    and sess: "hm_get (mg_worker_sessions (handle_output_cluster_state i cs g)) i =
      Some (s\<lparr>sent := sent s @ [WEClusterState (cluster_state_to_grpc cs)]\<rparr>)"
    using assms(10-12) cs(1) i
    by (simp_all add: handle_output_cluster_state_def has_worker_session_def to_worker_def handle_common_open
        session_send_def Let_def)
  have c: "state_canonical uuid cs" using assms(8) cs(1) by simp
  then have "grpc_cluster_state_to_domain uuid (cluster_state_to_grpc cs)
      (domain_partitions_to_grpc (cs_partitions cs)) = Some cs"
    using nodes_round_trip_state [of uuid cs]
    by (auto simp: grpc_cluster_state_to_domain_def state_canonical_def node_id_round_trip partitions_round_trip
        cluster_state_to_grpc_def)
  then have read: "wg_on_manager_event uuid (me_id me) (WEClusterState (cluster_state_to_grpc cs)) = Emit (WClusterState cs)"
    by (simp add: cluster_state_to_grpc_def)
  obtain wst' out' where w: "w_handle_cluster_state wme (w_state_now rd) epoch (me_id me) (cs_nodes cs) (cs_partitions cs) wst =
      (wst', out')" by (metis surj_pair)
  then have "w_dispatch wme rd (WClusterState cs) wst store = (wst', store, out')" using cs(2,3) by simp
  moreover have "w_epoch wst' = Some epoch" "w_elected_leader_id wst' = Some (me_id me)" "w_partitions wst' = cs_partitions cs"
    using w assms(13) by (auto simp: w_handle_cluster_state_def accepts_state_def Let_def split: prod.splits if_splits)
  ultimately show ?thesis using out sess read cs(4,5) by (metis (no_types))
qed

lemma assignment_reaches_workers_witness:
  "\<exists>st' msgs m g'. worker_partitions demo_me 1 fresh_leader = Some (st', msgs) \<and> m \<in> set msgs \<and>
     mg_output m serving_mgrpc = Some g' \<and> hm_get (mapping (m_partitions st')) (key_partition (Key 7)) =
       Some \<lparr>p_master = NodeId ''a'', p_replicas = []\<rparr>"
proof -
  obtain new where new: "new_mapping_for PARTITIONS_AMOUNT 1 [NodeId ''a''] = Some new"
    and out: "worker_partitions demo_me 1 fresh_leader = Some (recalculated new fresh_leader,
       [MClusterState (NodeId ''a'') \<lparr>cs_epoch = 1, cs_leader_id = NodeId ''m'', cs_nodes = [],
          cs_partitions = m_partitions (recalculated new fresh_leader)\<rparr>])" by (rule fresh_recalculation)
  have wf: "hm_wf new" by (rule new_mapping_for_get(3) [OF _ _ _ new]) (simp_all add: PARTITIONS_AMOUNT_def)
  have parts: "m_partitions (recalculated new fresh_leader) = \<lparr>mapping = new, old_replicas = [], new_replicas = []\<rparr>"
    by (simp add: recalculated_def copy_current_mapping_to_old_def fresh_leader_def new_mstate_def default_partitions_def
        hm_retain_def Let_def)
  have entry: "q = \<lparr>p_master = NodeId ''a'', p_replicas = []\<rparr>" if "(p, q) \<in> set new" for p q
    using new_mapping_for_get(2) [OF _ _ _ new, of p q] that wf by (auto simp: PARTITIONS_AMOUNT_def fresh_layout)
  have c: "msg_canonical Some (MClusterState (NodeId ''a'') \<lparr>cs_epoch = 1, cs_leader_id = NodeId ''m'', cs_nodes = [],
      cs_partitions = m_partitions (recalculated new fresh_leader)\<rparr>)"
    using wf by (auto simp: parts state_canonical_def partitions_canonical_def parts_wf_def canonical_def list_all_iff
        dest!: entry)
  have "accepts_state (w_epoch (new_wstate [])) (w_elected_leader_id (new_wstate [])) 1 (me_id demo_me)"
    by (simp add: accepts_state_def new_wstate_def)
  from assignment_reaches_workers [OF _ _ _ _ _ out _ c, where g = serving_mgrpc and i = "NodeId ''a''" and
      s = "open_session []" and k = 7 and epoch = 1 and wst = "new_wstate []" and wme = demo_me and
      store = new_runtime_store and rd = "\<lparr>w_hb_now = 0, w_conn_now = 0, w_state_now = 0, w_clk = (\<lambda>_ _. (0, 0))\<rparr>", OF _ _ _ _ _ _ _ _ _ _ this]
  have "\<exists>g'. mg_output (MClusterState (NodeId ''a'') \<lparr>cs_epoch = 1, cs_leader_id = NodeId ''m'', cs_nodes = [],
          cs_partitions = m_partitions (recalculated new fresh_leader)\<rparr>) serving_mgrpc = Some g' \<and>
     hm_get (mapping (m_partitions (recalculated new fresh_leader))) (key_partition (Key 7)) =
       Some \<lparr>p_master = NodeId ''a'', p_replicas = []\<rparr>"
    by (force simp: serving_mgrpc_def open_session_def fresh_layout)
  with out show ?thesis by (metis list.set_intros(1))
qed

end
