(* ===== verification/Client_Connection.thy ===== *)
theory Client_Connection
  imports Client
begin

text \<open>
  The connection of a client to a worker (\<open>no-sql-store-client/src/connection.rs\<close>) with the worker's end
  of the stream (\<open>worker/grpc.rs\<close>, \<open>open_client_connection\<close>): calls that wait at the same time, the two
  directions of the stream as queues, the reader task, and the end of the stream at any moment.

  A call is known by its number in the order in which the client takes request ids; it takes its id
  and registers in one step, so the numbers are also the order of registration. Its \<open>oneshot\<close>
  channel is the entry of the call in \<open>wc_done\<close>: absent while the caller waits. A caller that gives up
  after its timeout leaves its entry in the pending map, as in the code, so giving up changes
  nothing here.
\<close>

section \<open>The connection\<close>

text \<open>The events of the stream: a request, a response, or an event without payload.\<close>

datatype client_event = CERequest client_request | CEResponse worker_response | CEEmpty

type_synonym caller = nat
type_synonym call_result = "string + grpc_record option"

record worker_conn =
  wc_outbound :: "client_event list"
  wc_outbound_closed :: bool
  wc_pending :: "(i32, caller) hash_map"
  wc_reading :: bool
  wc_done :: "(caller, call_result) hash_map"

definition conn_connect :: worker_conn where
  "conn_connect = \<lparr>wc_outbound = [], wc_outbound_closed = False, wc_pending = [], wc_reading = True, wc_done = []\<rparr>"

definition stream_closed_reason :: string where
  "stream_closed_reason = ''worker stream closed''"

text \<open>A result is sent into the \<open>oneshot\<close> channel of a call; only the first one counts.\<close>

definition complete :: "caller \<Rightarrow> call_result \<Rightarrow> worker_conn \<Rightarrow> worker_conn" where
  "complete k res c = (if hm_get (wc_done c) k = None then c\<lparr>wc_done := hm_insert k res (wc_done c)\<rparr> else c)"

text \<open>
  \<open>WorkerConnection::request\<close>, first half: the sender enters the pending map. A sender that was there
  under the same id is dropped, which its caller sees as a closed stream.
\<close>

definition conn_register :: "caller \<Rightarrow> i32 \<Rightarrow> worker_conn \<Rightarrow> worker_conn" where
  "conn_register k i c =
     (let c1 = (case hm_get (wc_pending c) i of
                  Some displaced \<Rightarrow> complete displaced (Inl stream_closed_reason) c
                | None \<Rightarrow> c)
      in c1\<lparr>wc_pending := hm_insert i k (wc_pending c1)\<rparr>)"

text \<open>
  Second half: the request goes out, or the entry is removed and the call returns the failure without
  looking at its channel.
\<close>

definition conn_send :: "caller \<Rightarrow> client_request \<Rightarrow> worker_conn \<Rightarrow> worker_conn" where
  "conn_send k req c =
     (if wc_outbound_closed c
      then c\<lparr>wc_pending := hm_remove (cr_id req) (wc_pending c),
             wc_done := hm_insert k (Inl stream_closed_reason) (wc_done c)\<rparr>
      else c\<lparr>wc_outbound := wc_outbound c @ [CERequest req]\<rparr>)"

text \<open>One event at the reader task: a response completes the call with its id, others are skipped.\<close>

definition on_response :: "worker_response \<Rightarrow> worker_conn \<Rightarrow> worker_conn" where
  "on_response r c =
     (case hm_get (wc_pending c) (wr_request_id r) of
        Some k \<Rightarrow> complete k (Inr (response_record r)) (c\<lparr>wc_pending := hm_remove (wr_request_id r) (wc_pending c)\<rparr>)
      | None \<Rightarrow> c)"

fun on_inbound :: "client_event \<Rightarrow> worker_conn \<Rightarrow> worker_conn" where
  "on_inbound (CEResponse r) c = on_response r c"
| "on_inbound (CERequest _) c = c"
| "on_inbound CEEmpty c = c"

definition drain :: "string \<Rightarrow> worker_conn \<Rightarrow> worker_conn" where
  "drain reason c = fold (\<lambda>(_, k). complete k (Inl reason)) (wc_pending c) (c\<lparr>wc_pending := []\<rparr>)"

text \<open>The stream ends: with an error, or because the worker closed it.\<close>

definition stream_ends :: "string option \<Rightarrow> worker_conn \<Rightarrow> worker_conn" where
  "stream_ends error c =
     (drain (case error of Some e \<Rightarrow> e | None \<Rightarrow> stream_closed_reason) c)\<lparr>wc_reading := False\<rparr>"

section \<open>The worker's end\<close>

text \<open>
  One event of the stream at the worker: a request is handled on the store and answered with its
  id, other events are skipped. \<open>answer_sent\<close> says whether the answer found the stream still open.
\<close>

fun serve_event ::
  "u64 \<Rightarrow> u64 \<Rightarrow> bool \<Rightarrow> client_event \<Rightarrow> runtime_store \<Rightarrow> runtime_store \<times> client_event list" where
  "serve_event now now2 answer_sent (CERequest r) s =
     (case handle_client_request now now2 r s of
        (s', resp) \<Rightarrow> (s', if answer_sent then [CEResponse resp] else []))"
| "serve_event now now2 answer_sent (CEResponse _) s = (s, [])"
| "serve_event now now2 answer_sent CEEmpty s = (s, [])"

section \<open>Runs\<close>

text \<open>
  A handled request, with the clock readings and the store it was applied to. The history of a run
  is what the statements below refer to.
\<close>

record handled =
  hd_request :: client_request
  hd_now :: u64
  hd_now2 :: u64
  hd_store :: runtime_store

record conn_system =
  cs_conn :: worker_conn
  cs_next :: nat
  cs_calls :: "caller \<Rightarrow> client_request option"
  cs_unsent :: "caller set"
  cs_store :: runtime_store
  cs_inbound :: "client_event list"
  cs_handled :: "handled list"

definition conn_init :: "runtime_store \<Rightarrow> conn_system" where
  "conn_init st = \<lparr>cs_conn = conn_connect, cs_next = 0, cs_calls = Map.empty, cs_unsent = {}, cs_store = st,
     cs_inbound = [], cs_handled = []\<rparr>"

text \<open>The id of a call: \<open>next_request_id\<close> starts at 1 and wraps at 32 bits.\<close>

definition call_id :: "caller \<Rightarrow> i32" where
  "call_id k = word_of_nat (k + 1)"

text \<open>
  The steps: a request to another worker takes an id; a call registers; a registered call sends; the
  outbound half closes; the worker handles the oldest event; the store changes through other clients
  or transfers; the reader takes the oldest event; the stream ends and what was on its way is lost.
\<close>

inductive conn_step :: "conn_system \<Rightarrow> conn_system \<Rightarrow> bool" where
  other_call: "conn_step s (s\<lparr>cs_next := cs_next s + 1\<rparr>)"
| call: "req = template\<lparr>cr_id := call_id (cs_next s)\<rparr> \<Longrightarrow>
    conn_step s (s\<lparr>cs_conn := conn_register (cs_next s) (cr_id req) (cs_conn s), cs_next := cs_next s + 1,
      cs_calls := (cs_calls s)(cs_next s \<mapsto> req), cs_unsent := insert (cs_next s) (cs_unsent s)\<rparr>)"
| send: "k \<in> cs_unsent s \<Longrightarrow> cs_calls s k = Some req \<Longrightarrow>
    conn_step s (s\<lparr>cs_conn := conn_send k req (cs_conn s), cs_unsent := cs_unsent s - {k}\<rparr>)"
| close_outbound: "conn_step s (s\<lparr>cs_conn := (cs_conn s)\<lparr>wc_outbound_closed := True\<rparr>\<rparr>)"
| serve: "wc_outbound (cs_conn s) = e # rest \<Longrightarrow>
    serve_event now now' answer_sent e (cs_store s) = (store', answer) \<Longrightarrow>
    conn_step s (s\<lparr>cs_conn := (cs_conn s)\<lparr>wc_outbound := rest\<rparr>, cs_store := store',
      cs_inbound := cs_inbound s @ answer,
      cs_handled := cs_handled s @ (case e of
          CERequest r \<Rightarrow> [\<lparr>hd_request = r, hd_now = now, hd_now2 = now', hd_store = cs_store s\<rparr>]
        | _ \<Rightarrow> [])\<rparr>)"
| store_changes: "conn_step s (s\<lparr>cs_store := store'\<rparr>)"
| read: "wc_reading (cs_conn s) \<Longrightarrow> cs_inbound s = e # rest \<Longrightarrow>
    conn_step s (s\<lparr>cs_conn := on_inbound e (cs_conn s), cs_inbound := rest\<rparr>)"
| stream_end: "wc_reading (cs_conn s) \<Longrightarrow>
    conn_step s (s\<lparr>cs_conn := stream_ends error (cs_conn s), cs_inbound := []\<rparr>)"

inductive conn_reachable :: "runtime_store \<Rightarrow> conn_system \<Rightarrow> bool" for st where
  start: "conn_reachable st (conn_init st)"
| step: "conn_reachable st s \<Longrightarrow> conn_step s s' \<Longrightarrow> conn_reachable st s'"


section \<open>Lemmas\<close>

lemma complete_simps [simp]:
  "wc_outbound (complete k res c) = wc_outbound c" "wc_pending (complete k res c) = wc_pending c"
  "wc_outbound_closed (complete k res c) = wc_outbound_closed c" "wc_reading (complete k res c) = wc_reading c"
  "hm_get (wc_done (complete k res c)) j =
     (if j = k \<and> hm_get (wc_done c) j = None then Some res else hm_get (wc_done c) j)"
  by (auto simp: complete_def)

lemma register_simps [simp]:
  "wc_outbound (conn_register k i c) = wc_outbound c"
  "wc_pending (conn_register k i c) = hm_insert i k (wc_pending c)"
  by (auto simp: conn_register_def Let_def split: option.split)

lemma register_done:
  "hm_get (wc_pending c) i = None \<Longrightarrow> wc_done (conn_register k i c) = wc_done c"
  by (simp add: conn_register_def)

lemma on_response_simps [simp]: "wc_outbound (on_response r c) = wc_outbound c"
  by (simp add: on_response_def split: option.split)

lemma fold_complete_simps [simp]:
  "wc_outbound (fold (\<lambda>(_, k). complete k (Inl reason)) ps c) = wc_outbound c"
  "wc_pending (fold (\<lambda>(_, k). complete k (Inl reason)) ps c) = wc_pending c"
  by (induction ps arbitrary: c) (auto split: prod.split)

lemma fold_complete_done:
  "hm_get (wc_done (fold (\<lambda>(_, k). complete k (Inl reason)) ps c)) j =
     (if j \<in> snd ` set ps \<and> hm_get (wc_done c) j = None then Some (Inl reason) else hm_get (wc_done c) j)"
  by (induction ps arbitrary: c) (auto split: if_splits)

lemma stream_ends_simps [simp]:
  "wc_outbound (stream_ends error c) = wc_outbound c" "wc_pending (stream_ends error c) = []"
  by (simp_all add: stream_ends_def drain_def)

lemma stream_ends_done:
  "hm_get (wc_done (stream_ends error c)) j =
     (if j \<in> snd ` set (wc_pending c) \<and> hm_get (wc_done c) j = None
      then Some (Inl (case error of Some e \<Rightarrow> e | None \<Rightarrow> stream_closed_reason)) else hm_get (wc_done c) j)"
  by (simp add: stream_ends_def drain_def fold_complete_done)

lemma response_id: "wr_request_id (snd (handle_client_request now now2 r s)) = cr_id r"
  by (auto simp: handle_client_request_def Let_def split: prod.split option.split mutation.split)

lemma call_id_inj:
  assumes "call_id j = call_id k" and "j < 2 ^ 32" and "k < 2 ^ 32"
  shows "j = k"
proof -
  have "(j + 1) mod 2 ^ 32 = (k + 1) mod 2 ^ 32"
    using arg_cong [OF assms(1), of unat] unfolding call_id_def unat_of_nat by simp
  moreover have "(j + 1) mod 2 ^ 32 = (if j + 1 = 2 ^ 32 then 0 else j + 1)"
    and "(k + 1) mod 2 ^ 32 = (if k + 1 = 2 ^ 32 then 0 else k + 1)"
    using assms(2,3) by auto
  ultimately show ?thesis by (auto split: if_splits)
qed

section \<open>Invariant\<close>

definition requests_of :: "client_event list \<Rightarrow> client_request list" where
  "requests_of es = List.map_filter (\<lambda>e. case e of CERequest r \<Rightarrow> Some r | _ \<Rightarrow> None) es"

definition answer_of :: "handled \<Rightarrow> worker_response" where
  "answer_of h = snd (handle_client_request (hd_now h) (hd_now2 h) (hd_request h) (hd_store h))"

lemma requests_of_simps [simp]:
  "requests_of [] = []" "requests_of (CERequest r # es) = r # requests_of es"
  "requests_of (CEResponse w # es) = requests_of es" "requests_of (CEEmpty # es) = requests_of es"
  "requests_of (xs @ ys) = requests_of xs @ requests_of ys"
  by (simp_all add: requests_of_def List.map_filter_def)

text \<open>The requests that have left the client, the handled ones first.\<close>

definition sent_requests :: "conn_system \<Rightarrow> client_request list" where
  "sent_requests s = map hd_request (cs_handled s) @ requests_of (wc_outbound (cs_conn s))"

definition calls_ok :: "conn_system \<Rightarrow> bool" where
  "calls_ok s \<longleftrightarrow> (\<forall>k req. cs_calls s k = Some req \<longrightarrow> k < cs_next s \<and> cr_id req = call_id k) \<and>
     cs_unsent s \<subseteq> dom (cs_calls s)"

text \<open>
  The pending map \<open>P\<close>, the results \<open>D\<close> and the calls \<open>C\<close>: entries are calls under their own id, and a call
  without a result has its entry.
\<close>

definition waiting_ok :: "(i32 \<Rightarrow> caller option) \<Rightarrow> (caller \<Rightarrow> call_result option) \<Rightarrow> caller set \<Rightarrow> bool" where
  "waiting_ok P D C \<longleftrightarrow> (\<forall>i k. P i = Some k \<longrightarrow> call_id k = i \<and> k \<in> C) \<and>
     (\<forall>k \<in> C. D k \<noteq> None \<or> P (call_id k) = Some k) \<and> (\<forall>k. D k \<noteq> None \<longrightarrow> k \<in> C)"

definition pending_ok :: "conn_system \<Rightarrow> bool" where
  "pending_ok s \<longleftrightarrow> hm_wf (wc_pending (cs_conn s)) \<and>
     waiting_ok (hm_get (wc_pending (cs_conn s))) (hm_get (wc_done (cs_conn s))) (dom (cs_calls s))"

definition sent_ok :: "conn_system \<Rightarrow> bool" where
  "sent_ok s \<longleftrightarrow> distinct (sent_requests s) \<and>
     (\<forall>r \<in> set (sent_requests s). \<exists>k. cs_calls s k = Some r \<and> k \<notin> cs_unsent s)"

definition answers_ok :: "conn_system \<Rightarrow> bool" where
  "answers_ok s \<longleftrightarrow> (\<forall>r. CEResponse r \<in> set (cs_inbound s) \<longrightarrow> r \<in> answer_of ` set (cs_handled s)) \<and>
     (\<forall>k rec. hm_get (wc_done (cs_conn s)) k = Some (Inr rec) \<longrightarrow>
        (\<exists>h \<in> set (cs_handled s). cs_calls s k = Some (hd_request h) \<and> rec = response_record (answer_of h)))"

lemmas conn_inv_defs = calls_ok_def pending_ok_def sent_ok_def answers_ok_def


lemma calls_okD:
  "calls_ok s \<Longrightarrow> cs_calls s k = Some req \<Longrightarrow> k < cs_next s"
  "calls_ok s \<Longrightarrow> cs_calls s k = Some req \<Longrightarrow> cr_id req = call_id k"
  by (auto simp: calls_ok_def)

lemma pending_okD:
  "pending_ok s \<Longrightarrow> hm_get (wc_pending (cs_conn s)) i = Some k \<Longrightarrow> i = call_id k \<and> k \<in> dom (cs_calls s)"
  unfolding pending_ok_def waiting_ok_def by blast

lemma waiting_okI:
  assumes "\<And>i k. P i = Some k \<Longrightarrow> call_id k = i \<and> k \<in> C" and "\<And>k. k \<in> C \<Longrightarrow> D k = None \<Longrightarrow> P (call_id k) = Some k"
    and "\<And>k. D k \<noteq> None \<Longrightarrow> k \<in> C"
  shows "waiting_ok P D C"
  using assms unfolding waiting_ok_def by blast

lemma waiting_okD:
  assumes "waiting_ok P D C"
  shows "P i = Some k \<Longrightarrow> call_id k = i" and "P i = Some k \<Longrightarrow> k \<in> C"
    and "k \<in> C \<Longrightarrow> D k = None \<Longrightarrow> P (call_id k) = Some k" and "D k \<noteq> None \<Longrightarrow> k \<in> C"
  using assms unfolding waiting_ok_def by blast+

lemma waiting_ok_register:
  assumes w: "waiting_ok P D C" and "P (call_id k) = None"
  shows "waiting_ok (P(call_id k \<mapsto> k)) D (insert k C)"
proof (rule waiting_okI)
  fix j
  assume "j \<in> insert k C" "D j = None"
  then show "(P(call_id k \<mapsto> k)) (call_id j) = Some j"
    using waiting_okD(3) [OF w, of j] assms(2) by (cases "call_id j = call_id k") auto
qed (use waiting_okD(1,2,4) [OF w] in \<open>auto split: if_splits\<close>)

lemma waiting_ok_complete:
  assumes w: "waiting_ok P D C" and "i = call_id k" and "k \<in> C" and d: "D' k \<noteq> None" "\<And>j. j \<noteq> k \<Longrightarrow> D' j = D j"
    and u: "\<And>j. j \<in> C \<Longrightarrow> call_id j = i \<Longrightarrow> j = k"
  shows "waiting_ok (P(i := None)) D' C"
proof (rule waiting_okI)
  fix j
  assume "D' j \<noteq> None"
  then show "j \<in> C" using assms(3) d(2) [of j] waiting_okD(4) [OF w, of j] by (cases "j = k") auto
next
  fix j
  assume j: "j \<in> C" "D' j = None"
  then have "D j = None" and "call_id j \<noteq> i" using d u by (cases "j = k"; fastforce)+
  with waiting_okD(3) [OF w j(1)] show "(P(i := None)) (call_id j) = Some j" by simp
qed (use waiting_okD(1,2) [OF w] in \<open>auto split: if_splits\<close>)

lemma waiting_ok_drain:
  assumes w: "waiting_ok P D C" and d: "\<And>j. D' j = (if (\<exists>i. P i = Some j) \<and> D j = None then Some res else D j)"
  shows "waiting_ok Map.empty D' C"
proof (rule waiting_okI)
  fix j
  assume "j \<in> C" "D' j = None"
  then show "Map.empty (call_id j) = Some j" using waiting_okD(3) [OF w, of j] d [of j] by (auto split: if_splits)
next
  fix j
  assume "D' j \<noteq> None"
  then show "j \<in> C" using waiting_okD(2,4) [OF w] d [of j] by (auto split: if_splits)
qed simp

text \<open>A call that registers finds no other call under its id while fewer than \<open>2 ^ 32\<close> ids are taken.\<close>

lemma fresh_id:
  assumes "calls_ok s" "pending_ok s" and "cs_next s < 2 ^ 32"
  shows "hm_get (wc_pending (cs_conn s)) (call_id (cs_next s)) = None"
proof (rule ccontr)
  assume "\<not> ?thesis"
  then obtain k where k: "hm_get (wc_pending (cs_conn s)) (call_id (cs_next s)) = Some k" by auto
  then have "call_id (cs_next s) = call_id k" and "k < cs_next s"
    using pending_okD [OF assms(2) k] calls_okD(1) [OF assms(1)] by auto
  with call_id_inj [of "cs_next s" k] assms(3) show False by simp
qed

lemma calls_ok_step: "conn_step s s' \<Longrightarrow> calls_ok s \<Longrightarrow> calls_ok s'"
  by (induction rule: conn_step.induct) (auto simp: calls_ok_def less_Suc_eq)

lemma step_next: "conn_step s s' \<Longrightarrow> cs_next s \<le> cs_next s'"
  by (induction rule: conn_step.induct) auto

lemma answers_come_from_calls:
  assumes "calls_ok s" "pending_ok s" "sent_ok s" "answers_ok s" and "cs_next s \<le> 2 ^ 32"
    and "CEResponse r \<in> set (cs_inbound s)" and "hm_get (wc_pending (cs_conn s)) (wr_request_id r) = Some k"
  shows "\<exists>h \<in> set (cs_handled s). cs_calls s k = Some (hd_request h) \<and> r = answer_of h"
proof -
  obtain h where h: "h \<in> set (cs_handled s)" "r = answer_of h"
    using assms(4,6) by (auto simp: answers_ok_def)
  then have "hd_request h \<in> set (sent_requests s)" by (simp add: sent_requests_def)
  then obtain j where j: "cs_calls s j = Some (hd_request h)" using assms(3) by (auto simp: sent_ok_def)
  have "wr_request_id r = cr_id (hd_request h)" using h(2) by (simp add: answer_of_def response_id)
  with pending_okD [OF assms(2,7)] calls_okD [OF assms(1)] j
  have "call_id j = call_id k" "j < cs_next s" "k < cs_next s" by auto
  with assms(5) have "j = k" by (intro call_id_inj) auto
  with h j show ?thesis by blast
qed

lemma pending_ok_step:
  assumes "conn_step s s'" and "calls_ok s" "pending_ok s" and "cs_next s' \<le> 2 ^ 32"
  shows "pending_ok s'"
  using assms
proof (induction rule: conn_step.induct)
  case (call req s template)
  have "hm_get (wc_pending (cs_conn s)) (call_id (cs_next s)) = None"
    using call by (intro fresh_id) auto
  with call show ?case by (simp add: pending_ok_def register_done waiting_ok_register)
next
  case (send k s req)
  have id: "cr_id req = call_id k" using calls_okD(2) [OF send(3,2)] .
  have "k < cs_next s" using calls_okD(1) [OF send(3,2)] .
  then have u: "j = k" if "j \<in> dom (cs_calls s)" "call_id j = call_id k" for j
    using that send(5) calls_okD(1) [OF send(3)] by (intro call_id_inj) fastforce+
  from send(4) have w: "waiting_ok (hm_get (wc_pending (cs_conn s))) (hm_get (wc_done (cs_conn s))) (dom (cs_calls s))"
    by (simp add: pending_ok_def)
  have "waiting_ok ((hm_get (wc_pending (cs_conn s)))(call_id k := None))
      ((hm_get (wc_done (cs_conn s)))(k \<mapsto> Inl stream_closed_reason)) (dom (cs_calls s))"
    by (rule waiting_ok_complete [OF w refl]) (use send(2) u in auto)
  with send show ?case by (simp add: pending_ok_def conn_send_def id)
next
  case (read s e rest)
  then show ?case
  proof (cases e)
    case (CEResponse r)
    show ?thesis
    proof (cases "hm_get (wc_pending (cs_conn s)) (wr_request_id r)")
      case None
      with read CEResponse show ?thesis by (simp add: on_response_def pending_ok_def)
    next
      case (Some k)
      from pending_okD [OF read(4) this] have k: "wr_request_id r = call_id k" "k \<in> dom (cs_calls s)" by auto
      from read(4) have w: "waiting_ok (hm_get (wc_pending (cs_conn s))) (hm_get (wc_done (cs_conn s))) (dom (cs_calls s))"
        by (simp add: pending_ok_def)
      have u: "j = k" if "j \<in> dom (cs_calls s)" "call_id j = call_id k" for j
        using that k read(3,5) calls_okD(1) [OF read(3)] by (intro call_id_inj) fastforce+
      let ?c = "(cs_conn s)\<lparr>wc_pending := hm_remove (wr_request_id r) (wc_pending (cs_conn s))\<rparr>"
      have "waiting_ok ((hm_get (wc_pending (cs_conn s)))(wr_request_id r := None))
          (hm_get (wc_done (complete k (Inr (response_record r)) ?c))) (dom (cs_calls s))"
        by (rule waiting_ok_complete [OF w k]) (use k(1) u in \<open>auto split: if_splits\<close>)
      with read CEResponse Some show ?thesis
        by (simp add: on_response_def pending_ok_def)
    qed
  qed (simp_all add: pending_ok_def)
next
  case (stream_end s error)
  from stream_end(3) have w: "waiting_ok (hm_get (wc_pending (cs_conn s))) (hm_get (wc_done (cs_conn s))) (dom (cs_calls s))"
    and wf: "hm_wf (wc_pending (cs_conn s))" by (simp_all add: pending_ok_def)
  have "waiting_ok Map.empty (hm_get (wc_done (stream_ends error (cs_conn s)))) (dom (cs_calls s))"
    by (rule waiting_ok_drain [OF w]) (use wf in \<open>force simp: stream_ends_done hm_get_Some_set\<close>)
  then show ?case by (simp add: pending_ok_def)
qed (auto simp: pending_ok_def)

lemma sent_ok_step:
  assumes "conn_step s s'" and "calls_ok s" "sent_ok s" and "cs_next s' \<le> 2 ^ 32"
  shows "sent_ok s'"
  using assms
proof (induction rule: conn_step.induct)
  case (call req s template)
  then have "cs_next s \<notin> dom (cs_calls s)" by (auto dest: calls_okD(1))
  then have "\<exists>k. ((cs_calls s)(cs_next s \<mapsto> req)) k = Some r \<and> k \<notin> insert (cs_next s) (cs_unsent s)"
    if "\<exists>k. cs_calls s k = Some r \<and> k \<notin> cs_unsent s" for r
    using that by (metis domIff fun_upd_other insertE option.simps(3))
  with call show ?case unfolding sent_ok_def sent_requests_def by simp
next
  case (send k s req)
  have "req \<notin> set (sent_requests s)"
  proof
    assume "req \<in> set (sent_requests s)"
    then obtain j where "cs_calls s j = Some req" "j \<notin> cs_unsent s" using send by (auto simp: sent_ok_def)
    moreover from this send have "call_id j = call_id k" "j < cs_next s" "k < cs_next s"
      using calls_okD [OF send(3)] by (metis, metis, metis)
    then have "j = k" using send by (intro call_id_inj) auto
    ultimately show False using send(1) by blast
  qed
  with send show ?case by (auto simp: sent_ok_def sent_requests_def conn_send_def)
next
  case (serve s e rest now now' answer_sent store' answer)
  then show ?case by (cases e) (auto simp: sent_ok_def sent_requests_def)
next
  case (read s e rest)
  then show ?case by (cases e) (auto simp: sent_ok_def sent_requests_def)
qed (auto simp: sent_ok_def sent_requests_def)

lemma answers_ok_step:
  assumes "conn_step s s'" and "calls_ok s" "pending_ok s" "sent_ok s" "answers_ok s" and "cs_next s' \<le> 2 ^ 32"
  shows "answers_ok s'"
  using assms
proof (induction rule: conn_step.induct)
  case (call req s template)
  have "hm_get (wc_pending (cs_conn s)) (call_id (cs_next s)) = None"
    using call by (intro fresh_id) auto
  then have reg: "wc_done (conn_register (cs_next s) (call_id (cs_next s)) (cs_conn s)) = wc_done (cs_conn s)"
    by (rule register_done)
  have "cs_next s \<notin> dom (cs_calls s)" using call by (auto dest: calls_okD(1))
  then have "hm_get (wc_done (cs_conn s)) (cs_next s) = None"
    using call(3) waiting_okD(4) unfolding pending_ok_def by blast
  with call reg show ?case by (simp add: answers_ok_def)
next
  case (send k s req)
  then show ?case by (auto simp: answers_ok_def conn_send_def)
next
  case (serve s e rest now now' answer_sent store' answer)
  then show ?case
    by (cases e) (fastforce simp: answers_ok_def answer_of_def split: prod.splits if_splits)+
next
  case (read s e rest)
  show ?case
  proof (cases e)
    case (CEResponse r)
    then show ?thesis
      using read answers_come_from_calls [of s r]
      by (fastforce simp: answers_ok_def on_response_def split: option.split)
  qed (use read in \<open>auto simp: answers_ok_def\<close>)
next
  case (stream_end s error)
  then show ?case by (auto simp: answers_ok_def stream_ends_done)
qed (auto simp: answers_ok_def)

lemma conn_reachable_inv:
  assumes "conn_reachable st s" and "cs_next s \<le> 2 ^ 32"
  shows "calls_ok s \<and> pending_ok s \<and> sent_ok s \<and> answers_ok s"
  using assms
proof (induction rule: conn_reachable.induct)
  case start
  then show ?case by (simp add: conn_inv_defs waiting_ok_def conn_init_def conn_connect_def sent_requests_def)
next
  case (step s s')
  then have "cs_next s \<le> 2 ^ 32" using step_next [OF step(2)] by simp
  with step show ?case
    using calls_ok_step pending_ok_step sent_ok_step answers_ok_step by blast
qed


section \<open>Runs from a given state\<close>

text \<open>Calls and results stay; only the end of the stream ends the reader.\<close>

lemma conn_step_keeps:
  assumes "conn_step s s'" and "calls_ok s"
  shows "cs_calls s k = Some req \<Longrightarrow> cs_calls s' k = Some req"
    and "hm_get (wc_done (cs_conn s)) k \<noteq> None \<Longrightarrow> hm_get (wc_done (cs_conn s')) k \<noteq> None"
proof -
  show "cs_calls s' k = Some req" if "cs_calls s k = Some req"
    using assms that by (induction rule: conn_step.induct) (auto dest: calls_okD(1))
  have inbound: "hm_get (wc_done (on_inbound e c)) k \<noteq> None" if "hm_get (wc_done c) k \<noteq> None" for e c
    using that by (cases e) (auto simp: on_response_def split: option.split)
  show "hm_get (wc_done (cs_conn s')) k \<noteq> None" if "hm_get (wc_done (cs_conn s)) k \<noteq> None"
    using assms(1) that inbound
    by (induction rule: conn_step.induct)
       (auto simp: conn_register_def conn_send_def stream_ends_done Let_def split: option.split)
qed

lemma reading_simps [simp]:
  "wc_reading (on_inbound e c) = wc_reading c" "wc_reading (conn_register k i c) = wc_reading c"
  "wc_reading (conn_send k req c) = wc_reading c"
  by (cases e) (auto simp: on_response_def conn_register_def conn_send_def Let_def split: option.split)

lemma conn_step_reading:
  assumes "conn_step s s'" and "wc_reading (cs_conn s)" and "\<not> wc_reading (cs_conn s')"
  shows "\<exists>error. cs_conn s' = stream_ends error (cs_conn s)"
  using assms by (induction rule: conn_step.induct) auto

lemma conn_run_next: "conn_step\<^sup>*\<^sup>* s s' \<Longrightarrow> cs_next s \<le> cs_next s'"
  by (induction rule: rtranclp_induct) (auto dest: step_next intro: order.trans)

lemma conn_run_reachable: "conn_step\<^sup>*\<^sup>* s s' \<Longrightarrow> conn_reachable st s \<Longrightarrow> conn_reachable st s'"
  by (induction rule: rtranclp_induct) (blast intro: conn_reachable.step)+

lemma call_waits_or_done:
  assumes "conn_reachable st s" and "cs_next s \<le> 2 ^ 32" and "cs_calls s k = Some req"
  shows "hm_get (wc_done (cs_conn s)) k \<noteq> None \<or> hm_get (wc_pending (cs_conn s)) (cr_id req) = Some k"
  using conn_reachable_inv [OF assms(1,2)] assms(3) waiting_okD(3) [of _ _ "dom (cs_calls s)" k] calls_okD(2)
  by (metis domI pending_ok_def)

text \<open>A call that was registered while the reader ran has its result once the reader has ended.\<close>

lemma end_completes_call:
  assumes "conn_step\<^sup>*\<^sup>* s s'" and "conn_reachable st s" and "wc_reading (cs_conn s)"
    and "cs_calls s k = Some req" and "cs_next s' \<le> 2 ^ 32"
  shows "cs_calls s' k = Some req \<and> (\<not> wc_reading (cs_conn s') \<longrightarrow> hm_get (wc_done (cs_conn s')) k \<noteq> None)"
  using assms
proof (induction rule: rtranclp_induct)
  case (step t u)
  have next_t: "cs_next t \<le> 2 ^ 32" using step_next [OF step(2)] step.prems(4) by simp
  have t: "conn_reachable st t" by (rule conn_run_reachable [OF step(1) step.prems(1)])
  then have ok: "calls_ok t" using conn_reachable_inv [OF _ next_t] by blast
  from step next_t have IH: "cs_calls t k = Some req" "\<not> wc_reading (cs_conn t) \<longrightarrow> hm_get (wc_done (cs_conn t)) k \<noteq> None"
    by auto
  have "hm_get (wc_done (cs_conn u)) k \<noteq> None" if "\<not> wc_reading (cs_conn u)"
  proof (cases "wc_reading (cs_conn t)")
    case True
    from conn_step_reading [OF step(2) True that] obtain error where u: "cs_conn u = stream_ends error (cs_conn t)" by blast
    from call_waits_or_done [OF t next_t IH(1)] show ?thesis
      unfolding u by (auto simp: stream_ends_done dest!: map_of_SomeD intro: rev_image_eqI)
  next
    case False
    with IH(2) conn_step_keeps(2) [OF step(2) ok] show ?thesis by blast
  qed
  with conn_step_keeps(1) [OF step(2) ok IH(1)] show ?case by blast
qed simp

text \<open>
  After the end: the calls from number \<open>n\<close> on have no result, except those whose request did not go
  out.
\<close>

definition late_calls_wait :: "nat \<Rightarrow> conn_system \<Rightarrow> bool" where
  "late_calls_wait n s \<longleftrightarrow> \<not> wc_reading (cs_conn s) \<and>
     (\<forall>k req. n \<le> k \<longrightarrow> cs_calls s k = Some req \<longrightarrow> hm_get (wc_done (cs_conn s)) k \<noteq> None \<longrightarrow>
        k \<notin> cs_unsent s \<and> req \<notin> set (sent_requests s))"

lemma late_calls_wait_step:
  assumes "conn_step s s'" and "calls_ok s" "pending_ok s" "sent_ok s" and "cs_next s' \<le> 2 ^ 32" and "late_calls_wait n s"
  shows "late_calls_wait n s'"
  using assms
proof (induction rule: conn_step.induct)
  case (call req s template)
  have "hm_get (wc_pending (cs_conn s)) (call_id (cs_next s)) = None" using call by (intro fresh_id) auto
  then have reg: "wc_done (conn_register (cs_next s) (call_id (cs_next s)) (cs_conn s)) = wc_done (cs_conn s)"
    "wc_reading (conn_register (cs_next s) (call_id (cs_next s)) (cs_conn s)) = wc_reading (cs_conn s)"
    by (simp_all add: conn_register_def Let_def)
  have "cs_next s \<notin> dom (cs_calls s)" using call by (auto dest: calls_okD(1))
  then have "hm_get (wc_done (cs_conn s)) (cs_next s) = None"
    using call(3) waiting_okD(4) unfolding pending_ok_def by blast
  with call reg show ?case by (auto simp: late_calls_wait_def sent_requests_def)
next
  case (send k s req)
  have unique: "j = k" if "cs_calls s j = Some req" for j
  proof -
    have "call_id j = call_id k" "j < cs_next s" "k < cs_next s"
      using calls_okD [OF send(3)] that send(2) by (metis, metis, metis)
    then show ?thesis using send(6) by (intro call_id_inj) auto
  qed
  then have fresh: "req \<notin> set (sent_requests s)" using send(1,5) unfolding sent_ok_def by blast
  let ?s = "s\<lparr>cs_conn := conn_send k req (cs_conn s), cs_unsent := cs_unsent s - {k}\<rparr>"
  have sent: "set (sent_requests ?s) = (if wc_outbound_closed (cs_conn s) then {} else {req}) \<union> set (sent_requests s)"
    by (simp add: sent_requests_def conn_send_def)
  have dn: "hm_get (wc_done (cs_conn ?s)) j = (if wc_outbound_closed (cs_conn s) \<and> j = k
      then Some (Inl stream_closed_reason) else hm_get (wc_done (cs_conn s)) j)" for j
    by (simp add: conn_send_def)
  have "j \<notin> cs_unsent ?s \<and> r \<notin> set (sent_requests ?s)"
    if j: "n \<le> j" "cs_calls s j = Some r" "hm_get (wc_done (cs_conn ?s)) j \<noteq> None" for j r
  proof (cases "j = k")
    case True
    with j(2) send(2) have "r = req" by simp
    with True j send(1,7) fresh show ?thesis unfolding sent dn late_calls_wait_def by (auto split: if_splits)
  next
    case False
    with j send(7) have "j \<notin> cs_unsent s \<and> r \<notin> set (sent_requests s)" unfolding dn late_calls_wait_def by simp
    moreover have "r \<noteq> req" using unique j(2) False by blast
    ultimately show ?thesis unfolding sent by auto
  qed
  with send(7) show ?case unfolding late_calls_wait_def by simp
next
  case (serve s e rest now now' answer_sent store' answer)
  then have "sent_requests (s\<lparr>cs_conn := (cs_conn s)\<lparr>wc_outbound := rest\<rparr>, cs_store := store', cs_inbound := cs_inbound s @ answer,
      cs_handled := cs_handled s @ (case e of CERequest r \<Rightarrow> [\<lparr>hd_request = r, hd_now = now, hd_now2 = now', hd_store = cs_store s\<rparr>]
        | _ \<Rightarrow> [])\<rparr>) = sent_requests s"
    by (cases e) (auto simp: sent_requests_def)
  with serve show ?case by (simp add: late_calls_wait_def)
qed (auto simp: late_calls_wait_def sent_requests_def)

lemma late_calls_wait_run:
  assumes "conn_step\<^sup>*\<^sup>* s s'" and "conn_reachable st s" and "\<not> wc_reading (cs_conn s)" and "cs_next s' \<le> 2 ^ 32"
  shows "late_calls_wait (cs_next s) s'"
  using assms
proof (induction rule: rtranclp_induct)
  case base
  from conn_reachable_inv [OF base(1,3)] have "calls_ok s" by blast
  with base(2) show ?case by (auto simp: late_calls_wait_def dest: calls_okD(1))
next
  case (step t u)
  have next_t: "cs_next t \<le> 2 ^ 32" using step_next [OF step(2)] step.prems(3) by simp
  have "conn_reachable st t" by (rule conn_run_reachable [OF step(1) step.prems(1)])
  with conn_reachable_inv [OF _ next_t] step next_t show ?case by (blast intro: late_calls_wait_step)
qed

section \<open>Properties\<close>

lemma filter_eq_distinct:
  "distinct (map f xs) \<Longrightarrow> x \<in> set xs \<Longrightarrow> filter (\<lambda>y. f y = f x) xs = [x]"
  by (induction xs) (auto simp: filter_empty_conv image_iff)

lemma filter_distinct_length: "distinct (map f xs) \<Longrightarrow> length (filter (\<lambda>y. f y = z) xs) \<le> 1"
  by (induction xs) (auto simp: filter_empty_conv image_iff)

text \<open>
  C5: Concurrent requests get their own answers. While a client has taken at most \<open>2 ^ 32\<close> request
  ids, a call that returns a response returns what the worker computed for that very request: the
  worker handled it exactly once, and the result is the outcome of this handling on the store of
  that moment, whatever other calls, other clients and the end of the stream did in between.
\<close>

theorem answers_belong_to_calls:
  assumes "conn_reachable st s" and "cs_next s \<le> 2 ^ 32"
    and "hm_get (wc_done (cs_conn s)) k = Some (Inr rec)"
  shows "\<exists>req h. cs_calls s k = Some req \<and> filter (\<lambda>h. hd_request h = req) (cs_handled s) = [h] \<and>
    rec = response_record (snd (handle_client_request (hd_now h) (hd_now2 h) req (hd_store h)))"
proof -
  note inv = conn_reachable_inv [OF assms(1,2)]
  then obtain h where h: "h \<in> set (cs_handled s)" "cs_calls s k = Some (hd_request h)"
    "rec = response_record (answer_of h)" using assms(3) unfolding answers_ok_def by blast
  from inv have "distinct (map hd_request (cs_handled s))" by (simp add: sent_ok_def sent_requests_def)
  from filter_eq_distinct [OF this h(1)] h(2,3) show ?thesis by (auto simp: answer_of_def)
qed

text \<open>Two calls at once, answered in the order of their sending, which is not the order of the calls.\<close>

definition demo_get :: "u64 \<Rightarrow> client_request" where
  "demo_get k = \<lparr>cr_id = 0, cr_request_type = REQUEST_GET, cr_key = k, cr_creation_time = None, cr_value = None,
     cr_ttl = None\<rparr>"

lemma demo_answer:
  "handle_client_request 5 5 ((demo_get 8)\<lparr>cr_id := 2\<rparr>) new_runtime_store =
   (new_runtime_store, \<lparr>wr_request_id = 2, wr_record = None, wr_deletion_time = None\<rparr>)"
  by code_simp

lemma reachable_serve:
  assumes "conn_reachable st s" and "wc_outbound (cs_conn s) \<noteq> []"
  shows "conn_reachable st (let e = hd (wc_outbound (cs_conn s)); r = serve_event now now' True e (cs_store s)
    in s\<lparr>cs_conn := (cs_conn s)\<lparr>wc_outbound := tl (wc_outbound (cs_conn s))\<rparr>, cs_store := fst r,
      cs_inbound := cs_inbound s @ snd r,
      cs_handled := cs_handled s @ (case e of
          CERequest q \<Rightarrow> [\<lparr>hd_request = q, hd_now = now, hd_now2 = now', hd_store = cs_store s\<rparr>]
        | _ \<Rightarrow> [])\<rparr>)"
  unfolding Let_def by (rule conn_reachable.step [OF assms(1)], rule conn_step.serve) (use assms(2) in auto)

lemma reachable_read:
  assumes "conn_reachable st s" and "wc_reading (cs_conn s)" and "cs_inbound s \<noteq> []"
  shows "conn_reachable st (s\<lparr>cs_conn := on_inbound (hd (cs_inbound s)) (cs_conn s), cs_inbound := tl (cs_inbound s)\<rparr>)"
  by (rule conn_reachable.step [OF assms(1)], rule conn_step.read) (use assms(2,3) in auto)

lemma demo_conn_run:
  "\<exists>s. conn_reachable new_runtime_store s \<and> cs_next s = 2 \<and> cs_calls s 0 = Some ((demo_get 7)\<lparr>cr_id := 1\<rparr>) \<and>
     hm_get (wc_done (cs_conn s)) 0 = None \<and> hm_get (wc_done (cs_conn s)) 1 = Some (Inr None) \<and>
     wc_reading (cs_conn s)"
proof -
  note defs = conn_init_def conn_connect_def conn_register_def call_id_def conn_send_def complete_def
    on_response_def response_record_def demo_answer Let_def
  have "conn_reachable new_runtime_store (conn_init new_runtime_store)" by (rule conn_reachable.start)
  note r1 = conn_reachable.step [OF this conn_step.call [where template = "demo_get 7", OF refl]]
  note r2 = conn_reachable.step [OF r1 conn_step.call [where template = "demo_get 8", OF refl], simplified defs, simplified]
  note r3 = conn_reachable.step [OF r2 conn_step.send [where k = 1], simplified defs, simplified]
  note r4 = reachable_serve [OF r3, where now = 5 and now' = 5, simplified defs, simplified]
  note r5 = reachable_read [OF r4]
  show ?thesis by (rule exI, rule conjI, rule r5) (simp_all only: demo_answer, simp_all add: defs)
qed

lemma answers_belong_to_calls_witness:
  "\<exists>s req h. conn_reachable new_runtime_store s \<and> cs_calls s 1 = Some req \<and>
     filter (\<lambda>h. hd_request h = req) (cs_handled s) = [h]"
proof -
  obtain s where s: "conn_reachable new_runtime_store s" "cs_next s = 2"
    "hm_get (wc_done (cs_conn s)) 1 = Some (Inr None)" using demo_conn_run by blast
  from answers_belong_to_calls [OF s(1) _ s(3)] s(1,2) show ?thesis by auto
qed

text \<open>
  C23: No call is lost or repeated while the stream lives. At every moment a call has its result or is
  still registered under its own id; a call registered while the reader runs has its result in every
  later state in which the reader has ended; and the worker handles no request twice, also when
  its answer was lost.
\<close>

theorem no_call_lost:
  assumes "conn_reachable st s" and "cs_calls s k = Some req" and "conn_step\<^sup>*\<^sup>* s s'" and "cs_next s' \<le> 2 ^ 32"
  shows "(hm_get (wc_done (cs_conn s)) k \<noteq> None \<or> hm_get (wc_pending (cs_conn s)) (cr_id req) = Some k) \<and>
    (wc_reading (cs_conn s) \<and> \<not> wc_reading (cs_conn s') \<longrightarrow> hm_get (wc_done (cs_conn s')) k \<noteq> None) \<and>
    length (filter (\<lambda>h. hd_request h = req) (cs_handled s')) \<le> 1"
proof -
  have "cs_next s \<le> 2 ^ 32" using conn_run_next [OF assms(3)] assms(4) by simp
  moreover from conn_reachable_inv [OF conn_run_reachable [OF assms(3,1)] assms(4)]
  have "distinct (map hd_request (cs_handled s'))" by (simp add: sent_ok_def sent_requests_def)
  then have "length (filter (\<lambda>h. hd_request h = req) (cs_handled s')) \<le> 1"
    by (rule filter_distinct_length)
  ultimately show ?thesis
    using call_waits_or_done [OF assms(1) _ assms(2)] end_completes_call [OF assms(3,1) _ assms(2,4)] by blast
qed

lemma no_call_lost_witness:
  "\<exists>s s'. conn_reachable new_runtime_store s \<and> hm_get (wc_pending (cs_conn s)) 1 = Some 0 \<and>
     conn_step\<^sup>*\<^sup>* s s' \<and> \<not> wc_reading (cs_conn s') \<and> hm_get (wc_done (cs_conn s')) 0 \<noteq> None"
proof -
  obtain s where s: "conn_reachable new_runtime_store s" "cs_next s = 2" "cs_calls s 0 = Some ((demo_get 7)\<lparr>cr_id := 1\<rparr>)"
    "hm_get (wc_done (cs_conn s)) 0 = None" "wc_reading (cs_conn s)" using demo_conn_run by blast
  let ?s' = "s\<lparr>cs_conn := stream_ends (Some ''reset'') (cs_conn s), cs_inbound := []\<rparr>"
  have run: "conn_step\<^sup>*\<^sup>* s ?s'" using stream_end [OF s(5), of "Some ''reset''"] by blast
  have "\<not> wc_reading (cs_conn ?s')" by (simp add: stream_ends_def)
  with no_call_lost [OF s(1,3) run] s(1,2,4,5) run show ?thesis
    by (intro exI [of _ s] exI [of _ ?s']) auto
qed

text \<open>
  C24: A call that comes after the end of the stream waits in vain. The reader task clears the pending
  map once, when it ends; the connection does not record the end, and a call made later registers
  and, as long as the outbound half is open, sends its request. Such a call stays registered and has no
  result in any later state: its caller waits until its own timeout, whether or not the worker handles
  the request.
\<close>

theorem late_call_waits:
  assumes "conn_reachable st s" and "\<not> wc_reading (cs_conn s)" and "conn_step\<^sup>*\<^sup>* s s'" and "cs_next s' \<le> 2 ^ 32"
    and "cs_next s \<le> k" and "cs_calls s' k = Some req" and "req \<in> set (sent_requests s')"
  shows "hm_get (wc_done (cs_conn s')) k = None \<and> hm_get (wc_pending (cs_conn s')) (cr_id req) = Some k"
  using late_calls_wait_run [OF assms(3,1,2,4)] call_waits_or_done [OF conn_run_reachable [OF assms(3,1)] assms(4,6)]
    assms(5-7) unfolding late_calls_wait_def by blast

lemma late_call_waits_witness:
  "\<exists>s. conn_reachable new_runtime_store s \<and> \<not> wc_reading (cs_conn s) \<and> cs_calls s 0 \<noteq> None \<and> cs_unsent s = {} \<and>
     hm_get (wc_done (cs_conn s)) 0 = None"
proof -
  note defs = conn_init_def conn_connect_def conn_register_def call_id_def conn_send_def Let_def stream_ends_def drain_def
  let ?s = "(conn_init new_runtime_store)\<lparr>cs_conn := stream_ends None (cs_conn (conn_init new_runtime_store)), cs_inbound := []\<rparr>"
  let ?req = "(demo_get 7)\<lparr>cr_id := call_id (cs_next ?s)\<rparr>"
  let ?t = "?s\<lparr>cs_conn := conn_register (cs_next ?s) (cr_id ?req) (cs_conn ?s), cs_next := cs_next ?s + 1,
      cs_calls := (cs_calls ?s)(cs_next ?s \<mapsto> ?req), cs_unsent := insert (cs_next ?s) (cs_unsent ?s)\<rparr>"
  let ?u = "?t\<lparr>cs_conn := conn_send 0 ?req (cs_conn ?t), cs_unsent := cs_unsent ?t - {0}\<rparr>"
  have "conn_step (conn_init new_runtime_store) ?s" by (rule stream_end) (simp add: defs)
  then have s: "conn_reachable new_runtime_store ?s" by (rule conn_reachable.step [OF conn_reachable.start])
  have one: "conn_step ?s ?t" by (rule call) simp
  have two: "conn_step ?t ?u" by (rule conn_step.send) (simp_all add: defs)
  from one two have run: "conn_step\<^sup>*\<^sup>* ?s ?u" by (meson converse_rtranclp_into_rtranclp r_into_rtranclp)
  have "hm_get (wc_done (cs_conn ?u)) 0 = None"
    using late_call_waits [OF s _ run, of 0 ?req] by (simp add: defs sent_requests_def)
  moreover have "\<not> wc_reading (cs_conn ?u)" "cs_calls ?u 0 \<noteq> None" "cs_unsent ?u = {}" by (simp_all add: defs)
  ultimately show ?thesis using conn_run_reachable [OF run s] by blast
qed

end
