(* ===== verification/Client_Streams.thy ===== *)
theory Client_Streams
  imports Client
begin

text \<open>
  How the client finds and follows the cluster (\<open>no-sql-store-client/src/lib.rs\<close>): \<open>connect_with_config\<close>,
  \<open>subscribe\<close>, \<open>ensure_connections\<close>, \<open>ensure_manager\<close> and the tasks of \<open>spawn_manager_stream\<close>.

  The transport to the managers is a parameter: what opening a channel to an endpoint and opening
  the client's stream there yield. The tasks take steps in any order (\<open>client_step\<close>); the handling of one
  update is one step.
\<close>

section \<open>Subscribing\<close>

datatype channel_outcome = ChannelInvalid string | ChannelTimeout | ChannelFailed string | ChannelOpen

text \<open>What the first read of a new stream yields within the timeout.\<close>

datatype first_message = FirstEvent "grpc_cluster_state option" | FirstEnd | FirstError string | FirstTimeout

record manager_api =
  ma_channel :: "string \<Rightarrow> channel_outcome"
  ma_open :: "string \<Rightarrow> string \<Rightarrow> string + first_message"

definition subscribe :: "manager_api \<Rightarrow> string \<Rightarrow> string \<Rightarrow> string + first_message" where
  "subscribe api e i =
     (case ma_channel api e of
        ChannelInvalid err \<Rightarrow> Inl err
      | ChannelTimeout \<Rightarrow> Inl ''connection timeout''
      | ChannelFailed err \<Rightarrow> Inl err
      | ChannelOpen \<Rightarrow> ma_open api e i)"

section \<open>Connecting\<close>

text \<open>One configured manager: its initial state, or the reason there is none.\<close>

definition bootstrap_attempt :: "manager_api \<Rightarrow> string \<Rightarrow> string \<Rightarrow> string + grpc_cluster_state" where
  "bootstrap_attempt api i a =
     (case subscribe api a i of
        Inl err \<Rightarrow> Inl err
      | Inr (FirstEvent (Some state)) \<Rightarrow> Inr state
      | Inr (FirstEvent None) \<Rightarrow> Inl ''stream closed before initial state''
      | Inr FirstEnd \<Rightarrow> Inl ''stream closed before initial state''
      | Inr (FirstError err) \<Rightarrow> Inl err
      | Inr FirstTimeout \<Rightarrow> Inl ''initial state timeout'')"

fun bootstrap :: "manager_api \<Rightarrow> string \<Rightarrow> string list \<Rightarrow> string list \<Rightarrow> string list + (string \<times> grpc_cluster_state)" where
  "bootstrap api i [] errors = Inl errors"
| "bootstrap api i (a # as) errors =
     (case bootstrap_attempt api i a of
        Inr state \<Rightarrow> Inr (a, state)
      | Inl reason \<Rightarrow> bootstrap api i as (errors @ [a @ '': '' @ reason]))"

fun join_errors :: "string list \<Rightarrow> string" where
  "join_errors [] = ''''"
| "join_errors [e] = e"
| "join_errors (e # es) = e @ ''; '' @ join_errors es"

text \<open>A manager that is not yet known gets a task, which starts with its subscription.\<close>

definition ensure_manager :: "string \<Rightarrow> inner \<Rightarrow> inner" where
  "ensure_manager e inn =
     (if e \<in> set (in_managers inn) then inn
      else inn\<lparr>in_managers := hs_insert e (in_managers inn),
               in_streams := hm_insert e Subscribing (in_streams inn)\<rparr>)"

definition ensure_connection ::
  "'w network \<Rightarrow> string \<times> topology_node \<Rightarrow> inner \<times> 'w \<Rightarrow> inner \<times> 'w" where
  "ensure_connection net = (\<lambda>(i, n) (inn, w).
     if tn_node_type n = NODE_TYPE_WORKER
     then (if i \<in> set (in_workers inn) then (inn, w)
           else case dial net (tn_endpoint n) w of
                  (w', None) \<Rightarrow> (inn\<lparr>in_workers := hs_insert i (in_workers inn)\<rparr>, w')
                | (w', Some _) \<Rightarrow> (inn, w'))
     else if tn_node_type n = NODE_TYPE_MANAGER
     then (ensure_manager (tn_endpoint n) inn, w)
     else (inn, w))"

definition ensure_connections :: "'w network \<Rightarrow> inner \<times> 'w \<Rightarrow> inner \<times> 'w" where
  "ensure_connections net = (\<lambda>(inn, w). fold (ensure_connection net) (t_nodes (in_state inn)) (inn, w))"

definition connect_with_config ::
  "'w network \<Rightarrow> manager_api \<Rightarrow> string list \<Rightarrow> client_config \<Rightarrow> string \<Rightarrow> 'w \<Rightarrow> client_error + inner \<times> 'w" where
  "connect_with_config net api manager_addresses config i w =
     (let addresses = map normalize_endpoint manager_addresses
      in if addresses = [] then Inl NoManagerAddress
         else case bootstrap api i addresses [] of
                Inl errors \<Rightarrow> Inl (ManagerUnavailable (join_errors errors))
              | Inr (address, state) \<Rightarrow>
                  Inr (ensure_connections net
                    (\<lparr>in_id = i, in_config = config, in_state = apply_state state default_topology, in_workers = [],
                      in_managers = [address], in_next_request_id = 1, in_streams = [(address, Listening)]\<rparr>, w)))"

definition client_connect ::
  "'w network \<Rightarrow> manager_api \<Rightarrow> string list \<Rightarrow> string \<Rightarrow> 'w \<Rightarrow> client_error + inner \<times> 'w" where
  "client_connect net api manager_addresses i w =
     connect_with_config net api manager_addresses default_client_config i w"

section \<open>Manager streams\<close>

text \<open>What happens to a task next: its subscription returns, its stream yields an event or ends.\<close>

datatype stream_input = SubscribeReturns bool | StreamEvent "grpc_cluster_state option" | StreamEnds

definition on_manager_state :: "'w network \<Rightarrow> grpc_cluster_state \<Rightarrow> inner \<times> 'w \<Rightarrow> inner \<times> 'w" where
  "on_manager_state net state = (\<lambda>(inn, w).
     ensure_connections net (inn\<lparr>in_state := apply_state state (in_state inn)\<rparr>, w))"

text \<open>
  A first subscription that fails gives the endpoint up until an update names it again; afterwards
  the task reconnects for ever.
\<close>

fun stream_task :: "'w network \<Rightarrow> string \<Rightarrow> stream_phase \<Rightarrow> stream_input \<Rightarrow> inner \<times> 'w \<Rightarrow> inner \<times> 'w" where
  "stream_task net e Subscribing (SubscribeReturns True) (inn, w) =
     (inn\<lparr>in_streams := hm_insert e Listening (in_streams inn)\<rparr>, w)"
| "stream_task net e Subscribing (SubscribeReturns False) (inn, w) =
     (inn\<lparr>in_managers := hs_remove e (in_managers inn), in_streams := hm_remove e (in_streams inn)\<rparr>, w)"
| "stream_task net e Listening (StreamEvent (Some state)) s = on_manager_state net state s"
| "stream_task net e Listening StreamEnds (inn, w) =
     (inn\<lparr>in_streams := hm_insert e Pausing (in_streams inn)\<rparr>, w)"
| "stream_task net e Pausing (SubscribeReturns True) (inn, w) =
     (inn\<lparr>in_streams := hm_insert e Listening (in_streams inn)\<rparr>, w)"
| "stream_task net e _ _ s = s"

text \<open>A step of the client: a task goes on, or the user calls an operation.\<close>

inductive client_step :: "'w network \<Rightarrow> inner \<times> 'w \<Rightarrow> inner \<times> 'w \<Rightarrow> bool" for net where
  task: "hm_get (in_streams inn) e = Some phase \<Longrightarrow>
    client_step net (inn, w) (stream_task net e phase input (inn, w))"
| get: "client_get net k s = (s', res) \<Longrightarrow> client_step net s s'"
| put: "client_put net (client_now_millis t) k v ttl s = (s', res) \<Longrightarrow> client_step net s s'"
| delete: "client_delete net (client_now_millis t) k s = (s', res) \<Longrightarrow> client_step net s s'"

inductive client_run :: "'w network \<Rightarrow> inner \<times> 'w \<Rightarrow> inner \<times> 'w \<Rightarrow> bool" for net s where
  here: "client_run net s s"
| onward: "client_run net s t \<Longrightarrow> client_step net t u \<Longrightarrow> client_run net s u"


section \<open>Requests leave topology and streams alone\<close>

definition same_view :: "inner \<Rightarrow> inner \<Rightarrow> bool" where
  "same_view a b \<longleftrightarrow> in_state b = in_state a \<and> in_managers b = in_managers a \<and> in_streams b = in_streams a"

lemma same_view_refl [simp]: "same_view a a"
  by (simp add: same_view_def)

lemma same_view_trans: "same_view a b \<Longrightarrow> same_view b c \<Longrightarrow> same_view a c"
  by (simp add: same_view_def)

lemma same_view_worker_connection:
  "worker_connection net i (inn, w) = ((inn', w'), e) \<Longrightarrow> same_view inn inn'"
  by (auto simp: worker_connection_def same_view_def split: if_splits option.splits prod.splits)

lemma same_view_attempt: "attempt net i req (inn, w) = ((inn', w'), res) \<Longrightarrow> same_view inn inn'"
  by (auto simp: attempt_def same_view_def split: if_splits option.splits prod.splits reply.splits
      dest!: same_view_worker_connection)

lemma same_view_retry: "retry_loop net i req n delay reason (inn, w) = ((inn', w'), res) \<Longrightarrow> same_view inn inn'"
proof (induction n arbitrary: delay reason inn w inn' w' res)
  case (Suc n)
  obtain inn1 w1 r where a: "attempt net i req (inn, w) = ((inn1, w1), r)" by (metis surj_pair)
  show ?case
  proof (cases r)
    case (Inl why)
    obtain inn2 w2 res2 where "retry_loop net i req n (duration_saturating_double delay) why (inn1, w1) = ((inn2, w2), res2)"
      by (metis surj_pair)
    with Suc.IH [OF this] Suc.prems a Inl show ?thesis
      by (auto split: prod.splits intro: same_view_trans [OF same_view_attempt])
  next
    case (Inr rec)
    with Suc.prems a show ?thesis by (auto intro: same_view_attempt)
  qed
qed simp

lemma same_view_request: "request_with_retry net i req (inn, w) = ((inn', w'), res) \<Longrightarrow> same_view inn inn'"
  by (auto simp: request_with_retry_def intro: same_view_retry)

lemma same_view_request_all: "request_all net req is (inn, w) = ((inn', w'), rs) \<Longrightarrow> same_view inn inn'"
proof (induction "is" arbitrary: inn w inn' w' rs)
  case (Cons i "is")
  obtain inn1 w1 r where a: "request_with_retry net i req (inn, w) = ((inn1, w1), r)" by (metis surj_pair)
  obtain inn2 w2 r2 where b: "request_all net req is (inn1, w1) = ((inn2, w2), r2)" by (metis surj_pair)
  from Cons.prems a b have "inn2 = inn'" by (auto split: prod.splits)
  with same_view_trans [OF same_view_request [OF a] Cons.IH [OF b]] show ?case by simp
qed simp

lemma same_view_write_all: "write_all net k req (inn, w) = ((inn', w'), res) \<Longrightarrow> same_view inn inn'"
  by (auto simp: write_all_def split: sum.splits prod.splits dest: same_view_request_all)

lemma same_view_operations:
  "client_put net clock k v ttl (inn, w) = ((inn', w'), res) \<Longrightarrow> same_view inn inn'"
  "client_delete net clock k (inn, w) = ((inn', w'), res') \<Longrightarrow> same_view inn inn'"
  "client_get net k (inn, w) = ((inn', w'), res'') \<Longrightarrow> same_view inn inn'"
  by (auto simp: client_put_def client_delete_def client_get_def split: option.splits sum.splits prod.splits if_splits
      dest: same_view_write_all same_view_request same_view_request_all intro: same_view_trans)


section \<open>Streams and topology along a run\<close>

definition streams_ok :: "inner \<Rightarrow> bool" where
  "streams_ok inn \<longleftrightarrow> distinct (in_managers inn) \<and> hm_wf (in_streams inn) \<and>
     (\<forall>e. e \<in> set (in_managers inn) \<longleftrightarrow> hm_get (in_streams inn) e \<noteq> None)"

text \<open>An endpoint whose first subscription has succeeded.\<close>

definition followed :: "inner \<Rightarrow> string \<Rightarrow> bool" where
  "followed inn e \<longleftrightarrow> hm_get (in_streams inn) e = Some Listening \<or> hm_get (in_streams inn) e = Some Pausing"

text \<open>The leader a topology names, if any, in the epoch it is in.\<close>

definition topology_leader :: "topology \<Rightarrow> string option" where
  "topology_leader t = (if t_leader_id t = '''' then None else Some (t_leader_id t))"

definition view_advances :: "inner \<Rightarrow> inner \<Rightarrow> bool" where
  "view_advances a b \<longleftrightarrow> t_epoch (in_state a) \<le> t_epoch (in_state b) \<and>
     (t_epoch (in_state b) = t_epoch (in_state a) \<longrightarrow>
        topology_leader (in_state a) = None \<or> topology_leader (in_state b) = topology_leader (in_state a))"

lemma streams_okD: "streams_ok inn \<Longrightarrow> e \<in> set (in_managers inn) \<longleftrightarrow> hm_get (in_streams inn) e \<noteq> None"
  by (simp add: streams_ok_def)

lemma streams_ok_cong:
  "in_managers b = in_managers a \<Longrightarrow> in_streams b = in_streams a \<Longrightarrow> streams_ok b = streams_ok a"
  "in_streams b = in_streams a \<Longrightarrow> followed b e = followed a e"
  by (simp_all add: streams_ok_def followed_def)

lemma streams_ok_update [simp]:
  "streams_ok (inn\<lparr>in_workers := x\<rparr>) = streams_ok inn" "streams_ok (inn\<lparr>in_state := y\<rparr>) = streams_ok inn"
  "followed (inn\<lparr>in_workers := x\<rparr>) e = followed inn e" "followed (inn\<lparr>in_state := y\<rparr>) e = followed inn e"
  by (simp_all add: streams_ok_def followed_def)

lemma ensure_manager_ok: "streams_ok inn \<Longrightarrow> streams_ok (ensure_manager e inn)"
  by (auto simp: ensure_manager_def streams_ok_def simp del: map_of_eq_Some_iff)

lemma ensure_manager_view [simp]: "in_state (ensure_manager e inn) = in_state inn"
  by (simp add: ensure_manager_def)

lemma ensure_manager_followed: "streams_ok inn \<Longrightarrow> followed inn a \<Longrightarrow> followed (ensure_manager e inn) a"
  using streams_okD [of inn e] by (auto simp: ensure_manager_def followed_def)

lemma ensure_connection_keeps:
  assumes "ensure_connection net n (inn, w) = (inn', w')" and "streams_ok inn"
  shows "streams_ok inn' \<and> in_state inn' = in_state inn \<and> (\<forall>a. followed inn a \<longrightarrow> followed inn' a)"
  using assms
  by (cases n) (auto simp: ensure_connection_def ensure_manager_ok ensure_manager_followed split: if_splits prod.splits option.splits)

lemma ensure_connections_keeps:
  assumes "ensure_connections net (inn, w) = (inn', w')" and "streams_ok inn"
  shows "streams_ok inn' \<and> in_state inn' = in_state inn \<and> (\<forall>a. followed inn a \<longrightarrow> followed inn' a)"
proof -
  have "streams_ok inn' \<and> in_state inn' = in_state inn \<and> (\<forall>a. followed inn a \<longrightarrow> followed inn' a)"
    if "fold (ensure_connection net) ns (inn, w) = (inn', w')" "streams_ok inn" for ns inn w
    using that
  proof (induction ns arbitrary: inn w)
    case (Cons n ns)
    obtain inn1 w1 where one: "ensure_connection net n (inn, w) = (inn1, w1)" by (metis surj_pair)
    with Cons.prems Cons.IH [of inn1 w1] ensure_connection_keeps [OF one] show ?case by auto
  qed simp
  with assms show ?thesis by (simp add: ensure_connections_def)
qed

lemma stream_task_keeps:
  assumes "stream_task net e phase input (inn, w) = (inn', w')" and "hm_get (in_streams inn) e = Some phase"
    and "streams_ok inn"
  shows "streams_ok inn' \<and> (\<forall>a. followed inn a \<longrightarrow> followed inn' a) \<and>
    (in_state inn' = in_state inn \<or> (\<exists>state. in_state inn' = apply_state state (in_state inn)))"
proof -
  have e: "e \<in> set (in_managers inn)"
    using assms(2) streams_okD [OF assms(3)] by simp
  show ?thesis
    using assms(1)
  proof (cases rule: stream_task.cases [of "(net, e, phase, input, (inn, w))"])
    case (3 net' e' state s)
    then have "ensure_connections net (inn\<lparr>in_state := apply_state state (in_state inn)\<rparr>, w) = (inn', w')"
      using assms(1) by (auto simp: on_manager_state_def)
    from ensure_connections_keeps [OF this] assms(3) show ?thesis by auto
  qed (use assms e streams_okD [OF assms(3)] in
      \<open>auto simp: streams_ok_def followed_def simp del: map_of_eq_Some_iff split: if_splits\<close>)
qed

lemma client_step_keeps:
  assumes "client_step net (inn, w) (inn', w')" and "streams_ok inn"
  shows "streams_ok inn' \<and> (\<forall>a. followed inn a \<longrightarrow> followed inn' a) \<and>
    (in_state inn' = in_state inn \<or> (\<exists>state. in_state inn' = apply_state state (in_state inn)))"
  using assms
proof cases
  case (task e phase input)
  with stream_task_keeps assms(2) show ?thesis by metis
qed (use assms(2) in \<open>auto dest!: same_view_operations simp: same_view_def streams_ok_cong [of inn inn']\<close>)


lemma apply_state_advances: "view_advances a (a\<lparr>in_state := apply_state state (in_state a)\<rparr>)"
  by (auto simp: view_advances_def topology_leader_def apply_state_def Let_def not_less split: option.split)

lemma view_advances_cong: "in_state b = in_state c \<Longrightarrow> view_advances a b = view_advances a c"
  by (simp add: view_advances_def)

text \<open>One step of the client from a state its streams can be in.\<close>

definition client_moves :: "'w network \<Rightarrow> inner \<times> 'w \<Rightarrow> inner \<times> 'w \<Rightarrow> bool" where
  "client_moves net s t \<longleftrightarrow> streams_ok (fst s) \<and> client_step net s t"

lemma client_moves_keeps:
  assumes "client_moves net s t"
  shows "streams_ok (fst t)" and "\<And>a. followed (fst s) a \<Longrightarrow> followed (fst t) a"
    and "view_advances (fst s) (fst t)"
proof -
  have st: "client_step net (fst s, snd s) (fst t, snd t)" "streams_ok (fst s)"
    using assms by (simp_all add: client_moves_def)
  note keeps = client_step_keeps [OF this]
  then show "streams_ok (fst t)" and "\<And>a. followed (fst s) a \<Longrightarrow> followed (fst t) a" by auto
  show "view_advances (fst s) (fst t)"
  proof (cases "in_state (fst t) = in_state (fst s)")
    case True
    then show ?thesis by (simp add: view_advances_def)
  next
    case False
    with keeps obtain state where "in_state (fst t) = apply_state state (in_state (fst s))" by auto
    then show ?thesis
      using apply_state_advances [of "fst s" state]
      by (simp add: view_advances_cong [of "fst t" "(fst s)\<lparr>in_state := apply_state state (in_state (fst s))\<rparr>"])
  qed
qed

interpretation cl: leader_keeper "\<lambda>s. unat (t_epoch (in_state (fst s)))"
  "\<lambda>s. topology_leader (in_state (fst s))" "client_moves net" for net :: "'w network"
proof
  show "unat (t_epoch (in_state (fst s))) \<le> unat (t_epoch (in_state (fst t)))" if "client_moves net s t"
    for s t :: "inner \<times> 'w"
    using client_moves_keeps(3) [OF that] by (simp add: view_advances_def word_le_nat_alt)
  show "topology_leader (in_state (fst t)) = Some l"
    if "client_moves net s t" "unat (t_epoch (in_state (fst t))) = unat (t_epoch (in_state (fst s)))"
      "topology_leader (in_state (fst s)) = Some l" for s t :: "inner \<times> 'w" and l
    using client_moves_keeps(3) [OF that(1)] that(2,3) by (simp add: view_advances_def word_unat_eq_iff)
qed

lemma client_run_moves:
  assumes "client_run net s t" and "streams_ok (fst s)"
  shows "(client_moves net)\<^sup>*\<^sup>* s t \<and> streams_ok (fst t)"
  using assms
proof (induction rule: client_run.induct)
  case (onward t u)
  then have "client_moves net t u" by (simp add: client_moves_def)
  with onward client_moves_keeps(1) show ?case by (metis rtranclp.rtrancl_into_rtrancl)
qed simp

lemma run_followed: "(client_moves net)\<^sup>*\<^sup>* s t \<Longrightarrow> followed (fst s) a \<Longrightarrow> followed (fst t) a"
  by (induction rule: rtranclp_induct) (auto dest: client_moves_keeps(2))

lemma bootstrap_result:
  "bootstrap api i as errors =
     (case List.find (\<lambda>a. \<exists>st. bootstrap_attempt api i a = Inr st) as of
        None \<Rightarrow> Inl (errors @ map (\<lambda>a. a @ '': '' @ projl (bootstrap_attempt api i a)) as)
      | Some a \<Rightarrow> Inr (a, projr (bootstrap_attempt api i a)))"
  by (induction as arbitrary: errors) (auto split: sum.splits option.splits)

lemma connect_ok:
  assumes "connect_with_config net api addresses config i w = Inr (inn, v)"
  shows "streams_ok inn \<and> (\<exists>a \<in> set addresses. followed inn (normalize_endpoint a))"
proof -
  let ?as = "map normalize_endpoint addresses"
  obtain a state where b: "bootstrap api i ?as [] = Inr (a, state)"
    and e: "ensure_connections net (\<lparr>in_id = i, in_config = config, in_state = apply_state state default_topology,
      in_workers = [], in_managers = [a], in_next_request_id = 1, in_streams = [(a, Listening)]\<rparr>, w) = (inn, v)"
    using assms by (auto simp: connect_with_config_def Let_def split: if_splits sum.splits prod.splits)
  have "a \<in> set ?as"
    using b by (auto simp: bootstrap_result find_Some_iff split: option.splits)
  moreover have "streams_ok inn \<and> followed inn a"
  proof -
    have "streams_ok \<lparr>in_id = i, in_config = config, in_state = apply_state state default_topology, in_workers = [],
        in_managers = [a], in_next_request_id = 1, in_streams = [(a, Listening)]\<rparr>"
      and "followed \<lparr>in_id = i, in_config = config, in_state = apply_state state default_topology, in_workers = [],
        in_managers = [a], in_next_request_id = 1, in_streams = [(a, Listening)]\<rparr> a"
      by (simp_all add: streams_ok_def followed_def)
    then show ?thesis using ensure_connections_keeps [OF e] by blast
  qed
  ultimately show ?thesis by auto
qed


section \<open>Properties\<close>

definition demo_api :: manager_api where
  "demo_api = \<lparr>ma_channel = (\<lambda>e. if e = ''http://a'' then ChannelTimeout else ChannelOpen),
     ma_open = (\<lambda>_ _. Inr (FirstEvent (Some \<lparr>gc_epoch = 3, gc_leader_id = ''m'', gc_nodes = [], gc_partitions = None\<rparr>)))\<rparr>"

definition demo_connected :: inner where
  "demo_connected = \<lparr>in_id = ''c'', in_config = default_client_config,
     in_state = default_topology\<lparr>t_epoch := 3, t_leader_id := ''m''\<rparr>, in_workers = [], in_managers = [''http://b''],
     in_next_request_id = 1, in_streams = [(''http://b'', Listening)]\<rparr>"

lemma demo_connect:
  "connect_with_config dead_network demo_api [''a'', ''b''] default_client_config ''c'' () = Inr (demo_connected, ())"
  by code_simp

text \<open>The stream of the demo client ends.\<close>

lemma demo_paused:
  "client_run dead_network (demo_connected, ()) (demo_connected\<lparr>in_streams := [(''http://b'', Pausing)]\<rparr>, ())"
proof -
  have "client_step dead_network (demo_connected, ()) (stream_task dead_network ''http://b'' Listening StreamEnds (demo_connected, ()))"
    by (rule client_step.task) (simp add: demo_connected_def)
  then have "client_run dead_network (demo_connected, ()) (stream_task dead_network ''http://b'' Listening StreamEnds (demo_connected, ()))"
    by (rule client_run.onward [OF client_run.here])
  then show ?thesis by (simp add: demo_connected_def)
qed

text \<open>
  C17: A client follows its managers for ever. From a successful \<open>connect\<close> on, whatever the streams
  deliver and whatever the user calls, there is exactly one task for each manager endpoint the
  client knows, an endpoint that was once subscribed is never given up, among them the one the client
  was connected through, and so the client can always learn of a later state.
\<close>

theorem client_follows_managers:
  assumes "connect_with_config net api addresses config i w = Inr s0"
    and "client_run net s0 (inn, v)" and "client_run net (inn, v) (inn', v')"
  shows "distinct (hm_keys (in_streams inn)) \<and>
    (\<forall>e. e \<in> set (in_managers inn) \<longleftrightarrow> hm_get (in_streams inn) e \<noteq> None) \<and>
    (\<forall>e. followed inn e \<longrightarrow> followed inn' e) \<and>
    (\<exists>a \<in> set addresses. followed inn (normalize_endpoint a))"
proof -
  obtain inn0 v0 where s0: "s0 = (inn0, v0)" by (cases s0)
  obtain a where ok: "streams_ok inn0" and a: "a \<in> set addresses" "followed inn0 (normalize_endpoint a)"
    using connect_ok [OF assms(1) [unfolded s0]] by blast
  from client_run_moves [OF assms(2)] ok have run: "(client_moves net)\<^sup>*\<^sup>* s0 (inn, v)" "streams_ok inn"
    by (simp_all add: s0)
  with client_run_moves [OF assms(3)] have "(client_moves net)\<^sup>*\<^sup>* (inn, v) (inn', v')" by simp
  with run_followed [of net "(inn, v)" "(inn', v')"] have "\<forall>e. followed inn e \<longrightarrow> followed inn' e" by simp
  moreover have "followed inn (normalize_endpoint a)" using run_followed [OF run(1)] a(2) by (simp add: s0)
  ultimately show ?thesis using run(2) a(1) unfolding streams_ok_def by blast
qed

lemma client_follows_managers_witness: "followed (demo_connected\<lparr>in_streams := [(''http://b'', Pausing)]\<rparr>) ''http://b''"
proof -
  have "\<forall>e. followed demo_connected e \<longrightarrow> followed (demo_connected\<lparr>in_streams := [(''http://b'', Pausing)]\<rparr>) e"
    using client_follows_managers [OF demo_connect client_run.here demo_paused] by blast
  moreover have "followed demo_connected ''http://b''" by (simp add: followed_def demo_connected_def)
  ultimately show ?thesis by blast
qed

text \<open>
  C38: The topology of a client never goes back. Along every run of a connected client the epoch does
  not decrease, and while it stays the same the leader, once known, stays the same.
\<close>

theorem client_topology_advances:
  assumes "connect_with_config net api addresses config i w = Inr s0"
    and "client_run net s0 s" and "client_run net s t"
  shows "t_epoch (in_state (fst s)) \<le> t_epoch (in_state (fst t)) \<and>
    (t_epoch (in_state (fst t)) = t_epoch (in_state (fst s)) \<longrightarrow> t_leader_id (in_state (fst s)) \<noteq> '''' \<longrightarrow>
      t_leader_id (in_state (fst t)) = t_leader_id (in_state (fst s)))"
proof -
  have "streams_ok (fst s0)" using connect_ok [of net api addresses config i w "fst s0" "snd s0"] assms(1) by simp
  from client_run_moves [OF assms(2) this] client_run_moves [OF assms(3)]
  have run: "(client_moves net)\<^sup>*\<^sup>* s t" by simp
  from cl.run_age [OF run] cl.run_leader [OF run, of "t_leader_id (in_state (fst s))"] show ?thesis
    by (auto simp: word_le_nat_alt topology_leader_def split: if_splits)
qed

lemma client_topology_advances_witness:
  "t_leader_id (in_state (demo_connected\<lparr>in_streams := [(''http://b'', Pausing)]\<rparr>)) = ''m''"
  using client_topology_advances [OF demo_connect client_run.here demo_paused] by (simp add: demo_connected_def)

text \<open>
  Connecting tries the managers in order. Without addresses it fails at once; otherwise the first
  manager that yields an initial state is used, and only when none does it fails, with the reason of
  each manager in the message.
\<close>

theorem connect_tries_in_order:
  "connect_with_config net api [] config i w = Inl NoManagerAddress \<and>
   (addresses \<noteq> [] \<longrightarrow>
     (case List.find (\<lambda>a. \<exists>st. bootstrap_attempt api i a = Inr st) (map normalize_endpoint addresses) of
        None \<Rightarrow> connect_with_config net api addresses config i w =
          Inl (ManagerUnavailable (join_errors (map (\<lambda>a. a @ '': '' @ projl (bootstrap_attempt api i a))
            (map normalize_endpoint addresses))))
      | Some a \<Rightarrow> \<exists>inn v. connect_with_config net api addresses config i w = Inr (inn, v) \<and> followed inn a \<and>
          in_state inn = apply_state (projr (bootstrap_attempt api i a)) default_topology))"
proof (intro conjI impI)
  show "connect_with_config net api [] config i w = Inl NoManagerAddress" by (simp add: connect_with_config_def)
next
  assume ne: "addresses \<noteq> []"
  let ?found = "List.find (\<lambda>a. \<exists>st. bootstrap_attempt api i a = Inr st) (map normalize_endpoint addresses)"
  show "case ?found of
        None \<Rightarrow> connect_with_config net api addresses config i w =
          Inl (ManagerUnavailable (join_errors (map (\<lambda>a. a @ '': '' @ projl (bootstrap_attempt api i a))
            (map normalize_endpoint addresses))))
      | Some a \<Rightarrow> \<exists>inn v. connect_with_config net api addresses config i w = Inr (inn, v) \<and> followed inn a \<and>
          in_state inn = apply_state (projr (bootstrap_attempt api i a)) default_topology"
  proof (cases ?found)
    case None
    with ne show ?thesis by (simp add: connect_with_config_def bootstrap_result)
  next
    case (Some a)
    let ?start = "\<lparr>in_id = i, in_config = config,
      in_state = apply_state (projr (bootstrap_attempt api i a)) default_topology, in_workers = [], in_managers = [a],
      in_next_request_id = 1, in_streams = [(a, Listening)]\<rparr>"
    obtain inn v where e: "ensure_connections net (?start, w) = (inn, v)" by (metis surj_pair)
    have "streams_ok ?start" "followed ?start a" by (simp_all add: streams_ok_def followed_def)
    with ensure_connections_keeps [OF e] have "followed inn a" "in_state inn = in_state ?start" by auto
    moreover have "connect_with_config net api addresses config i w = Inr (inn, v)"
      using Some ne e by (simp add: connect_with_config_def bootstrap_result)
    ultimately show ?thesis using Some by auto
  qed
qed

lemma connect_tries_in_order_witness:
  "\<exists>inn v. connect_with_config dead_network demo_api [''a'', ''b''] default_client_config ''c'' () = Inr (inn, v) \<and>
     followed inn ''http://b''"
proof -
  have "List.find (\<lambda>a. \<exists>st. bootstrap_attempt demo_api ''c'' a = Inr st) (map normalize_endpoint [''a'', ''b'']) = Some ''http://b''"
    by (simp add: normalize_endpoint_def starts_with_def bootstrap_attempt_def subscribe_def demo_api_def)
  with connect_tries_in_order [of dead_network demo_api default_client_config "''c''" "()" "[''a'', ''b'']"]
  show ?thesis by auto
qed

end
