(* ===== verification/Manager_Overflow.thy ===== *)
theory Manager_Overflow
  imports Manager_Service
begin

text \<open>
  The sums of a manager's tick in a build with overflow checks. The service adds to times and epochs
  that other nodes sent it (\<open>heartbeat.rs\<close>, \<open>election.rs\<close>). A release build wraps, which is what
  \<open>heartbeats\<close> and \<open>start_election_if_needed\<close> say; a debug build, the one \<open>cargo run\<close> makes, panics instead.
  \<open>checked_tick\<close> and \<open>checked_process\<close> are the two entry points in such a build: \<^const>\<open>None\<close> where a sum
  overflows, otherwise as in the other build.
\<close>

section \<open>Overflow\<close>

definition add_overflows :: "u64 \<Rightarrow> u64 \<Rightarrow> bool" where
  "add_overflows a b \<longleftrightarrow> a + b < a"

lemma add_overflows_nat: "add_overflows a b \<longleftrightarrow> 2 ^ 64 \<le> unat a + unat b"
  using no_olen_add_nat [of a b] by (auto simp: add_overflows_def not_le word_less_nat_alt [symmetric])

text \<open>The two sums of \<open>heartbeats\<close>: the own time, and the leader's where one is known.\<close>

definition heartbeats_overflows :: "me \<Rightarrow> u64 \<Rightarrow> mstate \<Rightarrow> bool" where
  "heartbeats_overflows me rnd st =
     (case hm_get (m_nodes st) (me_id me) of
        None \<Rightarrow> False
      | Some n \<Rightarrow> n_node_type n = Manager \<and>
          (add_overflows (n_last_heartbeat n) HEARTBEAT_INTERVAL_MS \<or>
           (case m_elected_leader_id st of
              None \<Rightarrow> False
            | Some l \<Rightarrow> l \<noteq> me_id me \<and>
                (case hm_get (m_nodes st) l of
                   None \<Rightarrow> False
                 | Some ln \<Rightarrow> n_node_type ln = Manager \<and> add_overflows (n_last_heartbeat ln) rnd))))"

text \<open>The sums of \<open>start_election_if_needed\<close>: the timeout of the last election, then the next epoch.\<close>

definition start_election_overflows :: "u64 \<Rightarrow> u64 \<Rightarrow> mstate \<Rightarrow> elections \<Rightarrow> bool" where
  "start_election_overflows curr_ts rnd st els =
     (case m_epoch st of
        None \<Rightarrow> False
      | Some epoch \<Rightarrow> m_elected_leader_id st = None \<and> length (m_nodes st) > 1 \<and>
          (case last_election els of
             None \<Rightarrow> add_overflows epoch 1
           | Some (last_epoch, e) \<Rightarrow> add_overflows (election_ts e) rnd \<or>
               election_ts e + rnd < curr_ts \<and> (add_overflows last_epoch 1 \<or> add_overflows epoch 1)))"

definition tick_overflows :: "readings \<Rightarrow> mservice \<Rightarrow> bool" where
  "tick_overflows rd svc =
     (case ms_state svc of
        None \<Rightarrow> False
      | Some st \<Rightarrow> heartbeats_overflows (ms_me svc) (hb_rnd rd) st \<or>
          start_election_overflows (el_now rd) (el_rnd rd)
            (fst (heartbeats (ms_me svc) (hb_now rd) (hb_rnd rd) st)) (ms_elections svc))"

definition checked_tick :: "config \<Rightarrow> readings \<Rightarrow> mservice \<Rightarrow> (mservice \<times> manager_protocol list) option" where
  "checked_tick config rd svc = (if tick_overflows rd svc then None else tick config rd svc)"

definition checked_process ::
  "config \<Rightarrow> readings \<Rightarrow> manager_protocol \<Rightarrow> mservice \<Rightarrow> (mservice \<times> manager_protocol list) option" where
  "checked_process config rd msg svc =
     (let (svc1, out1) =
        (case ms_state svc of
           None \<Rightarrow> (svc, [])
         | Some st \<Rightarrow>
             (let (st', els, out) = dispatch (ms_me svc) rd msg st (ms_elections svc)
              in (svc\<lparr>ms_state := Some st', ms_elections := els\<rparr>, out)))
      in case checked_tick config rd svc1 of
           None \<Rightarrow> None
         | Some (svc2, out2) \<Rightarrow> Some (svc2, out1 @ out2))"

section \<open>When no sum overflows\<close>

text \<open>
  Times a second or more below the largest \<open>u64\<close>, and epochs below the largest: the next
  half a billion years.
\<close>

definition low_time :: "u64 \<Rightarrow> bool" where
  "low_time t \<longleftrightarrow> unat t + 1000 \<le> 2 ^ 64"

definition low_epoch :: "u64 \<Rightarrow> bool" where
  "low_epoch e \<longleftrightarrow> unat e + 1 < 2 ^ 64"

definition low_nodes :: "(node_id, node) hash_map \<Rightarrow> bool" where
  "low_nodes nodes \<longleftrightarrow> list_all (\<lambda>(_, n). low_time (n_last_heartbeat n)) nodes"

definition low_state :: "mstate \<Rightarrow> bool" where
  "low_state st \<longleftrightarrow> low_nodes (m_nodes st) \<and> pred_option low_epoch (m_epoch st)"

definition low_elections :: "elections \<Rightarrow> bool" where
  "low_elections els \<longleftrightarrow> list_all (\<lambda>(e, el). low_epoch e \<and> low_time (election_ts el)) els"

definition low_service :: "mservice \<Rightarrow> bool" where
  "low_service svc \<longleftrightarrow> pred_option low_state (ms_state svc) \<and> low_elections (ms_elections svc)"

fun low_message :: "manager_protocol \<Rightarrow> bool" where
  "low_message (MHeartbeat _ hb) = low_time (hb_ts hb)"
| "low_message (MClusterState _ cs) = (low_epoch (cs_epoch cs) \<and> list_all (\<lambda>c. low_time (cn_last_heartbeat c)) (cs_nodes cs))"
| "low_message (MVoteRequest _ epoch ts) = (low_epoch epoch \<and> low_time ts)"
| "low_message (MLeader _ epoch ts) = (low_epoch epoch \<and> low_time ts)"
| "low_message _ = True"

text \<open>The clock and the random generator.\<close>

definition low_readings :: "readings \<Rightarrow> bool" where
  "low_readings rd \<longleftrightarrow> random_number (hb_rnd rd) \<and> random_number (el_rnd rd) \<and> low_time (conn_now rd)"

lemma low_time_sum:
  assumes "low_time t" and "random_number r \<or> r = HEARTBEAT_INTERVAL_MS"
  shows "\<not> add_overflows t r"
proof -
  have "r < 1000"
    using assms(2) by (auto simp: random_number_def RANDOMIZED_ELECTION_TIMEOUT_INTERVAL_def HEARTBEAT_INTERVAL_MS_def)
  then have "unat r < unat (1000 :: u64)" by (simp only: word_less_nat_alt)
  with assms(1) show ?thesis by (simp add: add_overflows_nat low_time_def)
qed

lemma low_epoch_sum: "low_epoch e \<Longrightarrow> \<not> add_overflows e 1"
  by (simp add: low_epoch_def add_overflows_nat)

lemma low_nodes_get: "low_nodes nodes \<Longrightarrow> hm_get nodes i = Some n \<Longrightarrow> low_time (n_last_heartbeat n)"
  by (auto simp: low_nodes_def list_all_iff dest: map_of_SomeD)

lemma last_election_low:
  assumes "low_elections els" and "last_election els = Some (e, el)"
  shows "low_epoch e \<and> low_time (election_ts el)"
proof -
  have "(e, el) \<in> set els" using assms(2) by (metis last_election_def last_in_set option.distinct(1) option.inject)
  with assms(1) show ?thesis by (auto simp: low_elections_def list_all_iff)
qed

lemma start_election_low:
  assumes "pred_option low_epoch (m_epoch st)" and "low_elections els" and "random_number rnd"
  shows "\<not> start_election_overflows curr_ts rnd st els"
  using assms(1,3) last_election_low [OF assms(2)]
  by (auto simp: start_election_overflows_def low_time_sum low_epoch_sum split: option.splits prod.splits)

lemma tick_low:
  assumes "low_service svc" and "low_readings rd"
  shows "\<not> tick_overflows rd svc"
proof (cases "ms_state svc")
  case (Some st)
  with assms have st: "low_state st" and els: "low_elections (ms_elections svc)"
    and r: "random_number (hb_rnd rd)" "random_number (el_rnd rd)"
    by (auto simp: low_service_def low_readings_def)
  from st have n: "low_nodes (m_nodes st)" by (simp add: low_state_def)
  have "\<not> heartbeats_overflows (ms_me svc) (hb_rnd rd) st"
    using low_nodes_get [OF n] low_time_sum r(1) by (auto simp: heartbeats_overflows_def split: option.splits)
  moreover have "m_epoch (fst (heartbeats (ms_me svc) (hb_now rd) (hb_rnd rd) st)) = m_epoch st"
    by (auto simp: heartbeats_def Let_def split: option.split)
  with st have "pred_option low_epoch (m_epoch (fst (heartbeats (ms_me svc) (hb_now rd) (hb_rnd rd) st)))"
    by (simp add: low_state_def)
  then have "\<not> start_election_overflows (el_now rd) (el_rnd rd)
      (fst (heartbeats (ms_me svc) (hb_now rd) (hb_rnd rd) st)) (ms_elections svc)"
    by (rule start_election_low [OF _ els r(2)])
  ultimately show ?thesis using Some by (simp add: tick_overflows_def)
qed (simp add: tick_overflows_def)

lemma low_nodes_keep [simp]:
  "low_nodes m \<Longrightarrow> low_time (n_last_heartbeat n) \<Longrightarrow> low_nodes (hm_insert i n m)"
  "low_nodes m \<Longrightarrow> low_nodes (hm_remove i m)"
  "low_nodes m \<Longrightarrow> low_nodes (hm_retain P m)"
  "low_nodes m \<Longrightarrow> (\<And>n. low_time (n_last_heartbeat n) \<Longrightarrow> low_time (n_last_heartbeat (f n))) \<Longrightarrow> low_nodes (hm_update i f m)"
  by (induction m) (auto simp: low_nodes_def hm_retain_def)

lemma low_time_max: "low_time a \<Longrightarrow> low_time b \<Longrightarrow> low_time (max a b)"
  by (simp add: max_def)

lemma merge_items_low:
  "low_nodes (fst s) \<Longrightarrow> list_all (\<lambda>c. low_time (cn_last_heartbeat c)) items \<Longrightarrow> low_nodes (fst (fold merge_item items s))"
proof (induction items arbitrary: s)
  case (Cons item items)
  then have "low_nodes (fst (merge_item item s))"
    by (cases s) (auto simp: merge_item_def touch_def node_of_item_def split: option.split node_type.split)
  with Cons show ?case by simp
qed simp

lemma handle_cluster_state_low:
  assumes "low_state st" and "low_epoch epoch" and "list_all (\<lambda>c. low_time (cn_last_heartbeat c)) items"
  shows "low_state (fst (handle_cluster_state me epoch l items parts st))"
proof -
  have "low_nodes (fst (fold merge_item items (if items \<noteq> []
      then hm_retain (\<lambda>i _. i = me_id me \<or> i \<in> set (map cn_id items)) (m_nodes st) else m_nodes st, [])))"
    using assms by (intro merge_items_low) (auto simp: low_state_def)
  with assms(1,2) show ?thesis by (auto simp: handle_cluster_state_def low_state_def Let_def split: prod.splits)
qed

lemma elections_low:
  assumes "low_elections els"
  shows "low_elections (fst (snd (handle_leader me i e ts st els)))"
    "low_elections (fst (snd (handle_vote_response me i l ts st els)))"
    "low_epoch e \<Longrightarrow> low_time ts \<Longrightarrow> low_elections (fst (handle_vote_request i e ts st els))"
proof -
  have upd: "low_elections (hm_update epoch (\<lambda>_. Mine t bs) els)" if "low_time t" for epoch t bs
    using assms that by (induction els) (auto simp: low_elections_def)
  have get: "low_epoch epoch \<and> low_time (election_ts el)" if "hm_get els epoch = Some el" for epoch el
    using assms that by (auto simp: low_elections_def list_all_iff dest: map_of_SomeD)
  show "low_elections (fst (snd (handle_leader me i e ts st els)))"
    using assms by (auto simp: handle_leader_def low_elections_def split: option.split)
  show "low_elections (fst (snd (handle_vote_response me i l ts st els)))"
    using assms upd get by (fastforce simp: handle_vote_response_def Let_def low_elections_def split: option.splits election.splits)
  show "low_elections (fst (handle_vote_request i e ts st els))" if "low_epoch e" "low_time ts"
    using that assms by (auto simp: handle_vote_request_def Let_def low_elections_def split: option.splits election.splits)
qed

lemma handle_vote_response_low:
  assumes "low_state st" and "low_elections els"
  shows "low_state (fst (handle_vote_response me i l ts st els))"
  using handle_vote_response_state [of me i l ts st els] assms(1) last_election_low [OF assms(2)] by (auto simp: low_state_def)

lemma dispatch_low:
  assumes "low_state st" and "low_elections els" and "low_message m" and "low_readings rd"
  shows "low_state (fst (dispatch me rd m st els)) \<and> low_elections (fst (snd (dispatch me rd m st els)))"
proof (cases m)
  case (MNewConnection i h p b)
  then show ?thesis using assms
    by (auto simp: handle_new_connection_def low_state_def low_readings_def split: option.split)
next
  case (MHeartbeat j hb)
  then show ?thesis using assms
    by (auto simp: handle_heartbeat_def low_state_def low_time_max split: option.split)
next
  case (MClusterState j cs)
  then show ?thesis using assms handle_cluster_state_low by (simp add: split_beta Let_def)
next
  case (MVoteRequest i e ts)
  then show ?thesis using assms elections_low(3) by (simp add: split_beta Let_def)
next
  case (MVoteResponse i l ts)
  then show ?thesis using assms elections_low(2) handle_vote_response_low by simp
next
  case (MLeader i e ts)
  have "low_state (fst (handle_leader me i e ts st els))"
    using assms MLeader by (auto simp: handle_leader_def low_state_def split: option.split)
  then show ?thesis using MLeader assms elections_low(1) by simp
qed (use assms in \<open>auto simp: handle_get_cluster_state_def handle_node_disconnected_def handle_remove_old_partition_def
    low_state_def Let_def split: option.split\<close>)

text \<open>What a build with overflow checks does: while times and epochs are low, the same.\<close>

lemma checked_tick_low:
  "low_service svc \<Longrightarrow> low_readings rd \<Longrightarrow> checked_tick config rd svc = tick config rd svc"
  by (simp add: checked_tick_def tick_low)

lemma checked_process_low:
  assumes "low_service svc" and "low_message m" and "low_readings rd"
  shows "checked_process config rd m svc = process config rd m svc"
proof (cases "ms_state svc")
  case None
  then show ?thesis using assms by (simp add: checked_process_def process_def checked_tick_low)
next
  case (Some st)
  obtain st1 els o1 where d: "dispatch (ms_me svc) rd m st (ms_elections svc) = (st1, els, o1)"
    by (cases "dispatch (ms_me svc) rd m st (ms_elections svc)")
  with Some assms dispatch_low [of st "ms_elections svc" m rd "ms_me svc"]
  have "low_service (svc\<lparr>ms_state := Some st1, ms_elections := els\<rparr>)" by (simp add: low_service_def)
  with Some d assms(3) show ?thesis by (simp add: checked_process_def process_def checked_tick_low)
qed

text \<open>
  A single message can end the service task of a build with overflow checks: a heartbeat, relayed by
  any peer or worker, that names the manager itself with a time less than 200 milliseconds below the
  largest \<open>u64\<close>.
\<close>

theorem heartbeat_ends_checked_service:
  assumes "ms_state svc = Some st" and "hm_get (m_nodes st) (me_id (ms_me svc)) = Some n" and "n_node_type n = Manager"
    and "2 ^ 64 \<le> unat ts + 200"
  shows "checked_process config rd (MHeartbeat i \<lparr>hb_id = me_id (ms_me svc), hb_ts = ts\<rparr>) svc = None"
proof -
  have "2 ^ 64 \<le> unat (max (n_last_heartbeat n) ts) + 200"
    using assms(4) by (auto simp: max_def word_le_nat_alt)
  then have "add_overflows (max (n_last_heartbeat n) ts) HEARTBEAT_INTERVAL_MS"
    by (simp add: add_overflows_nat HEARTBEAT_INTERVAL_MS_def)
  with assms(1-3) show ?thesis
    by (simp add: checked_process_def handle_heartbeat_def checked_tick_def tick_overflows_def heartbeats_overflows_def Let_def)
qed

lemma heartbeat_ends_checked_service_witness:
  "checked_process demo_config (demo_readings 30) (MHeartbeat (NodeId ''b'') \<lparr>hb_id = NodeId ''m'', hb_ts = 18446744073709551615\<rparr>)
     demo_started = None"
proof -
  have "map_option (\<lambda>st. map_option n_node_type (hm_get (m_nodes st) (NodeId ''m''))) (ms_state demo_started) = Some (Some Manager)"
    "me_id (ms_me demo_started) = NodeId ''m''" by code_simp+
  then obtain st n where "ms_state demo_started = Some st" "hm_get (m_nodes st) (me_id (ms_me demo_started)) = Some n"
    "n_node_type n = Manager" by auto
  from heartbeat_ends_checked_service [OF this, of 18446744073709551615] show ?thesis
    using \<open>me_id (ms_me demo_started) = NodeId ''m''\<close> by simp
qed

end
