(* ===== verification/Manager_Node.thy ===== *)
theory Manager_Node
  imports Manager_Grpc Manager_Overflow
begin

text \<open>
  A whole manager: the service and its gRPC layer, with the two channels between them. The tasks of
  the program take steps in any order: connections are accepted and dialled, readers pass on what
  arrives, sessions close, the service takes the oldest message or ticks, the output loop takes the
  oldest message of the service (\<open>manager/mod.rs\<close>, \<open>run\<close>). The output loop opens connections itself:
  while it dials it takes no message, and a panic there ends it for good. The receiver of the
  service's messages ends with it: what is queued is lost, and each later send fails, which the
  service logs and passes over. The configuration is shared: a peer that connects changes the
  replication factor the service works with.
\<close>

section \<open>The node\<close>

record manager_node =
  mn_service :: mservice
  mn_grpc :: mgrpc
  mn_out :: "manager_protocol list"
  mn_stopped :: bool

definition manager_node_start :: "me \<Rightarrow> config \<Rightarrow> u64 \<Rightarrow> manager_node" where
  "manager_node_start me config now =
     (let (svc, out) = get_init_messages config now (new_mservice me)
      in \<lparr>mn_service = svc, mn_grpc = new_mgrpc me config, mn_out = out, mn_stopped = False\<rparr>)"

text \<open>Messages for the service enter its channel at the end.\<close>

definition to_service :: "manager_protocol list \<Rightarrow> mgrpc \<Rightarrow> mgrpc" where
  "to_service ms g = g\<lparr>mg_tx := mg_tx g @ ms\<rparr>"

text \<open>Messages of the service enter the channel to the output loop, while there is one to receive them.\<close>

definition to_output :: "manager_protocol list \<Rightarrow> manager_node \<Rightarrow> manager_protocol list" where
  "to_output ms n = (if mn_stopped n then [] else mn_out n @ ms)"

definition close_session :: "node_id \<Rightarrow> mgrpc \<Rightarrow> mgrpc" where
  "close_session i g =
     g\<lparr>mg_manager_sessions := hm_update i (\<lambda>s. s\<lparr>closed := True\<rparr>) (mg_manager_sessions g),
       mg_worker_sessions := hm_update i (\<lambda>s. s\<lparr>closed := True\<rparr>) (mg_worker_sessions g),
       mg_client_sessions := hm_update i (\<lambda>s. s\<lparr>closed := True\<rparr>) (mg_client_sessions g)\<rparr>"

inductive manager_node_step :: "(string \<Rightarrow> string option) \<Rightarrow> manager_node \<Rightarrow> manager_node \<Rightarrow> bool" for uuid where
  accept_manager: "open_connection uuid first (mn_grpc n) = (g, Some (i, host, port)) \<Longrightarrow>
    manager_node_step uuid n (n\<lparr>mn_grpc := to_service [MNewConnection (Some i) host port True] g\<rparr>)"
| reject_manager: "open_connection uuid first (mn_grpc n) = (g, None) \<Longrightarrow>
    manager_node_step uuid n (n\<lparr>mn_grpc := g\<rparr>)"
| accept_worker: "open_worker_connection uuid wfirst (mn_grpc n) = (g, Some (i, host, port)) \<Longrightarrow>
    manager_node_step uuid n (n\<lparr>mn_grpc := to_service [MNewConnection (Some i) host port False] g\<rparr>)"
| accept_client: "open_client_connection uuid s (mn_grpc n) = Some g \<Longrightarrow>
    manager_node_step uuid n (n\<lparr>mn_grpc := g\<rparr>)"
| dialled: "mg_dials (mn_grpc n) = [(host, port, rf)] \<Longrightarrow>
    new_manager_connection uuid rf outcome (mn_grpc n) = Some (g, Some i) \<Longrightarrow>
    manager_node_step uuid n
      (n\<lparr>mn_grpc := to_service [MNewConnection (Some i) host port True] (g\<lparr>mg_dials := []\<rparr>)\<rparr>)"
| dial_fails: "mg_dials (mn_grpc n) = [(host, port, rf)] \<Longrightarrow>
    new_manager_connection uuid rf outcome (mn_grpc n) = Some (g, None) \<Longrightarrow>
    manager_node_step uuid n (n\<lparr>mn_grpc := g\<lparr>mg_dials := []\<rparr>\<rparr>)"
| dial_panics: "mg_dials (mn_grpc n) = [(host, port, rf)] \<Longrightarrow>
    new_manager_connection uuid rf outcome (mn_grpc n) = None \<Longrightarrow>
    manager_node_step uuid n (n\<lparr>mn_grpc := (mn_grpc n)\<lparr>mg_dials := []\<rparr>, mn_out := [], mn_stopped := True\<rparr>)"
| read_manager: "on_manager_event uuid (mg_me (mn_grpc n)) i e = Emit m \<Longrightarrow>
    manager_node_step uuid n (n\<lparr>mn_grpc := to_service [m] (mn_grpc n)\<rparr>)"
| read_worker: "on_worker_event uuid i we = Emit m \<Longrightarrow>
    manager_node_step uuid n (n\<lparr>mn_grpc := to_service [m] (mn_grpc n)\<rparr>)"
| manager_session_ends: "manager_node_step uuid n (n\<lparr>mn_grpc :=
    to_service [MNodeDisconnected i] ((mn_grpc n)\<lparr>mg_manager_sessions := hm_remove i (mg_manager_sessions (mn_grpc n))\<rparr>)\<rparr>)"
| worker_session_ends: "manager_node_step uuid n (n\<lparr>mn_grpc :=
    to_service [MNodeDisconnected i] ((mn_grpc n)\<lparr>mg_worker_sessions := hm_remove i (mg_worker_sessions (mn_grpc n))\<rparr>)\<rparr>)"
| closes: "manager_node_step uuid n (n\<lparr>mn_grpc := close_session i (mn_grpc n)\<rparr>)"
| serves: "mg_tx (mn_grpc n) = m # rest \<Longrightarrow>
    process (mg_config (mn_grpc n)) rd m (mn_service n) = Some (svc, out) \<Longrightarrow>
    manager_node_step uuid n (n\<lparr>mn_service := svc, mn_grpc := (mn_grpc n)\<lparr>mg_tx := rest\<rparr>, mn_out := to_output out n\<rparr>)"
| ticks: "tick (mg_config (mn_grpc n)) rd (mn_service n) = Some (svc, out) \<Longrightarrow>
    manager_node_step uuid n (n\<lparr>mn_service := svc, mn_out := to_output out n\<rparr>)"
| outputs: "mn_out n = m # rest \<Longrightarrow> mg_dials (mn_grpc n) = [] \<Longrightarrow> mg_output m (mn_grpc n) = Some g \<Longrightarrow>
    manager_node_step uuid n (n\<lparr>mn_grpc := g, mn_out := rest\<rparr>)"

inductive manager_node_reachable :: "(string \<Rightarrow> string option) \<Rightarrow> me \<Rightarrow> config \<Rightarrow> manager_node \<Rightarrow> bool" for uuid me config where
  mn_start: "manager_node_reachable uuid me config (manager_node_start me config now)"
| mn_step: "manager_node_reachable uuid me config n \<Longrightarrow> manager_node_step uuid n n' \<Longrightarrow>
    manager_node_reachable uuid me config n'"

section \<open>What the service sends\<close>

text \<open>The messages the output loop is written for.\<close>

fun sendable :: "manager_protocol \<Rightarrow> bool" where
  "sendable (MNodeDisconnected _) = False"
| "sendable (MNewConnection _ _ _ manager) = manager"
| "sendable _ = True"

lemma merge_item_sendable: "list_all sendable (snd s) \<Longrightarrow> list_all sendable (snd (merge_item item s))"
  by (auto simp: merge_item_def Let_def split: prod.splits option.splits node_type.splits)

lemma merge_items_sendable: "list_all sendable (snd s) \<Longrightarrow> list_all sendable (snd (fold merge_item items s))"
  by (induction items arbitrary: s) (simp_all add: merge_item_sendable)

lemma handle_cluster_state_sendable: "list_all sendable (snd (handle_cluster_state me e l items parts st))"
  by (simp add: handle_cluster_state_def Let_def split_beta merge_items_sendable)

lemma dispatch_sendable: "list_all sendable (snd (snd (dispatch me rd m st els)))"
proof (cases m)
  case (MClusterState i cs)
  then show ?thesis by (simp add: split_beta Let_def handle_cluster_state_sendable)
qed (auto simp: list_all_iff handle_remove_old_partition_def handle_new_connection_def handle_heartbeat_def
    handle_get_cluster_state_def handle_vote_request_def handle_vote_response_def handle_leader_def Let_def
    split: prod.splits option.splits if_splits election.splits)

lemma heartbeats_sendable: "list_all sendable (snd (heartbeats me now rnd st))"
  by (auto simp: heartbeats_def Let_def list_all_iff split: option.split)

lemma start_election_sendable: "list_all sendable (snd (start_election_if_needed me now rnd st els))"
  by (auto simp: start_election_if_needed_def Let_def list_all_iff split: option.split prod.split)

lemma worker_partitions_sendable: "worker_partitions me rf st = Some (st', out) \<Longrightarrow> list_all sendable out"
  by (auto simp: worker_partitions_def Let_def list_all_iff split: option.splits if_splits)

lemma tick_sendable:
  assumes "tick config rd svc = Some (svc', out)"
  shows "list_all sendable out"
proof (cases "ms_state svc")
  case (Some st)
  obtain st1 o1 where h: "heartbeats (ms_me svc) (hb_now rd) (hb_rnd rd) st = (st1, o1)" by fastforce
  obtain els o2 where e: "start_election_if_needed (ms_me svc) (el_now rd) (el_rnd rd) st1 (ms_elections svc) = (els, o2)"
    by fastforce
  from assms Some h e obtain rf st2 o3 where w: "worker_partitions (ms_me svc) rf st1 = Some (st2, o3)"
    and out: "out = o1 @ o2 @ o3" by (auto simp: tick_def split: option.splits)
  then show ?thesis
    using heartbeats_sendable [of "ms_me svc" "hb_now rd" "hb_rnd rd" st]
      start_election_sendable [of "ms_me svc" "el_now rd" "el_rnd rd" st1 "ms_elections svc"]
      worker_partitions_sendable [OF w] by (simp add: h e)
qed (use assms in \<open>simp add: tick_def\<close>)

lemma process_sendable:
  assumes "process config rd m svc = Some (svc', out)"
  shows "list_all sendable out"
proof -
  obtain svc1 out1 out2 where o: "out = out1 @ out2" "tick config rd svc1 = Some (svc', out2)"
    and 1: "out1 = (case ms_state svc of None \<Rightarrow> []
      | Some st \<Rightarrow> snd (snd (dispatch (ms_me svc) rd m st (ms_elections svc))))"
    using assms by (auto simp: process_def Let_def split: prod.splits option.splits)
  have "list_all sendable out1" unfolding 1 by (simp add: dispatch_sendable split: option.split)
  with o tick_sendable show ?thesis by simp
qed

lemma get_init_messages_sendable: "list_all sendable (snd (get_init_messages config now svc))"
  by (auto simp: get_init_messages_def Let_def split: option.split)

section \<open>Invariant\<close>

definition manager_node_ok :: "me \<Rightarrow> manager_node \<Rightarrow> bool" where
  "manager_node_ok me n \<longleftrightarrow> mservice_ok me (mn_service n) \<and> list_all manager_msg_wf (mg_tx (mn_grpc n)) \<and>
     list_all sendable (mn_out n) \<and> config_replication_factor (mg_config (mn_grpc n)) \<noteq> None"

lemma to_manager_keeps [simp]:
  "mg_config (to_manager e i g) = mg_config g" "mg_config (to_worker we i g) = mg_config g"
  "list_all manager_msg_wf (mg_tx (to_manager e i g)) = list_all manager_msg_wf (mg_tx g)"
  "list_all manager_msg_wf (mg_tx (to_worker we i g)) = list_all manager_msg_wf (mg_tx g)"
  by (auto simp: to_manager_def to_worker_def split_beta Let_def list_all_iff)

lemma mg_output_keeps:
  assumes "mg_output m g = Some g'"
  shows "mg_config g' = mg_config g \<and> (list_all manager_msg_wf (mg_tx g') = list_all manager_msg_wf (mg_tx g))"
  using assms
  by (cases m) (auto simp: handle_output_remove_partition_from_replica_def handle_output_heartbeat_def
      handle_output_get_cluster_state_def handle_output_cluster_state_def handle_output_vote_request_def
      handle_output_vote_response_def handle_output_leader_def Let_def split: option.splits if_splits)

lemma mg_output_accepts:
  "sendable m \<Longrightarrow> config_replication_factor (mg_config g) \<noteq> None \<Longrightarrow> mg_output m g \<noteq> None"
  by (cases m) auto

lemma open_connection_keeps:
  assumes "open_connection uuid first g = (g', r)" and "config_replication_factor (mg_config g) \<noteq> None"
  shows "config_replication_factor (mg_config g') \<noteq> None \<and> mg_tx g' = mg_tx g"
  using assms
  by (cases "mg_config g") (auto simp: open_connection_def Let_def split: option.splits manager_event.splits)


lemma connections_keep:
  "open_worker_connection uuid wfirst g = (g', r) \<Longrightarrow> mg_config g' = mg_config g \<and> mg_tx g' = mg_tx g"
  "new_manager_connection uuid rf outcome g = Some (g', r') \<Longrightarrow> mg_config g' = mg_config g \<and> mg_tx g' = mg_tx g"
  "open_client_connection uuid s g = Some g' \<Longrightarrow>
     mg_config g' = mg_config g \<and> (\<exists>j. mg_tx g' = mg_tx g @ [MGetClusterState j])"
  by (auto simp: open_worker_connection_def new_manager_connection_def start_communication_with_manager_def
      open_client_connection_def Let_def
      split: option.splits worker_event.splits manager_event.splits dial_outcome.splits)

lemma manager_node_step_ok:
  assumes "manager_node_step uuid n n'" and "manager_node_ok me n"
  shows "manager_node_ok me n'"
  using assms
proof (induction rule: manager_node_step.induct)
  case (accept_manager first n g i host port)
  with open_connection_keeps [OF accept_manager(1)] show ?case by (auto simp: manager_node_ok_def to_service_def)
next
  case (reject_manager first n g)
  with open_connection_keeps [OF reject_manager(1)] show ?case by (auto simp: manager_node_ok_def)
next
  case (accept_worker wfirst n g i host port)
  with connections_keep(1) [OF accept_worker(1)] show ?case by (auto simp: manager_node_ok_def to_service_def)
next
  case (accept_client s n g)
  with connections_keep(3) [OF accept_client(1)] show ?case by (auto simp: manager_node_ok_def)
next
  case (dialled n host port rf outcome g i)
  with connections_keep(2) [OF dialled(2)] show ?case by (auto simp: manager_node_ok_def to_service_def)
next
  case (dial_fails n host port rf outcome g)
  with connections_keep(2) [OF dial_fails(2)] show ?case by (auto simp: manager_node_ok_def)
next
  case (read_manager n i e m)
  with on_manager_event_wf [OF read_manager(1)] show ?case by (auto simp: manager_node_ok_def to_service_def)
next
  case (read_worker i we m n)
  with on_worker_event_from_worker [OF read_worker(1)] show ?case by (auto simp: manager_node_ok_def to_service_def)
next
  case (serves n m rest rd svc out)
  then obtain rf st where rf: "config_replication_factor (mg_config (mn_grpc n)) = Some rf"
    and ok: "mservice_ok me (mn_service n)" and st: "ms_state (mn_service n) = Some st" and m: "manager_msg_wf m"
    by (auto simp: manager_node_ok_def mservice_ok_def)
  from process_step [OF st ok rf m, of rd] serves(2) have "mservice_ok me svc" by auto
  with serves process_sendable [OF serves(2)] show ?case by (auto simp: manager_node_ok_def to_output_def)
next
  case (ticks n rd svc out)
  then obtain rf where rf: "config_replication_factor (mg_config (mn_grpc n)) = Some rf"
    and ok: "mservice_ok me (mn_service n)" by (auto simp: manager_node_ok_def)
  from tick_ok [OF ok rf, of rd] ticks(1) have "mservice_ok me svc" by auto
  with ticks tick_sendable [OF ticks(1)] show ?case by (auto simp: manager_node_ok_def to_output_def)
next
  case (outputs n m rest g)
  with mg_output_keeps [OF outputs(3)] show ?case by (auto simp: manager_node_ok_def)
qed (auto simp: manager_node_ok_def to_service_def close_session_def)

lemma manager_node_reachable_ok:
  assumes "manager_node_reachable uuid me config n" and "config_replication_factor config \<noteq> None"
  shows "manager_node_ok me n"
  using assms(1)
proof (induction rule: manager_node_reachable.induct)
  case (mn_start now)
  obtain rf where rf: "config_replication_factor config = Some rf" using assms(2) by blast
  have "mservice_ok me (fst (get_init_messages config now (new_mservice me)))"
    by (rule reachable_ok [OF rf manager_reachable.init])
  then show ?case
    using get_init_messages_sendable [of config now "new_mservice me"] rf
    by (simp add: manager_node_ok_def manager_node_start_def split_beta new_mgrpc_def)
qed (rule manager_node_step_ok)

section \<open>Properties\<close>

lemma new_manager_connection_panics:
  "new_manager_connection uuid rf outcome g = None \<longleftrightarrow>
     (\<exists>i. outcome = StreamOpens (Some (MEConnectResponse i)) \<and> node_id_from_string uuid i = None)"
  by (auto simp: new_manager_connection_def start_communication_with_manager_def
      split: dial_outcome.splits option.splits manager_event.splits)

lemma manager_node_stops:
  assumes "manager_node_step uuid n n'" and "mn_stopped n'"
  shows "mn_stopped n \<or> (\<exists>host port rf outcome. mg_dials (mn_grpc n) = [(host, port, rf)] \<and>
      new_manager_connection uuid rf outcome (mn_grpc n) = None)"
  using assms by (induction rule: manager_node_step.induct) auto

text \<open>
  The output loop is gone: it has panicked, nothing is queued for it and it dials no one. Nothing has
  been written between two states of the layer when each session has the events it had, or is a new
  one that has only the answer to its \<open>Connect\<close>.
\<close>

definition mn_gone :: "manager_node \<Rightarrow> bool" where
  "mn_gone n \<longleftrightarrow> mn_stopped n \<and> mn_out n = [] \<and> mg_dials (mn_grpc n) = []"

definition mg_quiet :: "mgrpc \<Rightarrow> mgrpc \<Rightarrow> bool" where
  "mg_quiet g g' \<longleftrightarrow> mg_me g' = mg_me g \<and>
     unwritten [MEConnectResponse (node_id_to_string (me_id (mg_me g)))] (mg_manager_sessions g) (mg_manager_sessions g') \<and>
     unwritten [WEConnectResponse (node_id_to_string (me_id (mg_me g)))] (mg_worker_sessions g) (mg_worker_sessions g') \<and>
     unwritten [] (mg_client_sessions g) (mg_client_sessions g')"

lemma mg_quiet_refl: "mg_quiet g g"
  by (simp add: mg_quiet_def)

lemma mg_quiet_trans: "mg_quiet g g' \<Longrightarrow> mg_quiet g' g'' \<Longrightarrow> mg_quiet g g''"
  by (simp add: mg_quiet_def) (blast intro: unwritten_trans)

lemma to_service_quiet [simp]:
  "mg_quiet g (to_service ms g') = mg_quiet g g'" "mg_dials (to_service ms g) = mg_dials g"
  by (simp_all add: to_service_def mg_quiet_def)

lemma accepting_quiet:
  "open_connection uuid first g = (g', r) \<Longrightarrow> mg_quiet g g' \<and> mg_dials g' = mg_dials g"
  "open_worker_connection uuid wfirst g = (g', r') \<Longrightarrow> mg_quiet g g' \<and> mg_dials g' = mg_dials g"
  "open_client_connection uuid s g = Some g' \<Longrightarrow> mg_quiet g g' \<and> mg_dials g' = mg_dials g"
  by (auto simp: open_connection_def open_worker_connection_def open_client_connection_def mg_quiet_def Let_def
      split: option.splits manager_event.splits worker_event.splits)

lemma mn_gone_step:
  assumes "manager_node_step uuid n n'" and "mn_gone n"
  shows "mn_gone n' \<and> mg_quiet (mn_grpc n) (mn_grpc n')"
  using assms
  by (induction rule: manager_node_step.induct)
     (auto simp: mn_gone_def to_output_def close_session_def mg_quiet_refl dest!: accepting_quiet,
      auto simp: mg_quiet_def)

interpretation mo: output_task "manager_node_step uuid" mn_gone "\<lambda>n n'. mg_quiet (mn_grpc n) (mn_grpc n')" for uuid
  by unfold_locales (auto dest: mn_gone_step intro: mg_quiet_refl mg_quiet_trans)

lemma manager_node_accepts:
  assumes "manager_node_reachable uuid me config n" and "config_replication_factor config \<noteq> None"
  shows "mg_tx (mn_grpc n) = m # rest \<Longrightarrow> process (mg_config (mn_grpc n)) rd m (mn_service n) \<noteq> None"
    and "tick (mg_config (mn_grpc n)) rd (mn_service n) \<noteq> None"
    and "mn_out n = m # rest \<Longrightarrow> mg_output m (mn_grpc n) \<noteq> None \<and> sendable m"
proof -
  have ok: "manager_node_ok me n" by (rule manager_node_reachable_ok [OF assms])
  then obtain rf st where rf: "config_replication_factor (mg_config (mn_grpc n)) = Some rf"
    and s: "mservice_ok me (mn_service n)" and st: "ms_state (mn_service n) = Some st"
    by (auto simp: manager_node_ok_def mservice_ok_def)
  show "process (mg_config (mn_grpc n)) rd m (mn_service n) \<noteq> None" if "mg_tx (mn_grpc n) = m # rest"
    by (rule process_step [OF st s rf, of m rd]) (use that ok in \<open>auto simp: manager_node_ok_def\<close>)
  show "tick (mg_config (mn_grpc n)) rd (mn_service n) \<noteq> None"
    by (rule tick_ok [OF s rf, of rd]) auto
  show "mg_output m (mn_grpc n) \<noteq> None \<and> sendable m" if "mn_out n = m # rest"
    using that ok rf mg_output_accepts [of m "mn_grpc n"] by (auto simp: manager_node_ok_def)
qed

text \<open>
  C15: A manager process panics neither in its service nor on what its service sends. In every state
  a whole manager reaches, whatever connects, arrives, closes or is dialled, the service handles
  the next message and the next tick, and the output loop accepts the next message: the service
  never sends it a message the loop calls unreachable or unexpected, and the shared configuration
  always has a replication factor. The loop stops in one case only: it is dialling, and the id in the
  \<open>ConnectResponse\<close> it reads is none it can parse. In a build with overflow checks the service handles the next
  message and tick as well, as long as the times it has and gets are a second below the end of the \<open>u64\<close>
  range and the epochs below its last value.
\<close>

theorem manager_node_never_panics:
  assumes "manager_node_reachable uuid me config n" and "config_replication_factor config \<noteq> None"
  shows "(\<forall>m rest rd. mg_tx (mn_grpc n) = m # rest \<longrightarrow>
      process (mg_config (mn_grpc n)) rd m (mn_service n) \<noteq> None \<and>
      (low_service (mn_service n) \<and> low_message m \<and> low_readings rd \<longrightarrow>
         checked_process (mg_config (mn_grpc n)) rd m (mn_service n) \<noteq> None)) \<and>
    (\<forall>rd. tick (mg_config (mn_grpc n)) rd (mn_service n) \<noteq> None \<and>
      (low_service (mn_service n) \<and> low_readings rd \<longrightarrow> checked_tick (mg_config (mn_grpc n)) rd (mn_service n) \<noteq> None)) \<and>
    (\<forall>m rest. mn_out n = m # rest \<longrightarrow> mg_output m (mn_grpc n) \<noteq> None \<and>
      (\<forall>i host port. m \<noteq> MNewConnection i host port False)) \<and>
    (\<forall>n'. manager_node_step uuid n n' \<longrightarrow> mn_stopped n' \<longrightarrow> mn_stopped n \<or>
      (\<exists>host port rf outcome. mg_dials (mn_grpc n) = [(host, port, rf)] \<and>
         new_manager_connection uuid rf outcome (mn_grpc n) = None)) \<and>
    (\<forall>rf outcome. new_manager_connection uuid rf outcome (mn_grpc n) = None \<longleftrightarrow>
      (\<exists>i. outcome = StreamOpens (Some (MEConnectResponse i)) \<and> node_id_from_string uuid i = None))"
proof -
  note accepts = manager_node_accepts [OF assms]
  have "\<not> sendable (MNewConnection i host port False)" for i host port by simp
  with accepts have
    "\<forall>m rest. mn_out n = m # rest \<longrightarrow> mg_output m (mn_grpc n) \<noteq> None \<and> (\<forall>i host port. m \<noteq> MNewConnection i host port False)"
    by blast
  then show ?thesis
    using accepts manager_node_stops [of uuid n] new_manager_connection_panics [of uuid _ _ "mn_grpc n"]
    by (simp add: checked_process_low checked_tick_low)
qed

text \<open>A manager that starts with the address of a peer: it dials first.\<close>

definition demo_peer_config :: config where
  "demo_peer_config = ConfigManager 1 (''m'', 1) (Some (''h'', 1)) 2"

lemma demo_peer_start:
  "mn_out (manager_node_start demo_me demo_peer_config 5) = [MNewConnection None ''h'' 1 True]"
  by (simp add: manager_node_start_def get_init_messages_def new_mservice_def Let_def demo_peer_config_def)

lemma manager_node_never_panics_witness:
  "mg_output (MNewConnection None ''h'' 1 True) (mn_grpc (manager_node_start demo_me demo_peer_config 5)) \<noteq> None"
  using manager_node_never_panics [OF mn_start [of Some demo_me demo_peer_config 5]] demo_peer_start
  by (simp add: demo_peer_config_def)

text \<open>
  C22: A malformed answer silences a manager. When a node that a manager dials answers with an id
  that is not a UUID, the output loop panics and its receiver is dropped, though the process goes on:
  the service keeps handling messages and ticks, but from then on, in every run, its messages
  (heartbeats, votes, cluster states) are discarded. No session is written to again, but for the
  answer to the \<open>Connect\<close> of a session accepted later, and the manager dials no one.
\<close>

theorem malformed_id_silences_manager:
  assumes "manager_node_reachable uuid me config n" and "config_replication_factor config \<noteq> None"
    and "mg_dials (mn_grpc n) = [(host, port, rf)]" and "node_id_from_string uuid i = None"
  shows "new_manager_connection uuid rf (StreamOpens (Some (MEConnectResponse i))) (mn_grpc n) = None \<and>
    (let n' = n\<lparr>mn_grpc := (mn_grpc n)\<lparr>mg_dials := []\<rparr>, mn_out := [], mn_stopped := True\<rparr>
     in manager_node_step uuid n n' \<and>
        (\<forall>n''. (manager_node_step uuid)\<^sup>*\<^sup>* n' n'' \<longrightarrow>
           manager_node_reachable uuid me config n'' \<and> mn_out n'' = [] \<and> mg_dials (mn_grpc n'') = [] \<and>
           mg_quiet (mn_grpc n) (mn_grpc n'') \<and>
           (\<forall>m rest rd. mg_tx (mn_grpc n'') = m # rest \<longrightarrow> process (mg_config (mn_grpc n'')) rd m (mn_service n'') \<noteq> None) \<and>
           (\<forall>rd. tick (mg_config (mn_grpc n'')) rd (mn_service n'') \<noteq> None)))"
proof -
  have p: "new_manager_connection uuid rf (StreamOpens (Some (MEConnectResponse i))) (mn_grpc n) = None"
    using assms(4) by (simp add: new_manager_connection_panics)
  let ?n = "n\<lparr>mn_grpc := (mn_grpc n)\<lparr>mg_dials := []\<rparr>, mn_out := [], mn_stopped := True\<rparr>"
  have step: "manager_node_step uuid n ?n" using dial_panics [OF assms(3) p] .
  have r: "manager_node_reachable uuid me config n''" if "(manager_node_step uuid)\<^sup>*\<^sup>* ?n n''" for n''
    using that
    by (induction rule: rtranclp_induct) (blast intro: mn_step assms(1) step)+
  have "mn_gone n'' \<and> mg_quiet (mn_grpc n) (mn_grpc n'')" if "(manager_node_step uuid)\<^sup>*\<^sup>* ?n n''" for n''
    using mo.run_gone [OF that] by (simp add: mn_gone_def mg_quiet_def)
  with p step r manager_node_accepts [OF r assms(2)] show ?thesis unfolding Let_def mn_gone_def by blast
qed

lemma malformed_id_silences_manager_witness:
  "\<exists>n. manager_node_reachable demo_uuid demo_me demo_peer_config n \<and> mn_stopped n \<and>
     tick (mg_config (mn_grpc n)) (demo_readings 30) (mn_service n) \<noteq> None"
proof -
  let ?n = "manager_node_start demo_me demo_peer_config 5"
  have g: "mn_grpc ?n = new_mgrpc demo_me demo_peer_config" "config_replication_factor demo_peer_config \<noteq> None"
    "config_replication_factor demo_peer_config = Some 2"
    by (simp_all add: manager_node_start_def split_beta demo_peer_config_def)
  have "manager_node_step demo_uuid ?n
      (?n\<lparr>mn_grpc := (mn_grpc ?n)\<lparr>mg_dials := [(''h'', 1, 2)]\<rparr>, mn_out := []\<rparr>)" (is "manager_node_step _ _ ?n'")
    by (rule outputs [OF demo_peer_start]) (simp_all add: g new_mgrpc_def)
  with mn_start have r: "manager_node_reachable demo_uuid demo_me demo_peer_config ?n'" by (rule mn_step)
  have "node_id_from_string demo_uuid '''' = None" by (simp add: node_id_from_string_def demo_uuid_def)
  from malformed_id_silences_manager [OF r g(2) _ this, of "''h''" 1 2]
  show ?thesis by (fastforce simp: Let_def)
qed

end
