(* ===== verification/Worker_Process.thy ===== *)
theory Worker_Process
  imports Worker_Node
begin

text \<open>
  A whole worker: the service with its store, the gRPC layer, the channels between them, the clients
  and the clean-up of expired records (\<open>worker/mod.rs\<close>, \<open>run\<close>), taking steps in any order. What arrives on
  the streams is arbitrary; the invariants of the service hold because of what its input layer
  passes on, no longer under an assumption on its messages. As in the manager, the output loop dials
  itself, and a panic there ends it and the channel it receives from.
\<close>

section \<open>The process\<close>

record worker_process =
  wp_service :: wservice
  wp_grpc :: wgrpc
  wp_out :: "worker_protocol list"
  wp_stopped :: bool

definition wp_to_service :: "worker_protocol list \<Rightarrow> wgrpc \<Rightarrow> wgrpc" where
  "wp_to_service ms g = g\<lparr>wg_tx := wg_tx g @ ms\<rparr>"

definition wp_close_session :: "node_id \<Rightarrow> wgrpc \<Rightarrow> wgrpc" where
  "wp_close_session i g =
     g\<lparr>wg_manager_sessions := hm_update i (\<lambda>s. s\<lparr>closed := True\<rparr>) (wg_manager_sessions g),
       wg_worker_sessions := hm_update i (\<lambda>s. s\<lparr>closed := True\<rparr>) (wg_worker_sessions g)\<rparr>"

definition wp_to_output :: "worker_protocol list \<Rightarrow> worker_process \<Rightarrow> worker_protocol list" where
  "wp_to_output ms p = (if wp_stopped p then [] else wp_out p @ ms)"

text \<open>The dial of the output loop, to a manager or to a worker, and what the reader it starts announces.\<close>

definition wg_dial ::
  "(string \<Rightarrow> string option) \<Rightarrow> bool \<Rightarrow> worker_event dial_outcome \<Rightarrow> peer_event dial_outcome \<Rightarrow> wgrpc \<Rightarrow>
   (wgrpc \<times> node_id option) option" where
  "wg_dial uuid manager outcome peer_outcome g =
     (if manager then wg_new_manager_connection uuid outcome g else wg_new_worker_connection uuid peer_outcome g)"

definition wg_dial_announces :: "bool \<Rightarrow> node_id \<Rightarrow> string \<Rightarrow> u32 \<Rightarrow> worker_protocol" where
  "wg_dial_announces manager i host port =
     (if manager then wg_announce_manager i host port else wg_announce_worker i host port)"

inductive worker_process_step :: "(string \<Rightarrow> string option) \<Rightarrow> worker_process \<Rightarrow> worker_process \<Rightarrow> bool" for uuid where
  wp_accept: "wg_open_worker_connection uuid first (wp_grpc p) = (g, Some (i, host, port)) \<Longrightarrow>
    worker_process_step uuid p (p\<lparr>wp_grpc := wp_to_service [wg_announce_worker i host port] g\<rparr>)"
| wp_dialled: "wg_dials (wp_grpc p) = [(host, port, manager)] \<Longrightarrow>
    wg_dial uuid manager outcome peer_outcome (wp_grpc p) = Some (g, Some i) \<Longrightarrow>
    worker_process_step uuid p
      (p\<lparr>wp_grpc := wp_to_service [wg_dial_announces manager i host port] (g\<lparr>wg_dials := []\<rparr>)\<rparr>)"
| wp_dial_fails: "wg_dials (wp_grpc p) = [(host, port, manager)] \<Longrightarrow>
    wg_dial uuid manager outcome peer_outcome (wp_grpc p) = Some (g, None) \<Longrightarrow>
    worker_process_step uuid p (p\<lparr>wp_grpc := g\<lparr>wg_dials := []\<rparr>\<rparr>)"
| wp_dial_panics: "wg_dials (wp_grpc p) = [(host, port, manager)] \<Longrightarrow>
    wg_dial uuid manager outcome peer_outcome (wp_grpc p) = None \<Longrightarrow>
    worker_process_step uuid p (p\<lparr>wp_grpc := (wp_grpc p)\<lparr>wg_dials := []\<rparr>, wp_out := [], wp_stopped := True\<rparr>)"
| wp_read_manager: "wg_on_manager_event uuid i e = Emit m \<Longrightarrow>
    worker_process_step uuid p (p\<lparr>wp_grpc := wp_to_service [m] (wp_grpc p)\<rparr>)"
| wp_read_worker: "wg_on_peer_event (wg_me (wp_grpc p)) i pe = Emit m \<Longrightarrow>
    worker_process_step uuid p (p\<lparr>wp_grpc := wp_to_service [m] (wp_grpc p)\<rparr>)"
| wp_manager_session_ends: "worker_process_step uuid p (p\<lparr>wp_grpc :=
    wp_to_service [WNodeDisconnected i]
      ((wp_grpc p)\<lparr>wg_manager_sessions := hm_remove i (wg_manager_sessions (wp_grpc p))\<rparr>)\<rparr>)"
| wp_worker_session_ends: "worker_process_step uuid p (p\<lparr>wp_grpc :=
    wp_to_service [WNodeDisconnected i]
      ((wp_grpc p)\<lparr>wg_worker_sessions := hm_remove i (wg_worker_sessions (wp_grpc p))\<rparr>)\<rparr>)"
| wp_closes: "worker_process_step uuid p (p\<lparr>wp_grpc := wp_close_session i (wp_grpc p)\<rparr>)"
| wp_serves: "wg_tx (wp_grpc p) = m # rest \<Longrightarrow> w_process rd m (wp_service p) = (svc, out) \<Longrightarrow>
    worker_process_step uuid p
      (p\<lparr>wp_service := svc, wp_grpc := (wp_grpc p)\<lparr>wg_tx := rest\<rparr>, wp_out := wp_to_output out p\<rparr>)"
| wp_ticks: "w_tick rd (wp_service p) = (svc, out) \<Longrightarrow>
    worker_process_step uuid p (p\<lparr>wp_service := svc, wp_out := wp_to_output out p\<rparr>)"
| wp_request: "worker_process_step uuid p (p\<lparr>wp_service := fst (serve_client now now' r (wp_service p))\<rparr>)"
| wp_cleanup: "worker_process_step uuid p (p\<lparr>wp_service := expired_cleanup now (wp_service p)\<rparr>)"
| wp_outputs: "wp_out p = m # rest \<Longrightarrow> wg_dials (wp_grpc p) = [] \<Longrightarrow> wg_output m (wp_grpc p) = Some g \<Longrightarrow>
    worker_process_step uuid p (p\<lparr>wp_grpc := g, wp_out := rest\<rparr>)"

inductive worker_process_reachable :: "(string \<Rightarrow> string option) \<Rightarrow> config \<Rightarrow> node_id \<Rightarrow> worker_process \<Rightarrow> bool" for uuid config i where
  wp_start: "worker_start config i now = Inr (Some (svc, out)) \<Longrightarrow>
    worker_process_reachable uuid config i \<lparr>wp_service = svc, wp_grpc = new_wgrpc (node_me config i), wp_out = out, wp_stopped = False\<rparr>"
| wp_step: "worker_process_reachable uuid config i p \<Longrightarrow> worker_process_step uuid p p' \<Longrightarrow>
    worker_process_reachable uuid config i p'"

section \<open>What the service sends\<close>

text \<open>The messages the output loop is written for: not those it calls unreachable or not expected.\<close>

fun w_sendable :: "worker_protocol \<Rightarrow> bool" where
  "w_sendable (WNodeDisconnected _) = False"
| "w_sendable (WClusterState _) = False"
| "w_sendable (WLeader _ _ _) = False"
| "w_sendable _ = True"

lemma w_merge_item_sendable: "list_all w_sendable (snd s) \<Longrightarrow> list_all w_sendable (snd (w_merge_item item s))"
  by (auto simp: w_merge_item_def Let_def split: prod.splits option.splits node_type.splits)

lemma w_merge_items_sendable: "list_all w_sendable (snd s) \<Longrightarrow> list_all w_sendable (snd (fold w_merge_item items s))"
  by (induction items arbitrary: s) (simp_all add: w_merge_item_sendable)

lemma ask_managers_sendable: "list_all w_sendable (ask_managers me st)"
  by (simp add: ask_managers_def list_all_iff)

lemma w_dispatch_sendable: "list_all w_sendable (snd (snd (w_dispatch me rd m st s)))"
proof (cases m)
  case (WClusterState cs)
  then show ?thesis
    by (simp add: w_handle_cluster_state_def Let_def split_beta w_merge_items_sendable)
next
  case (WSyncBatch j req)
  then show ?thesis by (auto simp: handle_sync_batch_def Let_def list_all_iff split: prod.split)
qed (auto simp: w_handle_new_connection_def w_handle_heartbeat_def w_handle_leader_def ask_managers_sendable
    w_handle_remove_old_partition_def Let_def split: prod.split option.split)


lemma sync_message_sendable: "sync_message m \<or> (\<exists>i hb. m = WHeartbeat i hb) \<Longrightarrow> w_sendable m"
  by (cases m) auto

lemma w_tick_sendable:
  assumes "worker_inv me svc" and "w_tick rd svc = (svc', out)"
  shows "worker_inv me svc' \<and> list_all w_sendable out"
  using assms(1)
proof (rule worker_invE)
  fix st assume "ws_state svc = Some st" "wstate_wf st" "store_wf (ws_runtime_store svc)"
  then have "\<forall>m\<in>set out. sync_message m \<or> (\<exists>i hb. m = WHeartbeat i hb)"
    using w_tick_keeps assms(2) by blast
  then show ?thesis using w_tick_inv [OF assms(1), of rd] assms(2) sync_message_sendable by (auto simp: list_all_iff)
qed

lemma w_process_sendable:
  assumes "worker_inv me svc" and "worker_msg_wf m" and "w_process rd m svc = (svc', out)"
  shows "worker_inv me svc' \<and> list_all w_sendable out"
  using assms
proof (rule w_process_cases)
  fix st st1 svc1 s1 out1 out2
  assume d: "w_dispatch me rd m st (ws_runtime_store svc) = (st1, s1, out1)"
    and t: "worker_inv me svc1" "w_tick rd svc1 = (svc', out2)" and out: "out = out1 @ out2"
  from w_dispatch_sendable [of me rd m st "ws_runtime_store svc"] d have "list_all w_sendable out1" by simp
  with w_tick_sendable [OF t] out show ?thesis by simp
qed

section \<open>Invariant\<close>

definition worker_process_ok :: "me \<Rightarrow> worker_process \<Rightarrow> bool" where
  "worker_process_ok me p \<longleftrightarrow> worker_inv me (wp_service p) \<and> list_all worker_msg_wf (wg_tx (wp_grpc p)) \<and>
     list_all w_sendable (wp_out p)"

lemma wg_to_keeps [simp]:
  "list_all worker_msg_wf (wg_tx (wg_to_manager e i g)) = list_all worker_msg_wf (wg_tx g)"
  "list_all worker_msg_wf (wg_tx (wg_to_worker pe i g)) = list_all worker_msg_wf (wg_tx g)"
  by (auto simp: wg_to_manager_def wg_to_worker_def split_beta Let_def list_all_iff)

lemma wg_output_keeps:
  "wg_output m g = Some g' \<Longrightarrow> list_all worker_msg_wf (wg_tx g') = list_all worker_msg_wf (wg_tx g)"
  by (cases m) (auto simp: wg_output_sync_batch_response_def wg_output_sync_batch_def
      wg_output_remove_partition_from_replica_def wg_output_heartbeat_def wg_output_get_cluster_state_def)

lemma wg_output_accepts: "w_sendable m \<Longrightarrow> wg_output m g \<noteq> None"
  by (cases m) auto

lemma wg_connections_keep:
  "wg_open_worker_connection uuid first g = (g', r) \<Longrightarrow> wg_tx g' = wg_tx g"
  "wg_dial uuid manager outcome peer_outcome g = Some (g', r') \<Longrightarrow> wg_tx g' = wg_tx g"
  by (auto simp: wg_open_worker_connection_def wg_dial_def wg_new_manager_connection_def wg_new_worker_connection_def
      wg_start_communication_with_manager_def wg_start_communication_with_worker_def
      split: option.splits peer_event.splits worker_event.splits dial_outcome.splits if_splits)

lemma worker_process_step_ok:
  assumes "worker_process_step uuid p p'" and "worker_process_ok me p"
  shows "worker_process_ok me p'"
  using assms
proof (induction rule: worker_process_step.induct)
  case (wp_accept first p g i host port)
  with wg_connections_keep(1) [OF wp_accept(1)] show ?case
    by (simp add: worker_process_ok_def wp_to_service_def wg_announce_wf)
next
  case (wp_dialled p host port manager outcome peer_outcome g i)
  with wg_connections_keep(2) [OF wp_dialled(2)] show ?case
    by (simp add: worker_process_ok_def wp_to_service_def wg_dial_announces_def wg_announce_wf)
next
  case (wp_dial_fails p host port manager outcome peer_outcome g)
  with wg_connections_keep(2) [OF wp_dial_fails(2)] show ?case by (simp add: worker_process_ok_def)
next
  case (wp_read_manager i e m p)
  with wg_on_manager_event_wf [OF wp_read_manager(1)] show ?case by (simp add: worker_process_ok_def wp_to_service_def)
next
  case (wp_read_worker p i pe m)
  with wg_on_peer_event_wf [OF wp_read_worker(1)] show ?case by (simp add: worker_process_ok_def wp_to_service_def)
next
  case (wp_serves p m rest rd svc out)
  then show ?case
    using w_process_sendable [of me "wp_service p" m rd svc out] by (simp add: worker_process_ok_def wp_to_output_def)
next
  case (wp_ticks rd p svc out)
  then show ?case
    using w_tick_sendable [of me "wp_service p" rd svc out] by (simp add: worker_process_ok_def wp_to_output_def)
next
  case (wp_request p now now' r)
  then show ?case
    by (auto simp: worker_process_ok_def worker_inv_def wservice_ok_def serve_client_def store_wf_client_request split_beta)
next
  case (wp_cleanup p now)
  then show ?case
    by (auto simp: worker_process_ok_def worker_inv_def wservice_ok_def expired_cleanup_def store_wf_remove_expired)
next
  case (wp_outputs p m rest g)
  with wg_output_keeps [OF wp_outputs(3)] show ?case by (simp add: worker_process_ok_def)
qed (auto simp: worker_process_ok_def wp_to_service_def wp_close_session_def)

lemma worker_start_sendable: "worker_start config i now = Inr (Some (svc, out)) \<Longrightarrow> list_all w_sendable out"
  by (auto simp: worker_start_def w_get_init_messages_def Let_def split: option.splits)

lemma worker_process_reachable_ok:
  "worker_process_reachable uuid config i p \<Longrightarrow> worker_process_ok (node_me config i) p"
proof (induction rule: worker_process_reachable.induct)
  case (wp_start now svc out)
  then show ?case
    using worker_started_inv worker_start_sendable by (simp add: worker_process_ok_def new_wgrpc_def)
qed (rule worker_process_step_ok)

section \<open>Properties\<close>

lemma wg_dial_panics:
  "wg_dial uuid manager outcome peer_outcome g = None \<longleftrightarrow>
     (\<exists>i. node_id_from_string uuid i = None \<and>
        (if manager then outcome = StreamOpens (Some (WEConnectResponse i))
         else peer_outcome = StreamOpens (Some (PEConnectResponse i))))"
  by (auto simp: wg_dial_def wg_new_manager_connection_def wg_new_worker_connection_def
      wg_start_communication_with_manager_def wg_start_communication_with_worker_def
      split: dial_outcome.splits option.splits worker_event.splits peer_event.splits)

lemma worker_process_stops:
  assumes "worker_process_step uuid p p'" and "wp_stopped p'"
  shows "wp_stopped p \<or> (\<exists>host port manager outcome peer_outcome j. wg_dials (wp_grpc p) = [(host, port, manager)] \<and>
      wg_dial uuid manager outcome peer_outcome (wp_grpc p) = None \<and> node_id_from_string uuid j = None \<and>
      (if manager then outcome = StreamOpens (Some (WEConnectResponse j))
       else peer_outcome = StreamOpens (Some (PEConnectResponse j))))"
  using assms by (induction rule: worker_process_step.induct) (auto simp: wg_dial_panics)

text \<open>The output loop is gone, and nothing is written: as for the manager.\<close>

definition wp_gone :: "worker_process \<Rightarrow> bool" where
  "wp_gone p \<longleftrightarrow> wp_stopped p \<and> wp_out p = [] \<and> wg_dials (wp_grpc p) = []"

definition wg_quiet :: "wgrpc \<Rightarrow> wgrpc \<Rightarrow> bool" where
  "wg_quiet g g' \<longleftrightarrow> wg_me g' = wg_me g \<and> unwritten [] (wg_manager_sessions g) (wg_manager_sessions g') \<and>
     unwritten [PEConnectResponse (node_id_to_string (me_id (wg_me g)))] (wg_worker_sessions g) (wg_worker_sessions g')"

lemma wg_quiet_refl: "wg_quiet g g"
  by (simp add: wg_quiet_def)

lemma wg_quiet_trans: "wg_quiet g g' \<Longrightarrow> wg_quiet g' g'' \<Longrightarrow> wg_quiet g g''"
  by (simp add: wg_quiet_def) (blast intro: unwritten_trans)

lemma wp_to_service_quiet [simp]:
  "wg_quiet g (wp_to_service ms g') = wg_quiet g g'" "wg_dials (wp_to_service ms g) = wg_dials g"
  by (simp_all add: wp_to_service_def wg_quiet_def)

lemma wg_accepting_quiet:
  "wg_open_worker_connection uuid first g = (g', r) \<Longrightarrow> wg_quiet g g' \<and> wg_dials g' = wg_dials g"
  by (auto simp: wg_open_worker_connection_def wg_quiet_def split: option.splits peer_event.splits)

lemma wp_gone_step:
  assumes "worker_process_step uuid p p'" and "wp_gone p"
  shows "wp_gone p' \<and> wg_quiet (wp_grpc p) (wp_grpc p')"
  using assms
  by (induction rule: worker_process_step.induct)
     (auto simp: wp_gone_def wp_to_output_def wp_close_session_def wg_quiet_refl dest!: wg_accepting_quiet,
      auto simp: wg_quiet_def)

interpretation wo: output_task "worker_process_step uuid" wp_gone "\<lambda>p p'. wg_quiet (wp_grpc p) (wp_grpc p')" for uuid
  by unfold_locales (auto dest: wp_gone_step intro: wg_quiet_refl wg_quiet_trans)

text \<open>
  C16: A worker process stays well-formed whatever happens around it. In every state a whole worker
  reaches, for any connections, any events on its streams, any requests of clients, any order of
  the ticks and clean-ups: the service has a state, whose tables and partitions are well-formed, the
  store is well-formed too, and the output loop accepts the next message of the service, which is
  none of those the loop calls unreachable or unexpected. The loop stops in one case only: it is
  dialling, and the id in the \<open>ConnectResponse\<close> it reads is none it can parse.
\<close>

theorem worker_process_stays_wf:
  assumes "worker_process_reachable uuid config i p"
  shows "(\<exists>st. ws_state (wp_service p) = Some st \<and> wstate_wf st) \<and> store_wf (ws_runtime_store (wp_service p)) \<and>
    (\<forall>m rest. wp_out p = m # rest \<longrightarrow> wg_output m (wp_grpc p) \<noteq> None \<and> w_sendable m) \<and>
    (\<forall>p'. worker_process_step uuid p p' \<longrightarrow> wp_stopped p' \<longrightarrow> wp_stopped p \<or>
      (\<exists>host port manager outcome peer_outcome j. wg_dials (wp_grpc p) = [(host, port, manager)] \<and>
         wg_dial uuid manager outcome peer_outcome (wp_grpc p) = None \<and> node_id_from_string uuid j = None \<and>
         (if manager then outcome = StreamOpens (Some (WEConnectResponse j))
          else peer_outcome = StreamOpens (Some (PEConnectResponse j)))))"
proof -
  from worker_process_reachable_ok [OF assms] have ok: "worker_inv (node_me config i) (wp_service p)"
    and out: "list_all w_sendable (wp_out p)" by (auto simp: worker_process_ok_def)
  have "\<exists>st. ws_state (wp_service p) = Some st \<and> wstate_wf st \<and> store_wf (ws_runtime_store (wp_service p))"
    by (rule worker_invE [OF ok]) blast
  moreover have "wg_output m (wp_grpc p) \<noteq> None \<and> w_sendable m" if "wp_out p = m # rest" for m rest
    using out that wg_output_accepts by simp
  ultimately show ?thesis using worker_process_stops by blast
qed

lemma demo_worker_start:
  "worker_start demo_worker_config (NodeId ''w'') 0 = Inr (Some (demo_worker, [WNewConnection None ''m'' 1 True]))"
  by (simp add: worker_start_def w_get_init_messages_def demo_worker_config_def demo_worker_def demo_worker_me_def
      demo_wstate_def node_me_def new_wservice_def Let_def)

lemma worker_process_stays_wf_witness:
  "wg_output (WNewConnection None ''m'' 1 True) (new_wgrpc (node_me demo_worker_config (NodeId ''w''))) \<noteq> None"
  using worker_process_stays_wf [OF wp_start [OF demo_worker_start, of demo_uuid]] by simp

text \<open>
  A malformed answer cuts a worker off. When the node a worker dials, its configured manager
  for one, answers with an id that is not a UUID, the output loop and its channel are gone, though the
  process goes on and serves its clients: from then on, whatever happens, the service's messages are
  discarded and nothing is written to a session but the answer to a \<open>Connect\<close>.
\<close>

theorem malformed_id_silences_worker:
  assumes "worker_process_reachable uuid config i p" and "wg_dials (wp_grpc p) = [(host, port, manager)]"
    and "node_id_from_string uuid bad = None"
  shows "wg_dial uuid manager (StreamOpens (Some (WEConnectResponse bad))) (StreamOpens (Some (PEConnectResponse bad)))
      (wp_grpc p) = None \<and>
    (let p' = p\<lparr>wp_grpc := (wp_grpc p)\<lparr>wg_dials := []\<rparr>, wp_out := [], wp_stopped := True\<rparr>
     in worker_process_step uuid p p' \<and>
        (\<forall>p''. (worker_process_step uuid)\<^sup>*\<^sup>* p' p'' \<longrightarrow>
           worker_process_reachable uuid config i p'' \<and> wp_out p'' = [] \<and> wg_dials (wp_grpc p'') = [] \<and>
           wg_quiet (wp_grpc p) (wp_grpc p'')))"
proof -
  let ?o = "StreamOpens (Some (WEConnectResponse bad))" and ?po = "StreamOpens (Some (PEConnectResponse bad))"
  have panic: "wg_dial uuid manager ?o ?po (wp_grpc p) = None"
    using assms(3) by (simp add: wg_dial_panics)
  let ?p = "p\<lparr>wp_grpc := (wp_grpc p)\<lparr>wg_dials := []\<rparr>, wp_out := [], wp_stopped := True\<rparr>"
  have step: "worker_process_step uuid p ?p" using wp_dial_panics [OF assms(2) panic] .
  have "worker_process_reachable uuid config i p''" if "(worker_process_step uuid)\<^sup>*\<^sup>* ?p p''" for p''
    using that by (induction rule: rtranclp_induct) (blast intro: wp_step assms(1) step)+
  moreover have "wp_gone p'' \<and> wg_quiet (wp_grpc p) (wp_grpc p'')" if "(worker_process_step uuid)\<^sup>*\<^sup>* ?p p''" for p''
    using wo.run_gone [OF that] by (simp add: wp_gone_def wg_quiet_def)
  ultimately show ?thesis using panic step unfolding Let_def wp_gone_def by blast
qed

text \<open>The worker of the examples, and the state in which its output loop dials the configured manager.\<close>

abbreviation demo_process_start :: worker_process where
  "demo_process_start \<equiv> \<lparr>wp_service = demo_worker, wp_grpc = new_wgrpc (node_me demo_worker_config (NodeId ''w'')),
     wp_out = [WNewConnection None ''m'' 1 True], wp_stopped = False\<rparr>"

lemma demo_process_reachable: "worker_process_reachable uuid demo_worker_config (NodeId ''w'') demo_process_start"
  using wp_start [OF demo_worker_start, of uuid] by simp

lemma malformed_id_silences_worker_witness:
  "\<exists>p. worker_process_reachable demo_uuid demo_worker_config (NodeId ''w'') p \<and> wp_stopped p"
proof -
  let ?p = demo_process_start
  have "worker_process_step demo_uuid ?p
      (?p\<lparr>wp_grpc := (wp_grpc ?p)\<lparr>wg_dials := [(''m'', 1, True)]\<rparr>, wp_out := []\<rparr>)" (is "worker_process_step _ _ ?p'")
    by (rule wp_outputs [of _ "WNewConnection None ''m'' 1 True" "[]"]) (simp_all add: new_wgrpc_def)
  with demo_process_reachable have r: "worker_process_reachable demo_uuid demo_worker_config (NodeId ''w'') ?p'"
    by (rule wp_step)
  have "node_id_from_string demo_uuid '''' = None" by (simp add: node_id_from_string_def demo_uuid_def)
  from malformed_id_silences_worker [OF r _ this, of "''m''" 1 True] show ?thesis by (fastforce simp: Let_def)
qed

section \<open>A worker among managers\<close>

text \<open>
  What a worker never writes to a manager, whatever its sessions: the question for the cluster state.
\<close>

definition unasked :: "wgrpc \<Rightarrow> bool" where
  "unasked g \<longleftrightarrow> (\<forall>j s. hm_get (wg_manager_sessions g) j = Some s \<longrightarrow> WEGetClusterState \<notin> set (sent s))"

definition never_asks :: "worker_process \<Rightarrow> bool" where
  "never_asks p \<longleftrightarrow> (\<forall>j. WGetClusterState j \<notin> set (wp_out p)) \<and> unasked (wp_grpc p)"

lemma wg_to_manager_asks: "e \<noteq> WEGetClusterState \<Longrightarrow> unasked g \<Longrightarrow> unasked (wg_to_manager e i g)"
  by (auto simp: unasked_def wg_to_manager_def handle_common_def session_send_def split: option.splits if_splits)

lemma wg_to_worker_asks: "unasked (wg_to_worker pe i g) = unasked g"
  by (simp add: unasked_def wg_to_worker_def split_beta)

lemma wg_output_asks:
  "wg_output m g = Some g' \<Longrightarrow> \<forall>j. m \<noteq> WGetClusterState j \<Longrightarrow> unasked g \<Longrightarrow> unasked g'"
  by (cases m) (auto simp: wg_output_sync_batch_response_def wg_output_sync_batch_def wg_to_worker_asks
      wg_output_remove_partition_from_replica_def wg_output_heartbeat_def wg_to_manager_asks, simp add: unasked_def)

lemma w_process_never_asks:
  assumes "worker_inv me svc" and "worker_msg_wf m" and "w_process rd m svc = (svc', out)"
  shows "WGetClusterState j \<notin> set out"
  using assms by (rule w_process_cases) auto

lemma w_tick_never_asks:
  assumes "worker_inv me svc" and "w_tick rd svc = (svc', out)"
  shows "WGetClusterState j \<notin> set out"
  using assms(1)
proof (rule worker_invE)
  fix st assume "ws_state svc = Some st" "wstate_wf st" "store_wf (ws_runtime_store svc)"
  from w_tick_keeps [OF this assms(2)] show ?thesis by auto
qed

lemma never_asks_step:
  assumes "worker_process_step uuid p p'" and "worker_process_ok me p" and "never_asks p"
  shows "never_asks p'"
  using assms
proof (induction rule: worker_process_step.induct)
  case (wp_accept first p g i host port)
  then have "wg_manager_sessions g = wg_manager_sessions (wp_grpc p)"
    by (auto simp: wg_open_worker_connection_def split: option.splits peer_event.splits)
  with wp_accept show ?case by (simp add: never_asks_def unasked_def wp_to_service_def)
next
  case (wp_dialled p host port manager outcome peer_outcome g i)
  then show ?case
    by (auto simp: never_asks_def unasked_def wp_to_service_def wg_dial_def wg_new_manager_connection_def wg_new_worker_connection_def
        wg_start_communication_with_manager_def wg_start_communication_with_worker_def open_session_def
        split: if_splits option.splits dial_outcome.splits worker_event.splits peer_event.splits)
next
  case (wp_dial_fails p host port manager outcome peer_outcome g)
  then have "g = wp_grpc p"
    by (auto simp: wg_dial_def wg_new_manager_connection_def wg_new_worker_connection_def
        wg_start_communication_with_manager_def wg_start_communication_with_worker_def
        split: if_splits option.splits dial_outcome.splits worker_event.splits peer_event.splits)
  with wp_dial_fails show ?case by (simp add: never_asks_def unasked_def)
next
  case (wp_serves p m rest rd svc out)
  then have "WGetClusterState j \<notin> set out" for j
    using w_process_never_asks [of me "wp_service p" m rd svc out] by (simp add: worker_process_ok_def)
  with wp_serves show ?case by (auto simp: never_asks_def unasked_def wp_to_output_def)
next
  case (wp_ticks rd p svc out)
  then have "WGetClusterState j \<notin> set out" for j
    using w_tick_never_asks [of me "wp_service p" rd svc out] by (simp add: worker_process_ok_def)
  with wp_ticks show ?case by (auto simp: never_asks_def unasked_def wp_to_output_def)
next
  case (wp_outputs p m rest g)
  then have "unasked g" by (intro wg_output_asks [OF wp_outputs(3)]) (auto simp: never_asks_def)
  with wp_outputs show ?case by (auto simp: never_asks_def)
qed (auto simp: never_asks_def unasked_def wp_to_service_def wp_close_session_def split: if_splits)

lemma worker_process_never_asks: "worker_process_reachable uuid config i p \<Longrightarrow> never_asks p"
proof (induction rule: worker_process_reachable.induct)
  case (wp_start now svc out)
  then show ?case
    by (auto simp: never_asks_def unasked_def new_wgrpc_def worker_start_def w_get_init_messages_def Let_def split: option.splits)
next
  case (wp_step p p')
  then show ?case using never_asks_step worker_process_reachable_ok by blast
qed

text \<open>
  A worker with nothing to dial, and the steps after which no cluster state that lists nodes waits for
  its service.
\<close>

fun lists_nodes :: "worker_protocol \<Rightarrow> bool" where
  "lists_nodes (WClusterState cs) = (cs_nodes cs \<noteq> [])"
| "lists_nodes _ = False"

fun dial_request :: "worker_protocol \<Rightarrow> bool" where
  "dial_request (WNewConnection _ _ _ _) = True"
| "dial_request _ = False"

definition dials_nobody :: "worker_process \<Rightarrow> bool" where
  "dials_nobody p \<longleftrightarrow> wg_dials (wp_grpc p) = [] \<and> list_all (\<lambda>m. \<not> dial_request m) (wp_out p) \<and>
     list_all (\<lambda>m. \<not> lists_nodes m) (wg_tx (wp_grpc p))"

definition unlisted_step :: "(string \<Rightarrow> string option) \<Rightarrow> worker_process \<Rightarrow> worker_process \<Rightarrow> bool" where
  "unlisted_step uuid p p' \<longleftrightarrow> worker_process_step uuid p p' \<and> list_all (\<lambda>m. \<not> lists_nodes m) (wg_tx (wp_grpc p'))"

lemma w_process_dials:
  assumes "worker_inv me svc" and "worker_msg_wf m" and "w_process rd m svc = (svc', out)" and "\<not> lists_nodes m"
  shows "list_all (\<lambda>m. \<not> dial_request m) out"
  using assms(1-3)
proof (rule w_process_cases)
  fix st st1 s1 out1 out2
  assume d: "w_dispatch me rd m st (ws_runtime_store svc) = (st1, s1, out1)" and out: "out = out1 @ out2"
    and out2: "\<forall>m\<in>set out2. sync_message m \<or> (\<exists>i hb. m = WHeartbeat i hb)"
  have "\<not> dial_request x" if "x \<in> set out1" for x
    using w_dispatch_dials [OF d] that assms(4) by (cases x) fastforce+
  moreover have "\<not> dial_request x" if "x \<in> set out2" for x
    using out2 that by (cases x) auto
  ultimately show ?thesis by (auto simp: out list_all_iff)
qed

lemma w_tick_dials:
  assumes "worker_inv me svc" and "w_tick rd svc = (svc', out)"
  shows "list_all (\<lambda>m. \<not> dial_request m) out"
  using assms(1)
proof (rule worker_invE)
  fix st assume "ws_state svc = Some st" "wstate_wf st" "store_wf (ws_runtime_store svc)"
  from w_tick_keeps [OF this assms(2)] have "\<forall>m\<in>set out. sync_message m \<or> (\<exists>i hb. m = WHeartbeat i hb)" by auto
  then show ?thesis by (auto simp: list_all_iff elim!: sync_message.elims)
qed

lemma wg_output_dials: "wg_output m g = Some g' \<Longrightarrow> \<not> dial_request m \<Longrightarrow> wg_dials g' = wg_dials g"
  by (cases m) (auto simp: wg_output_sync_batch_response_def wg_output_sync_batch_def wg_to_worker_def wg_to_manager_def
      wg_output_remove_partition_from_replica_def wg_output_heartbeat_def wg_output_get_cluster_state_def split_beta)

lemma dials_nobody_step:
  assumes "unlisted_step uuid p p'" and "worker_process_ok me p" and "dials_nobody p"
  shows "dials_nobody p'"
proof -
  have tx: "list_all (\<lambda>m. \<not> lists_nodes m) (wg_tx (wp_grpc p'))" using assms(1) by (simp add: unlisted_step_def)
  have "worker_process_step uuid p p'" using assms(1) by (simp add: unlisted_step_def)
  then have "wg_dials (wp_grpc p') = [] \<and> list_all (\<lambda>m. \<not> dial_request m) (wp_out p')"
    using assms(2,3)
  proof (induction rule: worker_process_step.induct)
    case (wp_accept first p g i host port)
    with wg_accepting_quiet [OF wp_accept(1)] show ?case by (simp add: dials_nobody_def)
  next
    case (wp_serves p m rest rd svc out)
    then show ?case using w_process_dials [of me "wp_service p" m rd svc out]
      by (auto simp: dials_nobody_def worker_process_ok_def wp_to_output_def)
  next
    case (wp_ticks rd p svc out)
    then show ?case using w_tick_dials [of me "wp_service p" rd svc out]
      by (auto simp: dials_nobody_def worker_process_ok_def wp_to_output_def)
  next
    case (wp_outputs p m rest g)
    with wg_output_dials [OF wp_outputs(3)] show ?case by (auto simp: dials_nobody_def)
  qed (auto simp: dials_nobody_def wp_close_session_def)
  with tx show ?thesis by (simp add: dials_nobody_def)
qed

lemma dials_nobody_run:
  assumes "(unlisted_step uuid)\<^sup>*\<^sup>* p p'" and "worker_process_reachable uuid config i p" and "dials_nobody p"
  shows "worker_process_reachable uuid config i p' \<and> dials_nobody p'"
  using assms
proof (induction rule: rtranclp_induct)
  case (step y z)
  then have y: "worker_process_reachable uuid config i y" "dials_nobody y" by auto
  have "dials_nobody z" by (rule dials_nobody_step [OF step(2) worker_process_reachable_ok [OF y(1)] y(2)])
  moreover have "worker_process_reachable uuid config i z"
    using wp_step [OF y(1)] step(2) by (simp add: unlisted_step_def)
  ultimately show ?case by blast
qed simp

text \<open>
  C35: A worker never finds its peers. The reader of a session with a manager announces it as one with
  a worker, so in every state a whole worker reaches, whatever arrives on its streams: its node table has no
  manager; it has never written a question for the cluster state to a session; an announced leader that it
  takes up next changes neither its epoch nor its leader. And once its first dial is done, it dials nobody
  in any run in which the cluster states that arrive list no nodes, as the leader's broadcasts do.
\<close>

theorem worker_stays_isolated:
  assumes "worker_process_reachable uuid config i p"
  shows "(\<exists>st. ws_state (wp_service p) = Some st \<and>
      (\<forall>j n. hm_get (w_nodes st) j = Some n \<longrightarrow> n_node_type n = Worker) \<and>
      (\<forall>l epoch ts rest rd svc' out st'. wg_tx (wp_grpc p) = WLeader l epoch ts # rest \<longrightarrow>
         w_process rd (WLeader l epoch ts) (wp_service p) = (svc', out) \<longrightarrow> ws_state svc' = Some st' \<longrightarrow>
         w_epoch st' = w_epoch st \<and> w_elected_leader_id st' = w_elected_leader_id st)) \<and>
    (\<forall>j s. hm_get (wg_manager_sessions (wp_grpc p)) j = Some s \<longrightarrow> WEGetClusterState \<notin> set (sent s)) \<and>
    (\<forall>p'. dials_nobody p \<longrightarrow> (unlisted_step uuid)\<^sup>*\<^sup>* p p' \<longrightarrow> wg_dials (wp_grpc p') = [])"
proof -
  from worker_process_reachable_ok [OF assms] have inv: "worker_inv (node_me config i) (wp_service p)"
    by (simp add: worker_process_ok_def)
  then obtain st where st: "ws_state (wp_service p) = Some st" "no_managers st" by (blast elim: worker_invE)
  have leader: "w_epoch st' = w_epoch st \<and> w_elected_leader_id st' = w_elected_leader_id st"
    if "w_process rd (WLeader l epoch ts) (wp_service p) = (svc', out)" "ws_state svc' = Some st'"
    for rd l epoch ts svc' out st'
    by (rule w_process_cases [OF inv _ that(1)])
      (use st that(2) no_managers_get in \<open>auto simp: w_handle_leader_def split: if_splits option.splits\<close>)
  have "dials_nobody p \<Longrightarrow> (unlisted_step uuid)\<^sup>*\<^sup>* p p' \<Longrightarrow> wg_dials (wp_grpc p') = []" for p'
    using dials_nobody_run [OF _ assms] by (auto simp: dials_nobody_def)
  with st leader no_managers_get worker_process_never_asks [OF assms] show ?thesis
    unfolding never_asks_def unasked_def by blast
qed

lemma worker_stays_isolated_witness:
  "\<exists>p s. worker_process_reachable demo_uuid demo_worker_config (NodeId ''w'') p \<and>
     hm_get (wg_manager_sessions (wp_grpc p)) (NodeId ''m'') = Some s \<and> WEGetClusterState \<notin> set (sent s)"
proof -
  let ?p = demo_process_start
  let ?p1 = "?p\<lparr>wp_grpc := (wp_grpc ?p)\<lparr>wg_dials := [(''m'', 1, True)]\<rparr>, wp_out := []\<rparr>"
  have "worker_process_step demo_uuid ?p ?p1"
    by (rule wp_outputs [of _ "WNewConnection None ''m'' 1 True" "[]"]) (simp_all add: new_wgrpc_def)
  with demo_process_reachable have r: "worker_process_reachable demo_uuid demo_worker_config (NodeId ''w'') ?p1"
    by (rule wp_step)
  have id: "node_id_from_string demo_uuid ''m'' = Some (NodeId ''m'')" by (simp add: node_id_from_string_def demo_uuid_def)
  have "wg_dial demo_uuid True (StreamOpens (Some (WEConnectResponse ''m''))) po (wp_grpc ?p1) =
      wg_start_communication_with_manager demo_uuid (Some (WEConnectResponse ''m'')) (wp_grpc ?p1)" for po
    by (simp add: wg_dial_def wg_new_manager_connection_def)
  then obtain g where d: "wg_dial demo_uuid True (StreamOpens (Some (WEConnectResponse ''m''))) (ConnectFails '''') (wp_grpc ?p1) =
      Some (g, Some (NodeId ''m''))" and g: "hm_get (wg_manager_sessions g) (NodeId ''m'') \<noteq> None"
    by (simp add: wg_start_communication_with_manager_def id)
  have "wg_dials (wp_grpc ?p1) = [(''m'', 1, True)]" by simp
  from wp_step [OF r wp_dialled [OF this d]] worker_stays_isolated g show ?thesis
    by (fastforce simp: wp_to_service_def)
qed

end
