(* ===== verification/Bounded_Channels.thy ===== *)
theory Bounded_Channels
  imports Manager_Node Worker_Process
begin

text \<open>
  The two channels between the service of a node and its gRPC layer are bounded
  (\<open>CHANNEL_BUFFER_SIZE\<close> in \<open>manager/mod.rs\<close> and \<open>worker/mod.rs\<close>), the channel of each session too
  (\<open>GRPC_CONNECTION_CHANNEL_BUFFER_SIZE\<close> in the two \<open>grpc.rs\<close>), and a send waits while its channel is full.
  \<open>Manager_Node\<close> and \<open>Worker_Process\<close> leave the channels unbounded; here the tasks are modelled with
  their waiting. The loop of \<open>start_service\<close> sends what one message or tick produced one by one
  before it takes the next; the output loop waits while it dials, while the session it writes to is
  full, and when it reports a closed session to the service; readers of streams wait when the
  service's channel is full. Here the list \<open>sent\<close> of a session is what its channel holds: the
  transport takes from its front.

  One transition system covers both kinds of node: its parameters are what the service does with a
  message and on a tick, what the output loop does with a message, and what happens around it. The
  locale states what the two nodes have in common, both are interpretations. A message for several
  sessions is written to all of them at once, when none is full, and a message that reports closed
  sessions is carried out first and reports them then. When the output loop panics, what is queued for
  it is lost and what the service sends later is discarded.
\<close>

section \<open>Tasks and channels\<close>

record ('s, 'g, 'm) tasks =
  t_service :: 's
  t_grpc :: 'g
  t_in :: "'m list"
  t_out :: "'m list"
  t_pending :: "'m list"
  t_sending :: "'m option"
  t_report :: "'m list"
  t_stopped :: bool

record ('s, 'g, 'm) wiring =
  w_cap :: nat
  w_serve :: "'g \<Rightarrow> 'm \<Rightarrow> 's \<Rightarrow> 's \<times> 'm list \<Rightarrow> bool"
  w_ticks :: "'g \<Rightarrow> 's \<Rightarrow> 's \<times> 'm list \<Rightarrow> bool"
  w_full :: "'m \<Rightarrow> 'g \<Rightarrow> bool"
  w_outputs :: "'m \<Rightarrow> 'g \<Rightarrow> 'g \<times> 'm list \<Rightarrow> bool"
  w_busy :: "'g \<Rightarrow> bool"
  w_panics :: "'g \<Rightarrow> 'g \<Rightarrow> bool"
  w_arrives :: "'g \<Rightarrow> 'm \<Rightarrow> bool"
  w_around :: "'g \<Rightarrow> 'g \<Rightarrow> bool"
  w_closes :: "'g \<Rightarrow> 'g \<Rightarrow> bool"
  w_aside :: "'s \<Rightarrow> 's \<Rightarrow> bool"

text \<open>
  The service and the output loop. The service handles a message when it has sent all that the last
  one produced. The output loop takes a message, writes it when the session has room, and reports.
\<close>

inductive loop_step :: "('s, 'g, 'm) wiring \<Rightarrow> ('s, 'g, 'm) tasks \<Rightarrow> ('s, 'g, 'm) tasks \<Rightarrow> bool" for w where
  serve: "t_pending x = [] \<Longrightarrow> t_in x = m # rest \<Longrightarrow> w_serve w (t_grpc x) m (t_service x) (s, out) \<Longrightarrow>
    loop_step w x (x\<lparr>t_service := s, t_in := rest, t_pending := out\<rparr>)"
| send: "t_pending x = m # rest \<Longrightarrow> \<not> t_stopped x \<Longrightarrow> length (t_out x) < w_cap w \<Longrightarrow>
    loop_step w x (x\<lparr>t_out := t_out x @ [m], t_pending := rest\<rparr>)"
| discard: "t_pending x = m # rest \<Longrightarrow> t_stopped x \<Longrightarrow> loop_step w x (x\<lparr>t_pending := rest\<rparr>)"
| take: "t_report x = [] \<Longrightarrow> t_sending x = None \<Longrightarrow> \<not> w_busy w (t_grpc x) \<Longrightarrow> \<not> t_stopped x \<Longrightarrow> t_out x = m # rest \<Longrightarrow>
    loop_step w x (x\<lparr>t_out := rest, t_sending := Some m\<rparr>)"
| deliver: "t_report x = [] \<Longrightarrow> t_sending x = Some m \<Longrightarrow> \<not> w_full w m (t_grpc x) \<Longrightarrow> w_outputs w m (t_grpc x) (g, ms) \<Longrightarrow>
    loop_step w x (x\<lparr>t_grpc := g, t_sending := None, t_report := ms\<rparr>)"
| report: "t_report x = m # rest \<Longrightarrow> length (t_in x) < w_cap w \<Longrightarrow>
    loop_step w x (x\<lparr>t_in := t_in x @ [m], t_report := rest\<rparr>)"

text \<open>
  These loops, the timer, and the other tasks of the node. When a session that the output loop waits
  for closes, the send fails and the message is dropped; when the answer to a dial is malformed the
  loop ends.
\<close>

inductive task_step :: "('s, 'g, 'm) wiring \<Rightarrow> ('s, 'g, 'm) tasks \<Rightarrow> ('s, 'g, 'm) tasks \<Rightarrow> bool" for w where
  loops: "loop_step w x x' \<Longrightarrow> task_step w x x'"
| timer: "t_pending x = [] \<Longrightarrow> w_ticks w (t_grpc x) (t_service x) (s, out) \<Longrightarrow>
    task_step w x (x\<lparr>t_service := s, t_pending := out\<rparr>)"
| arrival: "w_arrives w (t_grpc x) m \<Longrightarrow> length (t_in x) < w_cap w \<Longrightarrow> task_step w x (x\<lparr>t_in := t_in x @ [m]\<rparr>)"
| around: "w_around w (t_grpc x) g \<Longrightarrow> task_step w x (x\<lparr>t_grpc := g\<rparr>)"
| loses: "t_report x = [] \<Longrightarrow> t_sending x = Some m \<Longrightarrow> w_full w m (t_grpc x) \<Longrightarrow> w_closes w (t_grpc x) g \<Longrightarrow> \<not> w_full w m g \<Longrightarrow>
    task_step w x (x\<lparr>t_grpc := g, t_sending := None\<rparr>)"
| panic: "t_report x = [] \<Longrightarrow> t_sending x = None \<Longrightarrow> \<not> t_stopped x \<Longrightarrow> w_panics w (t_grpc x) g \<Longrightarrow>
    task_step w x (x\<lparr>t_grpc := g, t_out := [], t_stopped := True\<rparr>)"
| aside: "w_aside w (t_service x) s \<Longrightarrow> task_step w x (x\<lparr>t_service := s\<rparr>)"

inductive_cases loop_stepE: "loop_step w x x'"

definition tasks_start :: "'s \<Rightarrow> 'g \<Rightarrow> 'm list \<Rightarrow> ('s, 'g, 'm) tasks" where
  "tasks_start s g init = \<lparr>t_service = s, t_grpc = g, t_in = [], t_out = [], t_pending = init, t_sending = None,
     t_report = [], t_stopped = False\<rparr>"

text \<open>The service waits for the output loop, and the output loop for the service.\<close>

definition deadlocked :: "('s, 'g, 'm) wiring \<Rightarrow> ('s, 'g, 'm) tasks \<Rightarrow> bool" where
  "deadlocked w x \<longleftrightarrow> \<not> t_stopped x \<and> t_pending x \<noteq> [] \<and> w_cap w \<le> length (t_out x) \<and>
     t_report x \<noteq> [] \<and> w_cap w \<le> length (t_in x)"

text \<open>The output loop waits for a session.\<close>

definition session_waits :: "('s, 'g, 'm) wiring \<Rightarrow> ('s, 'g, 'm) tasks \<Rightarrow> bool" where
  "session_waits w x \<longleftrightarrow> t_report x = [] \<and> (\<exists>m. t_sending x = Some m \<and> w_full w m (t_grpc x))"

definition waiting :: "('s, 'g, 'm) tasks \<Rightarrow> bool" where
  "waiting x \<longleftrightarrow> t_in x \<noteq> [] \<or> t_out x \<noteq> [] \<or> t_pending x \<noteq> [] \<or> t_sending x \<noteq> None \<or> t_report x \<noteq> []"

definition in_bounds :: "('s, 'g, 'm) wiring \<Rightarrow> ('s, 'g, 'm) tasks \<Rightarrow> bool" where
  "in_bounds w x \<longleftrightarrow> length (t_in x) \<le> w_cap w \<and> length (t_out x) \<le> w_cap w"

definition stopped_ok :: "('s, 'g, 'm) tasks \<Rightarrow> bool" where
  "stopped_ok x \<longleftrightarrow> (t_stopped x \<longrightarrow> t_out x = [] \<and> t_sending x = None \<and> t_report x = []) \<and>
     (t_sending x \<noteq> None \<longrightarrow> t_report x = [])"

text \<open>The messages of the two directions, on their way or about to be sent.\<close>

abbreviation inbound :: "('s, 'g, 'm) tasks \<Rightarrow> 'm list" where
  "inbound x \<equiv> t_in x @ t_report x"

abbreviation outbound :: "('s, 'g, 'm) tasks \<Rightarrow> 'm list" where
  "outbound x \<equiv> t_out x @ t_pending x @ (case t_sending x of None \<Rightarrow> [] | Some m \<Rightarrow> [m])"

section \<open>What holds of every node\<close>

lemma deadlocked_loops: "deadlocked w x \<Longrightarrow> \<not> loop_step w x x'"
  by (auto simp: deadlocked_def elim!: loop_stepE)

text \<open>In a deadlock only sessions and what others do to the service's data still change.\<close>

definition same_queues :: "('s, 'g, 'm) tasks \<Rightarrow> ('s, 'g, 'm) tasks \<Rightarrow> bool" where
  "same_queues x y \<longleftrightarrow> t_in y = t_in x \<and> t_out y = t_out x \<and> t_pending y = t_pending x \<and> t_report y = t_report x"

lemma deadlocked_step:
  "task_step w x x' \<Longrightarrow> deadlocked w x \<Longrightarrow> deadlocked w x' \<and> same_queues x x'"
  by (induction rule: task_step.induct) (auto simp: deadlocked_loops, auto simp: deadlocked_def same_queues_def)

lemma deadlocked_run:
  "(task_step w)\<^sup>*\<^sup>* x x' \<Longrightarrow> deadlocked w x \<Longrightarrow> deadlocked w x' \<and> same_queues x x'"
proof (induction rule: rtranclp_induct)
  case base
  then show ?case by (simp add: same_queues_def)
next
  case (step y z)
  with deadlocked_step [OF step(2)] show ?case by (auto simp: same_queues_def)
qed

text \<open>
  The interface: an invariant of service and gRPC layer, what messages may be on their way, and that
  both loops handle such messages.
\<close>

locale task_system =
  fixes w :: "('s, 'g, 'm) wiring" and inv :: "'s \<Rightarrow> bool" and ginv :: "'g \<Rightarrow> bool"
    and in_ok :: "'m \<Rightarrow> bool" and out_ok :: "'m \<Rightarrow> bool"
  assumes cap: "0 < w_cap w"
    and serves: "inv s \<Longrightarrow> ginv g \<Longrightarrow> in_ok m \<Longrightarrow> \<exists>r. w_serve w g m s r"
    and served: "inv s \<Longrightarrow> ginv g \<Longrightarrow> in_ok m \<Longrightarrow> w_serve w g m s (s', out) \<Longrightarrow> inv s' \<and> list_all out_ok out"
    and ticked: "inv s \<Longrightarrow> ginv g \<Longrightarrow> w_ticks w g s (s', out) \<Longrightarrow> inv s' \<and> list_all out_ok out"
    and outputs: "ginv g \<Longrightarrow> out_ok m \<Longrightarrow> \<exists>r. w_outputs w m g r"
    and output_done: "ginv g \<Longrightarrow> w_outputs w m g (g', ms) \<Longrightarrow> ginv g' \<and> list_all in_ok ms"
    and arrived: "ginv g \<Longrightarrow> w_arrives w g m \<Longrightarrow> in_ok m"
    and changed: "ginv g \<Longrightarrow> w_around w g g' \<Longrightarrow> ginv g'"
    and closed_off: "ginv g \<Longrightarrow> w_closes w g g' \<Longrightarrow> ginv g'"
    and panicked: "ginv g \<Longrightarrow> w_panics w g g' \<Longrightarrow> ginv g'"
    and set_aside: "inv s \<Longrightarrow> w_aside w s s' \<Longrightarrow> inv s'"
begin

definition tasks_ok :: "('s, 'g, 'm) tasks \<Rightarrow> bool" where
  "tasks_ok x \<longleftrightarrow> inv (t_service x) \<and> ginv (t_grpc x) \<and> list_all in_ok (inbound x) \<and> list_all out_ok (outbound x) \<and>
     in_bounds w x \<and> stopped_ok x"

lemma loop_step_ok: "loop_step w x x' \<Longrightarrow> tasks_ok x \<Longrightarrow> tasks_ok x'"
proof (induction rule: loop_step.induct)
  case (serve x m rest s out)
  with served [OF _ _ _ serve(3)] show ?case by (auto simp: tasks_ok_def in_bounds_def stopped_ok_def)
next
  case (deliver x m g ms)
  with output_done [OF _ deliver(4)] show ?case by (auto simp: tasks_ok_def in_bounds_def stopped_ok_def)
qed (auto simp: tasks_ok_def in_bounds_def stopped_ok_def)

lemma task_step_ok: "task_step w x x' \<Longrightarrow> tasks_ok x \<Longrightarrow> tasks_ok x'"
proof (induction rule: task_step.induct)
  case (loops x x')
  then show ?case by (rule loop_step_ok)
next
  case (timer x s out)
  with ticked [OF _ _ timer(2)] show ?case by (auto simp: tasks_ok_def in_bounds_def stopped_ok_def)
next
  case (arrival x m)
  with arrived [OF _ arrival(1)] show ?case by (auto simp: tasks_ok_def in_bounds_def stopped_ok_def)
next
  case (loses x m g)
  with closed_off [OF _ loses(4)] show ?case by (auto simp: tasks_ok_def in_bounds_def stopped_ok_def)
next
  case (panic x g)
  with panicked [OF _ panic(4)] show ?case by (auto simp: tasks_ok_def in_bounds_def stopped_ok_def)
qed (auto simp: tasks_ok_def in_bounds_def stopped_ok_def dest: changed set_aside)

lemma start_ok: "inv s \<Longrightarrow> ginv g \<Longrightarrow> list_all out_ok init \<Longrightarrow> tasks_ok (tasks_start s g init)"
  by (simp add: tasks_ok_def tasks_start_def in_bounds_def stopped_ok_def)

lemma run_ok: "(task_step w)\<^sup>*\<^sup>* x x' \<Longrightarrow> tasks_ok x \<Longrightarrow> tasks_ok x'"
  by (induction rule: rtranclp_induct) (blast intro: task_step_ok)+

text \<open>The output loop moves on unless it dials, waits for a session or waits for the service.\<close>

lemma output_moves:
  assumes "tasks_ok x" and "\<not> w_busy w (t_grpc x)" and "\<not> session_waits w x"
    and "t_out x \<noteq> [] \<or> t_sending x \<noteq> None \<or> t_report x \<noteq> []" and "t_report x \<noteq> [] \<longrightarrow> length (t_in x) < w_cap w"
  shows "\<exists>x'. loop_step w x x'"
proof (cases "t_report x")
  case (Cons m rest)
  with assms(5) have "length (t_in x) < w_cap w" by simp
  with report [OF Cons] show ?thesis by blast
next
  case Nil
  show ?thesis
  proof (cases "t_sending x")
    case None
    with Nil assms(4) obtain m rest where "t_out x = m # rest" by (cases "t_out x") auto
    moreover from this assms(1) have "\<not> t_stopped x" by (auto simp: tasks_ok_def stopped_ok_def)
    ultimately show ?thesis using take [OF Nil None assms(2)] by blast
  next
    case (Some m)
    with assms(1,3) Nil have "out_ok m" "\<not> w_full w m (t_grpc x)" "ginv (t_grpc x)"
      by (auto simp: tasks_ok_def session_waits_def)
    moreover from this outputs obtain g ms where "w_outputs w m (t_grpc x) (g, ms)" by (metis surj_pair)
    ultimately show ?thesis using deliver [OF Nil Some] by blast
  qed
qed

text \<open>
  While the output loop neither dials nor waits for a session, the loops get stuck in a deadlock and
  nowhere else.
\<close>

lemma stuck_iff_deadlocked:
  assumes "tasks_ok x" and "waiting x" and "\<not> w_busy w (t_grpc x)" and "\<not> session_waits w x"
  shows "(\<nexists>x'. loop_step w x x') \<longleftrightarrow> deadlocked w x"
proof
  assume stuck: "\<nexists>x'. loop_step w x x'"
  note moves = output_moves [OF assms(1,3,4)]
  have no_send: "t_pending x \<noteq> [] \<Longrightarrow> \<not> t_stopped x \<and> w_cap w \<le> length (t_out x)"
    using stuck send [of x _ _ w] discard [of x _ _ w] by (metis neq_Nil_conv not_le_imp_less)
  have no_serve: "t_pending x = [] \<Longrightarrow> t_in x = []"
  proof (rule ccontr)
    assume p: "t_pending x = []" and "t_in x \<noteq> []"
    then obtain m rest where m: "t_in x = m # rest" by (cases "t_in x") auto
    with assms(1) have "in_ok m" by (simp add: tasks_ok_def)
    with serves assms(1) obtain s out where "w_serve w (t_grpc x) m (t_service x) (s, out)"
      by (fastforce simp: tasks_ok_def)
    with stuck serve [OF p m] show False by blast
  qed
  show "deadlocked w x"
  proof (cases "t_pending x = []")
    case True
    with no_serve assms(2) cap moves stuck show ?thesis by (auto simp: waiting_def)
  next
    case False
    with no_send cap have out: "\<not> t_stopped x" "w_cap w \<le> length (t_out x)" "t_out x \<noteq> []" by auto
    with moves stuck have "t_report x \<noteq> [] \<and> \<not> length (t_in x) < w_cap w" by blast
    with out False show ?thesis by (simp add: deadlocked_def)
  qed
qed (use deadlocked_loops in blast)

end

section \<open>The manager\<close>

definition CHANNEL_BUFFER_SIZE :: nat where
  "CHANNEL_BUFFER_SIZE = 100"

definition GRPC_CONNECTION_CHANNEL_BUFFER_SIZE :: nat where
  "GRPC_CONNECTION_CHANNEL_BUFFER_SIZE = 32"

text \<open>A send to this session waits: its channel is open and has no room.\<close>

definition session_full :: "(node_id, 'e session) hash_map \<Rightarrow> node_id \<Rightarrow> bool" where
  "session_full sessions i =
     (case hm_get sessions i of
        None \<Rightarrow> False
      | Some s \<Rightarrow> \<not> closed s \<and> GRPC_CONNECTION_CHANNEL_BUFFER_SIZE \<le> length (sent s))"

text \<open>The transport takes the oldest event of a session.\<close>

definition session_drains :: "'e session \<Rightarrow> 'e session" where
  "session_drains s = s\<lparr>sent := tl (sent s)\<rparr>"

text \<open>
  The gRPC layer of \<open>Manager_Grpc\<close> keeps the service's channel in \<open>mg_tx\<close>; here the channel is apart and
  the field stays empty. What the output loop puts there is what it reports.
\<close>

definition manager_outputs :: "manager_protocol \<Rightarrow> mgrpc \<Rightarrow> mgrpc \<times> manager_protocol list \<Rightarrow> bool" where
  "manager_outputs m g r \<longleftrightarrow> (case mg_output m g of None \<Rightarrow> False | Some g' \<Rightarrow> r = (g'\<lparr>mg_tx := []\<rparr>, mg_tx g'))"

text \<open>The sessions a message is written to: one that has no room makes the output loop wait.\<close>

definition node_full :: "node_id \<Rightarrow> mgrpc \<Rightarrow> bool" where
  "node_full i g = (if has_worker_session i g then session_full (mg_worker_sessions g) i
     else session_full (mg_manager_sessions g) i)"

fun manager_full :: "manager_protocol \<Rightarrow> mgrpc \<Rightarrow> bool" where
  "manager_full (MRemovePartitionFromReplica i _ _) g = node_full i g"
| "manager_full (MHeartbeat i _) g = node_full i g"
| "manager_full (MLeader i _ _) g = node_full i g"
| "manager_full (MGetClusterState i) g = session_full (mg_manager_sessions g) i"
| "manager_full (MVoteRequest i _ _) g = session_full (mg_manager_sessions g) i"
| "manager_full (MVoteResponse i _ _) g = session_full (mg_manager_sessions g) i"
| "manager_full (MClusterState i _) g =
     ((hm_get (mg_client_sessions g) i = None \<and> node_full i g) \<or>
      list_ex (session_full (mg_client_sessions g)) (hm_keys (mg_client_sessions g)))"
| "manager_full _ g = False"

text \<open>What the readers of streams and the accepted calls send to the service.\<close>

definition manager_arrives :: "(string \<Rightarrow> string option) \<Rightarrow> mgrpc \<Rightarrow> manager_protocol \<Rightarrow> bool" where
  "manager_arrives uuid g m \<longleftrightarrow>
     (\<exists>i e. on_manager_event uuid (mg_me g) i e = Emit m) \<or> (\<exists>i e. on_worker_event uuid i e = Emit m) \<or>
     (\<exists>i host port b. m = MNewConnection (Some i) host port b) \<or> (\<exists>i. m = MGetClusterState i) \<or>
     (\<exists>i. m = MNodeDisconnected i)"

text \<open>What happens to the sessions: connections, their ends, the transport, and the outcome of a dial.\<close>

inductive manager_around :: "(string \<Rightarrow> string option) \<Rightarrow> mgrpc \<Rightarrow> mgrpc \<Rightarrow> bool" for uuid where
  ma_manager: "manager_around uuid g (fst (open_connection uuid first g))"
| ma_worker: "manager_around uuid g (fst (open_worker_connection uuid wfirst g))"
| ma_client: "open_client_connection uuid s g = Some g' \<Longrightarrow> manager_around uuid g (g'\<lparr>mg_tx := []\<rparr>)"
| ma_dialled: "mg_dials g = [(host, port, rf)] \<Longrightarrow> new_manager_connection uuid rf outcome g = Some (g', r) \<Longrightarrow>
    manager_around uuid g (g'\<lparr>mg_dials := []\<rparr>)"
| ma_manager_ends: "manager_around uuid g (g\<lparr>mg_manager_sessions := hm_remove i (mg_manager_sessions g)\<rparr>)"
| ma_worker_ends: "manager_around uuid g (g\<lparr>mg_worker_sessions := hm_remove i (mg_worker_sessions g)\<rparr>)"
| ma_manager_drains: "manager_around uuid g (g\<lparr>mg_manager_sessions := hm_update i session_drains (mg_manager_sessions g)\<rparr>)"
| ma_worker_drains: "manager_around uuid g (g\<lparr>mg_worker_sessions := hm_update i session_drains (mg_worker_sessions g)\<rparr>)"
| ma_client_drains: "manager_around uuid g (g\<lparr>mg_client_sessions := hm_update i session_drains (mg_client_sessions g)\<rparr>)"
| ma_closes: "manager_around uuid g (close_session i g)"

text \<open>The output loop panics on the answer to its dial.\<close>

definition manager_panics :: "(string \<Rightarrow> string option) \<Rightarrow> mgrpc \<Rightarrow> mgrpc \<Rightarrow> bool" where
  "manager_panics uuid g g' \<longleftrightarrow>
     (\<exists>host port rf outcome. mg_dials g = [(host, port, rf)] \<and> new_manager_connection uuid rf outcome g = None) \<and>
     g' = g\<lparr>mg_dials := []\<rparr>"

definition manager_wiring :: "(string \<Rightarrow> string option) \<Rightarrow> (mservice, mgrpc, manager_protocol) wiring" where
  "manager_wiring uuid =
     \<lparr>w_cap = CHANNEL_BUFFER_SIZE,
      w_serve = (\<lambda>g m s r. \<exists>rd. process (mg_config g) rd m s = Some r),
      w_ticks = (\<lambda>g s r. \<exists>rd. tick (mg_config g) rd s = Some r),
      w_full = manager_full, w_outputs = manager_outputs, w_busy = (\<lambda>g. mg_dials g \<noteq> []),
      w_panics = manager_panics uuid, w_arrives = manager_arrives uuid, w_around = manager_around uuid,
      w_closes = (\<lambda>g g'. \<exists>i. g' = close_session i g), w_aside = (\<lambda>_ _. False)\<rparr>"

definition manager_tasks_start :: "me \<Rightarrow> config \<Rightarrow> u64 \<Rightarrow> (mservice, mgrpc, manager_protocol) tasks" where
  "manager_tasks_start me config now =
     (let (svc, out) = get_init_messages config now (new_mservice me) in tasks_start svc (new_mgrpc me config) out)"

definition mgrpc_ok :: "mgrpc \<Rightarrow> bool" where
  "mgrpc_ok g \<longleftrightarrow> config_replication_factor (mg_config g) \<noteq> None \<and> mg_tx g = []"

lemma manager_around_ok: "manager_around uuid g g' \<Longrightarrow> mgrpc_ok g \<Longrightarrow> mgrpc_ok g'"
proof (induction rule: manager_around.induct)
  case (ma_manager g first)
  then show ?case using open_connection_keeps [OF prod.collapse [symmetric]] by (auto simp: mgrpc_ok_def)
next
  case (ma_worker g wfirst)
  then show ?case using connections_keep(1) [OF prod.collapse [symmetric]] by (simp add: mgrpc_ok_def)
next
  case (ma_client s g g')
  then show ?case using connections_keep(3) by (auto simp: mgrpc_ok_def)
next
  case (ma_dialled g host port rf outcome g' r)
  then show ?case using connections_keep(2) by (auto simp: mgrpc_ok_def)
qed (auto simp: mgrpc_ok_def close_session_def)

lemma manager_arrives_wf: "manager_arrives uuid g m \<Longrightarrow> manager_msg_wf m"
  by (auto simp: manager_arrives_def dest: on_manager_event_wf on_worker_event_from_worker)

interpretation mt: task_system "manager_wiring uuid" "mservice_ok me" mgrpc_ok manager_msg_wf sendable for uuid me
proof
  fix s g m s' out g' ms
  show "0 < w_cap (manager_wiring uuid)" by (simp add: manager_wiring_def CHANNEL_BUFFER_SIZE_def)
  show "\<exists>r. w_serve (manager_wiring uuid) g m s r" if ok: "mservice_ok me s" "mgrpc_ok g" "manager_msg_wf m"
  proof -
    obtain st rf where s: "ms_state s = Some st" and rf: "config_replication_factor (mg_config g) = Some rf"
      using ok by (auto simp: mservice_ok_def mgrpc_ok_def)
    fix rd
    from process_step [OF s ok(1) rf ok(3), of rd] show ?thesis by (fastforce simp: manager_wiring_def)
  qed
  show "mservice_ok me s' \<and> list_all sendable out"
    if ok: "mservice_ok me s" "mgrpc_ok g" "manager_msg_wf m" and w: "w_serve (manager_wiring uuid) g m s (s', out)"
  proof -
    obtain rd where p: "process (mg_config g) rd m s = Some (s', out)" using w by (auto simp: manager_wiring_def)
    obtain st rf where "ms_state s = Some st" "config_replication_factor (mg_config g) = Some rf"
      using ok by (auto simp: mservice_ok_def mgrpc_ok_def)
    from process_step [OF this(1) ok(1) this(2) ok(3), of rd] p process_sendable [OF p] show ?thesis by auto
  qed
  show "mservice_ok me s' \<and> list_all sendable out"
    if ok: "mservice_ok me s" "mgrpc_ok g" and w: "w_ticks (manager_wiring uuid) g s (s', out)"
  proof -
    obtain rd where p: "tick (mg_config g) rd s = Some (s', out)" using w by (auto simp: manager_wiring_def)
    obtain rf where "config_replication_factor (mg_config g) = Some rf" using ok by (auto simp: mgrpc_ok_def)
    from tick_ok [OF ok(1) this, of rd] p tick_sendable [OF p] show ?thesis by auto
  qed
  show "\<exists>r. w_outputs (manager_wiring uuid) m g r" if "mgrpc_ok g" "sendable m"
    using mg_output_accepts [OF that(2), of g] that(1) by (auto simp: manager_wiring_def manager_outputs_def mgrpc_ok_def)
  show "mgrpc_ok g' \<and> list_all manager_msg_wf ms" if "mgrpc_ok g" "w_outputs (manager_wiring uuid) m g (g', ms)"
    using that mg_output_keeps [of m g]
    by (auto simp: manager_wiring_def manager_outputs_def mgrpc_ok_def split: option.splits)
  show "manager_msg_wf m" if "mgrpc_ok g" "w_arrives (manager_wiring uuid) g m"
    using that(2) manager_arrives_wf by (simp add: manager_wiring_def)
  show "mgrpc_ok g'" if "mgrpc_ok g" "w_around (manager_wiring uuid) g g'"
    using that manager_around_ok by (simp add: manager_wiring_def)
  show "mgrpc_ok g'" if "mgrpc_ok g" "w_closes (manager_wiring uuid) g g'"
    using that by (auto simp: manager_wiring_def mgrpc_ok_def close_session_def)
  show "mgrpc_ok g'" if "mgrpc_ok g" "w_panics (manager_wiring uuid) g g'"
    using that by (auto simp: manager_wiring_def mgrpc_ok_def manager_panics_def)
  show "mservice_ok me s'" if "mservice_ok me s" "w_aside (manager_wiring uuid) s s'"
    using that by (simp add: manager_wiring_def)
qed

section \<open>The worker\<close>

definition worker_outputs :: "worker_protocol \<Rightarrow> wgrpc \<Rightarrow> wgrpc \<times> worker_protocol list \<Rightarrow> bool" where
  "worker_outputs m g r \<longleftrightarrow> (case wg_output m g of None \<Rightarrow> False | Some g' \<Rightarrow> r = (g'\<lparr>wg_tx := []\<rparr>, wg_tx g'))"

fun worker_full :: "worker_protocol \<Rightarrow> wgrpc \<Rightarrow> bool" where
  "worker_full (WSyncBatch i _) g = session_full (wg_worker_sessions g) i"
| "worker_full (WSyncBatchResponse i _) g = session_full (wg_worker_sessions g) i"
| "worker_full (WRemovePartitionFromReplica i _ _) g = session_full (wg_manager_sessions g) i"
| "worker_full (WHeartbeat i _) g = session_full (wg_manager_sessions g) i"
| "worker_full (WGetClusterState i) g = session_full (wg_manager_sessions g) i"
| "worker_full _ g = False"

definition worker_arrives :: "(string \<Rightarrow> string option) \<Rightarrow> wgrpc \<Rightarrow> worker_protocol \<Rightarrow> bool" where
  "worker_arrives uuid g m \<longleftrightarrow>
     (\<exists>i e. wg_on_manager_event uuid i e = Emit m) \<or> (\<exists>i e. wg_on_peer_event (wg_me g) i e = Emit m) \<or>
     (\<exists>manager i host port. m = wg_dial_announces manager i host port) \<or> (\<exists>i. m = WNodeDisconnected i)"

inductive worker_around :: "(string \<Rightarrow> string option) \<Rightarrow> wgrpc \<Rightarrow> wgrpc \<Rightarrow> bool" for uuid where
  wa_worker: "worker_around uuid g (fst (wg_open_worker_connection uuid first g))"
| wa_dialled: "wg_dials g = [(host, port, manager)] \<Longrightarrow> wg_dial uuid manager outcome peer_outcome g = Some (g', r) \<Longrightarrow>
    worker_around uuid g (g'\<lparr>wg_dials := []\<rparr>)"
| wa_manager_ends: "worker_around uuid g (g\<lparr>wg_manager_sessions := hm_remove i (wg_manager_sessions g)\<rparr>)"
| wa_worker_ends: "worker_around uuid g (g\<lparr>wg_worker_sessions := hm_remove i (wg_worker_sessions g)\<rparr>)"
| wa_manager_drains: "worker_around uuid g (g\<lparr>wg_manager_sessions := hm_update i session_drains (wg_manager_sessions g)\<rparr>)"
| wa_worker_drains: "worker_around uuid g (g\<lparr>wg_worker_sessions := hm_update i session_drains (wg_worker_sessions g)\<rparr>)"
| wa_closes: "worker_around uuid g (wp_close_session i g)"

definition worker_panics :: "(string \<Rightarrow> string option) \<Rightarrow> wgrpc \<Rightarrow> wgrpc \<Rightarrow> bool" where
  "worker_panics uuid g g' \<longleftrightarrow>
     (\<exists>host port manager outcome peer_outcome. wg_dials g = [(host, port, manager)] \<and>
        wg_dial uuid manager outcome peer_outcome g = None) \<and> g' = g\<lparr>wg_dials := []\<rparr>"

text \<open>The clients of a worker and the clean-up work on the store beside the service.\<close>

definition worker_aside :: "wservice \<Rightarrow> wservice \<Rightarrow> bool" where
  "worker_aside s s' \<longleftrightarrow> (\<exists>now now' r. s' = fst (serve_client now now' r s)) \<or> (\<exists>now. s' = expired_cleanup now s)"

definition worker_wiring :: "(string \<Rightarrow> string option) \<Rightarrow> (wservice, wgrpc, worker_protocol) wiring" where
  "worker_wiring uuid =
     \<lparr>w_cap = CHANNEL_BUFFER_SIZE,
      w_serve = (\<lambda>g m s r. \<exists>rd. w_process rd m s = r), w_ticks = (\<lambda>g s r. \<exists>rd. w_tick rd s = r),
      w_full = worker_full, w_outputs = worker_outputs, w_busy = (\<lambda>g. wg_dials g \<noteq> []),
      w_panics = worker_panics uuid, w_arrives = worker_arrives uuid, w_around = worker_around uuid,
      w_closes = (\<lambda>g g'. \<exists>i. g' = wp_close_session i g), w_aside = worker_aside\<rparr>"

lemma worker_around_ok: "worker_around uuid g g' \<Longrightarrow> wg_tx g = [] \<Longrightarrow> wg_tx g' = []"
proof (induction rule: worker_around.induct)
  case (wa_worker g first)
  then show ?case using wg_connections_keep(1) [OF prod.collapse [symmetric]] by simp
next
  case (wa_dialled g host port manager outcome peer_outcome g' r)
  then show ?case using wg_connections_keep(2) by simp
qed (auto simp: wp_close_session_def)

lemma worker_arrives_wf: "worker_arrives uuid g m \<Longrightarrow> worker_msg_wf m"
  by (auto simp: worker_arrives_def wg_dial_announces_def wg_announce_wf dest: wg_on_manager_event_wf wg_on_peer_event_wf)

lemma worker_aside_inv: "worker_aside s s' \<Longrightarrow> worker_inv me s \<Longrightarrow> worker_inv me s'"
  by (auto simp: worker_aside_def worker_inv_def wservice_ok_def serve_client_def store_wf_client_request split_beta
      expired_cleanup_def store_wf_remove_expired)

interpretation wt: task_system "worker_wiring uuid" "worker_inv me" "\<lambda>g. wg_tx g = []" worker_msg_wf w_sendable for uuid me
proof
  fix s g m s' out g' ms
  show "0 < w_cap (worker_wiring uuid)" by (simp add: worker_wiring_def CHANNEL_BUFFER_SIZE_def)
  show "\<exists>r. w_serve (worker_wiring uuid) g m s r" unfolding worker_wiring_def wiring.select_convs by blast
  show "worker_inv me s' \<and> list_all w_sendable out"
    if "worker_inv me s" "worker_msg_wf m" "w_serve (worker_wiring uuid) g m s (s', out)"
    using that w_process_sendable by (auto simp: worker_wiring_def)
  show "worker_inv me s' \<and> list_all w_sendable out" if "worker_inv me s" "w_ticks (worker_wiring uuid) g s (s', out)"
    using that w_tick_sendable by (auto simp: worker_wiring_def)
  show "\<exists>r. w_outputs (worker_wiring uuid) m g r" if "w_sendable m"
    using wg_output_accepts [OF that, of g] by (auto simp: worker_wiring_def worker_outputs_def)
  show "wg_tx g' = [] \<and> list_all worker_msg_wf ms" if "wg_tx g = []" "w_outputs (worker_wiring uuid) m g (g', ms)"
    using that wg_output_keeps [of m g] by (auto simp: worker_wiring_def worker_outputs_def split: option.splits)
  show "worker_msg_wf m" if "w_arrives (worker_wiring uuid) g m"
    using that worker_arrives_wf by (simp add: worker_wiring_def)
  show "wg_tx g' = []" if "wg_tx g = []" "w_around (worker_wiring uuid) g g'"
    using that worker_around_ok by (simp add: worker_wiring_def)
  show "wg_tx g' = []" if "wg_tx g = []" "w_closes (worker_wiring uuid) g g'"
    using that by (auto simp: worker_wiring_def wp_close_session_def)
  show "wg_tx g' = []" if "wg_tx g = []" "w_panics (worker_wiring uuid) g g'"
    using that by (auto simp: worker_wiring_def worker_panics_def)
  show "worker_inv me s'" if "worker_inv me s" "w_aside (worker_wiring uuid) s s'"
    using that worker_aside_inv by (simp add: worker_wiring_def)
qed

section \<open>A run into the deadlock\<close>

text \<open>
  A manager dials a peer that does not answer. Two workers connect meanwhile; the service goes on
  ticking and its heartbeats to them fill the channel to the output loop, and the workers'
  heartbeats fill the channel to the service. Then one worker is gone and the dial fails. The states
  of the run: the service that has last ticked at \<open>now\<close> and knows the workers \<open>ws\<close>, and the gRPC layer
  that has the sessions \<open>ss\<close> and dials \<open>d\<close>.
\<close>

definition lk_service :: "me \<Rightarrow> u64 \<Rightarrow> (node_id, node) hash_map \<Rightarrow> mservice" where
  "lk_service me now ws = \<lparr>ms_me = me, ms_state = Some (new_mstate ((me_id me,
     \<lparr>n_host = me_host me, n_port = me_port me, n_last_heartbeat = now, n_node_type = Manager\<rparr>) # ws) None), ms_elections = []\<rparr>"

definition lk_grpc :: "me \<Rightarrow> config \<Rightarrow> (string \<times> u32 \<times> nat) list \<Rightarrow> (node_id, worker_event session) hash_map \<Rightarrow> mgrpc" where
  "lk_grpc me config ds ss = (new_mgrpc me config)\<lparr>mg_worker_sessions := ss, mg_dials := ds\<rparr>"

definition lk_beats :: "me \<Rightarrow> node_id list \<Rightarrow> u64 \<Rightarrow> manager_protocol list" where
  "lk_beats me ids now = map (\<lambda>k. MHeartbeat k \<lparr>hb_id = me_id me, hb_ts = now\<rparr>) ids"

abbreviation lk_at :: "mservice \<Rightarrow> mgrpc \<Rightarrow> manager_protocol list \<Rightarrow> manager_protocol list \<Rightarrow> manager_protocol list \<Rightarrow>
    (mservice, mgrpc, manager_protocol) tasks" where
  "lk_at s g inn out pending \<equiv> \<lparr>t_service = s, t_grpc = g, t_in = inn, t_out = out, t_pending = pending,
     t_sending = None, t_report = [], t_stopped = False\<rparr>"

abbreviation lk_run ::
  "(string \<Rightarrow> string option) \<Rightarrow> (mservice, mgrpc, manager_protocol) tasks \<Rightarrow> (mservice, mgrpc, manager_protocol) tasks \<Rightarrow> bool" where
  "lk_run uuid \<equiv> (task_step (manager_wiring uuid))\<^sup>*\<^sup>*"

text \<open>A worker as it is entered when it connects, and the session with it.\<close>

definition lk_worker :: "string \<Rightarrow> u64 \<Rightarrow> node" where
  "lk_worker host now = \<lparr>n_host = host, n_port = 1, n_last_heartbeat = now, n_node_type = Worker\<rparr>"

definition lk_session :: "me \<Rightarrow> worker_event session" where
  "lk_session me = open_session [WEConnectResponse (node_id_to_string (me_id me))]"

lemma lk_send:
  "length out < 100 \<Longrightarrow> task_step (manager_wiring uuid) (lk_at s g inn out (m # ms)) (lk_at s g inn (out @ [m]) ms)"
  using send [of "lk_at s g inn out (m # ms)" m ms "manager_wiring uuid"]
  by (auto simp: manager_wiring_def CHANNEL_BUFFER_SIZE_def intro: loops)

lemma lk_around:
  "manager_around uuid g g' \<Longrightarrow> task_step (manager_wiring uuid) (lk_at s g inn out ms) (lk_at s g' inn out ms)"
  using around [of "manager_wiring uuid" "lk_at s g inn out ms" g'] by (simp add: manager_wiring_def)

lemma lk_arrival:
  "manager_arrives uuid g m \<Longrightarrow> length inn < 100 \<Longrightarrow>
   task_step (manager_wiring uuid) (lk_at s g inn out ms) (lk_at s g (inn @ [m]) out ms)"
  using arrival [of "manager_wiring uuid" "lk_at s g inn out ms" m] by (simp add: manager_wiring_def CHANNEL_BUFFER_SIZE_def)

lemma lk_serve:
  "process (mg_config g) rd m s = Some (s', ms) \<Longrightarrow>
   task_step (manager_wiring uuid) (lk_at s g (m # inn) out []) (lk_at s' g inn out ms)"
  using serve [of "lk_at s g (m # inn) out []" m inn "manager_wiring uuid" s' ms]
  by (auto simp: manager_wiring_def intro: loops)

lemma lk_timer:
  "tick (mg_config g) rd s = Some (s', ms) \<Longrightarrow> task_step (manager_wiring uuid) (lk_at s g inn out []) (lk_at s' g inn out ms)"
  using timer [of "lk_at s g inn out []" "manager_wiring uuid" s' ms] by (auto simp: manager_wiring_def)

lemma lk_output:
  assumes "mg_dials g = []" and "\<not> manager_full m g" and "manager_outputs m g (g', ms)"
  shows "lk_run uuid (lk_at s g inn (m # out) pending) ((lk_at s g' inn out pending)\<lparr>t_report := ms\<rparr>)"
proof -
  have "task_step (manager_wiring uuid) (lk_at s g inn (m # out) pending) ((lk_at s g inn out pending)\<lparr>t_sending := Some m\<rparr>)"
    using take [of "lk_at s g inn (m # out) pending" "manager_wiring uuid" m out] assms(1)
    by (auto simp: manager_wiring_def intro: loops)
  moreover have "task_step (manager_wiring uuid) ((lk_at s g inn out pending)\<lparr>t_sending := Some m\<rparr>)
      ((lk_at s g' inn out pending)\<lparr>t_report := ms\<rparr>)"
    using deliver [of "(lk_at s g inn out pending)\<lparr>t_sending := Some m\<rparr>" m "manager_wiring uuid" g' ms] assms(2,3)
    by (auto simp: manager_wiring_def intro: loops)
  ultimately show ?thesis by (meson converse_rtranclp_into_rtranclp r_into_rtranclp)
qed

text \<open>The manager starts and its output loop dials the configured peer.\<close>

lemma lk_starts:
  fixes p :: u16
  assumes "config = ConfigManager port self (Some (h, p)) rf"
  shows "lk_run uuid (manager_tasks_start me config now)
    (lk_at (lk_service me now []) (lk_grpc me config [(h, ucast p, rf)] []) [] [] [])"
proof -
  let ?m = "MNewConnection None h (ucast p) True" and ?g = "lk_grpc me config [] []"
  have start: "manager_tasks_start me config now = lk_at (lk_service me now []) ?g [] [] [?m]"
    by (simp add: assms manager_tasks_start_def get_init_messages_def new_mservice_def Let_def tasks_start_def
        lk_service_def lk_grpc_def new_mgrpc_def)
  have "manager_outputs ?m ?g (lk_grpc me config [(h, ucast p, rf)] [], [])"
    by (simp add: manager_outputs_def assms lk_grpc_def new_mgrpc_def)
  from lk_output [OF _ _ this, of uuid "lk_service me now []" "[]" "[]" "[]"]
  have "lk_run uuid (lk_at (lk_service me now []) ?g [] [?m] [])
      (lk_at (lk_service me now []) (lk_grpc me config [(h, ucast p, rf)] []) [] [] [])"
    by (simp add: lk_grpc_def)
  with lk_send [of "[]" uuid "lk_service me now []" ?g "[]" ?m "[]"] show ?thesis
    unfolding start by (auto intro: converse_rtranclp_into_rtranclp)
qed

text \<open>A worker connects: its session is entered, its reader announces it, the service adds it.\<close>

lemma lk_connects:
  assumes "config_replication_factor config = Some rf" and "node_id_from_string uuid t = Some i" and "i \<noteq> me_id me"
    and "i \<notin> set (hm_keys ws)" and "low_time now"
  shows "lk_run uuid (lk_at (lk_service me now ws) (lk_grpc me config ds ss) [] [] [])
    (lk_at (lk_service me now (ws @ [(i, lk_worker t now)])) (lk_grpc me config ds (hm_insert i (lk_session me) ss)) [] [] [])"
proof -
  let ?g = "lk_grpc me config ds (hm_insert i (lk_session me) ss)" and ?m = "MNewConnection (Some i) t 1 False"
  let ?s = "lk_service me now ws"
  have "fst (open_worker_connection uuid (Some (WEConnect t (Some (t, 1)) None)) (lk_grpc me config ds ss)) = ?g"
    by (simp add: open_worker_connection_def assms(2) lk_grpc_def new_mgrpc_def lk_session_def)
  with ma_worker [of uuid "lk_grpc me config ds ss" "Some (WEConnect t (Some (t, 1)) None)"]
  have "manager_around uuid (lk_grpc me config ds ss) ?g" by simp
  note one = lk_around [OF this, of ?s "[]" "[]" "[]"]
  have "manager_arrives uuid ?g ?m" unfolding manager_arrives_def by blast
  then have two: "task_step (manager_wiring uuid) (lk_at ?s ?g [] [] []) (lk_at ?s ?g [?m] [] [])"
    using lk_arrival [of uuid ?g ?m "[]" ?s "[]" "[]"] by simp
  have "hm_insert i v ws = ws @ [(i, v)]" for v using assms(4) by (induction ws) auto
  moreover have "\<not> now + 200 \<le> now"
    using low_time_sum [OF assms(5), of 200] by (simp add: HEARTBEAT_INTERVAL_MS_def add_overflows_nat word_le_nat_alt unat_word_ariths)
  ultimately have "process (mg_config ?g) \<lparr>hb_now = now, hb_rnd = 500, el_now = 0, el_rnd = 500, conn_now = now\<rparr> ?m ?s =
      Some (lk_service me now (ws @ [(i, lk_worker t now)]), [])"
    using assms(1,3)
    by (simp add: process_def tick_def lk_service_def heartbeats_def new_mstate_def lk_worker_def
        handle_new_connection_def HEARTBEAT_INTERVAL_MS_def start_election_if_needed_def worker_partitions_def
        lk_grpc_def new_mgrpc_def)
  from one two lk_serve [OF this, of uuid "[]" "[]"] show ?thesis by (meson converse_rtranclp_into_rtranclp r_into_rtranclp)
qed

text \<open>A tick 200 milliseconds after the last one beats to every worker.\<close>

lemma lk_tick:
  assumes "config_replication_factor config = Some rf" and "me_id me \<notin> set (hm_keys ws)"
  shows "tick config \<lparr>hb_now = now + 200, hb_rnd = 500, el_now = 0, el_rnd = 500, conn_now = 0\<rparr> (lk_service me now ws) =
    Some (lk_service me (now + 200) ws, lk_beats me (hm_keys ws) (now + 200))"
proof -
  have "filter (\<lambda>k. k \<noteq> me_id me) (hm_keys ws) = hm_keys ws"
    using assms(2) by (induction ws) auto
  then show ?thesis
    using assms(1) by (simp add: tick_def lk_service_def heartbeats_def new_mstate_def lk_beats_def HEARTBEAT_INTERVAL_MS_def
        start_election_if_needed_def worker_partitions_def)
qed

lemma lk_beat:
  assumes "config_replication_factor (mg_config g) = Some rf" and "me_id me \<notin> {a, b}" and "hm_keys ws = [a, b]" and "length out < 99"
  shows "lk_run uuid (lk_at (lk_service me now ws) g [] out [])
    (lk_at (lk_service me (now + 200) ws) g [] (out @ lk_beats me [a, b] (now + 200)) [])"
proof -
  obtain m m' where b: "lk_beats me [a, b] (now + 200) = [m, m']" by (simp add: lk_beats_def)
  let ?s = "lk_service me (now + 200) ws"
  have "task_step (manager_wiring uuid) (lk_at ?s g [] (out @ [m]) [m']) (lk_at ?s g [] (out @ [m, m']) [])"
    using lk_send [of "out @ [m]"] assms(4) by simp
  moreover have "task_step (manager_wiring uuid) (lk_at ?s g [] out [m, m']) (lk_at ?s g [] (out @ [m]) [m'])"
    using lk_send assms(4) by simp
  moreover have "task_step (manager_wiring uuid) (lk_at (lk_service me now ws) g [] out []) (lk_at ?s g [] out [m, m'])"
    using lk_timer [OF lk_tick [OF assms(1), of me ws now], of uuid "[]" out] assms(2,3) b by simp
  ultimately show ?thesis unfolding b by (meson converse_rtranclp_into_rtranclp r_into_rtranclp)
qed

lemma lk_beats_fill:
  assumes "config_replication_factor (mg_config g) = Some rf" and "me_id me \<notin> {a, b}" and "hm_keys ws = [a, b]"
  shows "length out + 2 * n \<le> 100 \<Longrightarrow> \<exists>now' more. length more = 2 * n \<and>
     lk_run uuid (lk_at (lk_service me now ws) g [] out []) (lk_at (lk_service me now' ws) g [] (out @ more) [])"
proof (induction n arbitrary: out now)
  case 0
  have "lk_run uuid (lk_at (lk_service me now ws) g [] out []) (lk_at (lk_service me now ws) g [] (out @ []) [])" by simp
  then show ?case by (metis list.size(3) mult_0_right)
next
  case (Suc n)
  let ?beats = "lk_beats me [a, b] (now + 200)"
  have len: "length ?beats = 2" by (simp add: lk_beats_def)
  with Suc obtain now' more where more: "length more = 2 * n"
    and rest: "lk_run uuid (lk_at (lk_service me (now + 200) ws) g [] (out @ ?beats) [])
       (lk_at (lk_service me now' ws) g [] ((out @ ?beats) @ more) [])"
    using Suc.IH [of "out @ ?beats" "now + 200"] by auto
  have "lk_run uuid (lk_at (lk_service me now ws) g [] out []) (lk_at (lk_service me (now + 200) ws) g [] (out @ ?beats) [])"
    by (rule lk_beat [OF assms]) (use Suc.prems in simp)
  from rtranclp_trans [OF this rest]
  have "lk_run uuid (lk_at (lk_service me now ws) g [] out []) (lk_at (lk_service me now' ws) g [] (out @ (?beats @ more)) [])"
    by simp
  moreover have "length (?beats @ more) = 2 * Suc n" using more len by simp
  ultimately show ?case by blast
qed

lemma lk_arrivals_fill:
  assumes "manager_arrives uuid g m"
  shows "length inn + n \<le> 100 \<Longrightarrow> lk_run uuid (lk_at s g inn out ms) (lk_at s g (inn @ replicate n m) out ms)"
proof (induction n arbitrary: inn)
  case (Suc n)
  with Suc.IH [of "inn @ [m]"] lk_arrival [OF assms, of inn s out ms]
  show ?case by (simp add: converse_rtranclp_into_rtranclp)
qed simp

text \<open>The last steps: one worker is gone, the dial fails, the output loop finds the closed session.\<close>

lemma lk_locks:
  assumes "length out = 99" and "length inn = 100" and "a \<noteq> b"
  shows "\<exists>x. lk_run uuid (lk_at s (lk_grpc me config [(h, p, rf)] [(a, lk_session me), (b, lk_session me)]) inn
      (MHeartbeat a hb # out) [m, m']) x \<and> deadlocked (manager_wiring uuid) x \<and> length (t_in x) = 100 \<and> length (t_out x) = 100"
proof -
  let ?sa = "(lk_session me)\<lparr>closed := True\<rparr>"
  let ?g = "lk_grpc me config [(h, p, rf)] [(a, lk_session me), (b, lk_session me)]"
  let ?gc = "lk_grpc me config [(h, p, rf)] [(a, ?sa), (b, lk_session me)]"
  let ?g1 = "lk_grpc me config [] [(a, ?sa), (b, lk_session me)]" and ?g2 = "lk_grpc me config [] [(b, lk_session me)]"
  let ?hb = "MHeartbeat a hb" and ?gone = "[MNodeDisconnected a]"
  have "close_session a ?g = ?gc" using assms(3) by (simp add: close_session_def lk_grpc_def new_mgrpc_def)
  with ma_closes [of uuid ?g a] have "manager_around uuid ?g ?gc" by simp
  note one = lk_around [OF this, of s inn "?hb # out" "[m, m']"]
  have "manager_around uuid ?gc ?g1"
    using ma_dialled [of ?gc h p rf uuid "ConnectFails ''refused''" ?gc None]
    by (simp add: new_manager_connection_def lk_grpc_def)
  note two = lk_around [OF this, of s inn "?hb # out" "[m, m']"]
  have out: "manager_outputs ?hb ?g1 (?g2, ?gone)"
    using assms(3) by (simp add: manager_outputs_def handle_output_heartbeat_def has_worker_session_def to_worker_def handle_common_def
        lk_grpc_def new_mgrpc_def)
  have three: "lk_run uuid (lk_at s ?g1 inn (?hb # out) [m, m']) ((lk_at s ?g2 inn out [m, m'])\<lparr>t_report := ?gone\<rparr>)"
    by (rule lk_output [OF _ _ out])
      (simp_all add: lk_grpc_def new_mgrpc_def node_full_def has_worker_session_def session_full_def)
  let ?x = "(lk_at s ?g2 inn (out @ [m]) [m'])\<lparr>t_report := ?gone\<rparr>"
  have "task_step (manager_wiring uuid) ((lk_at s ?g2 inn out [m, m'])\<lparr>t_report := ?gone\<rparr>) ?x"
    using send [of "(lk_at s ?g2 inn out [m, m'])\<lparr>t_report := ?gone\<rparr>" m "[m']" "manager_wiring uuid"] assms(1)
    by (auto simp: manager_wiring_def CHANNEL_BUFFER_SIZE_def intro: loops)
  with one two three have "lk_run uuid (lk_at s ?g inn (?hb # out) [m, m']) ?x"
    by (meson converse_rtranclp_into_rtranclp rtranclp.rtrancl_into_rtrancl)
  moreover have "deadlocked (manager_wiring uuid) ?x"
    using assms by (simp add: deadlocked_def manager_wiring_def CHANNEL_BUFFER_SIZE_def)
  ultimately show ?thesis using assms(1,2) by fastforce
qed

text \<open>Both channels full, while the output loop still dials.\<close>

lemma lk_fills:
  assumes rf: "config_replication_factor (mg_config g) = Some rf" and me: "me_id me \<notin> {a, b}" and ws: "hm_keys ws = [a, b]"
    and "manager_arrives uuid g arriving"
  obtains s out hb m m' where "length out = 99" and "lk_run uuid (lk_at (lk_service me now ws) g [] [] [])
    (lk_at s g (replicate 100 arriving) (MHeartbeat a hb # out) [m, m'])"
proof -
  let ?b = "lk_beats me [a, b] (now + 200)"
  have first: "lk_run uuid (lk_at (lk_service me now ws) g [] [] []) (lk_at (lk_service me (now + 200) ws) g [] ?b [])"
    using lk_beat [OF rf me ws, of "[]" uuid now] by simp
  obtain now' more where more: "length more = 98"
    and fill: "lk_run uuid (lk_at (lk_service me (now + 200) ws) g [] ?b []) (lk_at (lk_service me now' ws) g [] (?b @ more) [])"
    using lk_beats_fill [OF rf me ws, of ?b 49 uuid "now + 200"] by (auto simp: lk_beats_def)
  obtain m m' where last: "lk_beats me [a, b] (now' + 200) = [m, m']" by (simp add: lk_beats_def)
  let ?s = "lk_service me (now' + 200) ws"
  have tick: "task_step (manager_wiring uuid) (lk_at (lk_service me now' ws) g [] (?b @ more) []) (lk_at ?s g [] (?b @ more) [m, m'])"
    using lk_timer [OF lk_tick [OF rf, of me ws now'], of uuid "[]" "?b @ more"] me ws last by simp
  have arrive: "lk_run uuid (lk_at ?s g [] (?b @ more) [m, m']) (lk_at ?s g (replicate 100 arriving) (?b @ more) [m, m'])"
    using lk_arrivals_fill [OF assms(4), of "[]" 100] by simp
  have "lk_run uuid (lk_at (lk_service me now ws) g [] [] []) (lk_at ?s g (replicate 100 arriving) (?b @ more) [m, m'])"
    using rtranclp_trans [OF rtranclp_trans [OF first fill] converse_rtranclp_into_rtranclp [OF tick arrive]] .
  moreover have "?b @ more = MHeartbeat a \<lparr>hb_id = me_id me, hb_ts = now + 200\<rparr> #
      (MHeartbeat b \<lparr>hb_id = me_id me, hb_ts = now + 200\<rparr> # more)" by (simp add: lk_beats_def)
  ultimately show ?thesis
    using that [of "MHeartbeat b \<lparr>hb_id = me_id me, hb_ts = now + 200\<rparr> # more" ?s "\<lparr>hb_id = me_id me, hb_ts = now + 200\<rparr>" m m'] more
    by simp
qed

lemma manager_locks:
  fixes p :: u16
  assumes config: "config = ConfigManager port self (Some (h, p)) rf" and "low_time now"
    and "node_id_from_string uuid ta = Some a" and "node_id_from_string uuid tb = Some b"
    and "a \<noteq> b" and "a \<noteq> me_id me" and "b \<noteq> me_id me"
  shows "\<exists>x. lk_run uuid (manager_tasks_start me config now) x \<and> deadlocked (manager_wiring uuid) x \<and>
    length (t_in x) = 100 \<and> length (t_out x) = 100"
proof -
  let ?d = "[(h, ucast p, rf)]" and ?ws = "[(a, lk_worker ta now), (b, lk_worker tb now)]"
  let ?g = "lk_grpc me config ?d [(a, lk_session me), (b, lk_session me)]" and ?arriving = "MHeartbeat a \<lparr>hb_id = a, hb_ts = now\<rparr>"
  have rf: "config_replication_factor config = Some rf" by (simp add: config)
  have rf': "config_replication_factor (mg_config ?g) = Some rf" by (simp add: rf lk_grpc_def new_mgrpc_def)
  have one: "lk_run uuid (lk_at (lk_service me now []) (lk_grpc me config ?d []) [] [] [])
      (lk_at (lk_service me now [(a, lk_worker ta now)]) (lk_grpc me config ?d [(a, lk_session me)]) [] [] [])"
    using lk_connects [OF rf assms(3,6) _ assms(2), of "[]" ?d "[]"] by simp
  have two: "lk_run uuid (lk_at (lk_service me now [(a, lk_worker ta now)]) (lk_grpc me config ?d [(a, lk_session me)]) [] [] [])
      (lk_at (lk_service me now ?ws) ?g [] [] [])"
    using lk_connects [OF rf assms(4,7) _ assms(2), of "[(a, lk_worker ta now)]" ?d "[(a, lk_session me)]"] assms(5) by simp
  note start = rtranclp_trans [OF rtranclp_trans [OF lk_starts [OF config] one] two]
  have "on_worker_event uuid a (WEHeartbeat ta now) = Emit ?arriving" by (simp add: emit_with_def assms(3))
  then have "manager_arrives uuid ?g ?arriving" unfolding manager_arrives_def by blast
  then obtain s out hb m m' where len: "length out = 99"
    and full: "lk_run uuid (lk_at (lk_service me now ?ws) ?g [] [] []) (lk_at s ?g (replicate 100 ?arriving) (MHeartbeat a hb # out) [m, m'])"
    by (rule lk_fills [OF rf', of me a b ?ws uuid ?arriving now, rotated 2]) (use assms(6,7) in auto)
  from lk_locks [OF len _ assms(5), of "replicate 100 ?arriving" uuid s me config h "ucast p" rf hb m m']
  obtain x where "lk_run uuid (lk_at s ?g (replicate 100 ?arriving) (MHeartbeat a hb # out) [m, m']) x"
    "deadlocked (manager_wiring uuid) x" "length (t_in x) = 100" "length (t_out x) = 100" by auto
  with rtranclp_trans [OF rtranclp_trans [OF start full]] show ?thesis by blast
qed

lemma deadlocked_manager_service:
  assumes "(task_step (manager_wiring uuid))\<^sup>*\<^sup>* x x'" and "deadlocked (manager_wiring uuid) x"
  shows "t_service x' = t_service x"
  using assms(1)
proof (induction rule: rtranclp_induct)
  case (step y z)
  have "deadlocked (manager_wiring uuid) y" using deadlocked_run [OF step(1) assms(2)] by blast
  with step(2) have "t_service z = t_service y"
    by (cases rule: task_step.cases) (auto simp: deadlocked_loops deadlocked_def manager_wiring_def)
  with step(3) show ?case by simp
qed simp

section \<open>Properties\<close>

text \<open>
  C18: A manager can lock up for good. Every manager that is configured with a peer has a run into a
  state in which its service waits for room in the channel to the output loop while the output loop
  waits for room in the channel to the service: while the output loop dials, two workers connect, the
  service's heartbeats to them fill the one channel and those of the workers the other, and the
  first message after the dial is for a session that has closed. From there, in every further run,
  whatever connects, arrives or ends, neither loop takes a step: both channels stay full, the service's
  state and what both loops have still to send stay as they are.
\<close>

theorem channels_lock_up:
  fixes p :: u16
  assumes "low_time now" and "node_id_from_string uuid ta = Some a" and "node_id_from_string uuid tb = Some b"
    and "a \<noteq> b" and "a \<noteq> me_id me" and "b \<noteq> me_id me"
  shows "\<exists>x. (task_step (manager_wiring uuid))\<^sup>*\<^sup>* (manager_tasks_start me (ConfigManager port self (Some (h, p)) rf) now) x \<and>
    length (t_in x) = 100 \<and> length (t_out x) = 100 \<and> t_pending x \<noteq> [] \<and> t_report x \<noteq> [] \<and>
    (\<forall>x'. (task_step (manager_wiring uuid))\<^sup>*\<^sup>* x x' \<longrightarrow> t_service x' = t_service x \<and> t_in x' = t_in x \<and> t_out x' = t_out x \<and>
       t_pending x' = t_pending x \<and> t_report x' = t_report x \<and> (\<nexists>y. loop_step (manager_wiring uuid) x' y))"
proof -
  obtain x where run: "(task_step (manager_wiring uuid))\<^sup>*\<^sup>* (manager_tasks_start me (ConfigManager port self (Some (h, p)) rf) now) x"
    and x: "deadlocked (manager_wiring uuid) x" and len: "length (t_in x) = 100" "length (t_out x) = 100"
    using manager_locks [OF refl assms] by blast
  have "t_service x' = t_service x \<and> same_queues x x' \<and> (\<nexists>y. loop_step (manager_wiring uuid) x' y)"
    if "(task_step (manager_wiring uuid))\<^sup>*\<^sup>* x x'" for x'
    using deadlocked_manager_service [OF that x] deadlocked_run [OF that x] deadlocked_loops by blast
  with run x len show ?thesis unfolding same_queues_def deadlocked_def by blast
qed

lemma channels_lock_up_witness:
  "\<exists>x. (task_step (manager_wiring demo_uuid))\<^sup>*\<^sup>* (manager_tasks_start demo_me demo_peer_config 5) x \<and>
     (\<nexists>y. loop_step (manager_wiring demo_uuid) x y)"
proof -
  have "low_time 5" "node_id_from_string demo_uuid ''a'' = Some (NodeId ''a'')" "node_id_from_string demo_uuid ''b'' = Some (NodeId ''b'')"
    by (simp_all add: low_time_def node_id_from_string_def demo_uuid_def)
  from channels_lock_up [OF this, of demo_me 1 "(''m'', 1)" "''h''" 1 2] show ?thesis
    unfolding demo_peer_config_def by (auto simp: demo_me_def)
qed

text \<open>
  Nothing else blocks the channels for good but a dial or a session. In every state that a manager or a
  worker reaches, both channels hold at most a hundred messages, and while the output loop neither dials
  nor waits for room in the channel of a session, and something waits to be handled or sent, the service or
  the output loop can take a step unless the two wait for each other.
\<close>

theorem channels_otherwise_move:
  assumes "config_replication_factor config \<noteq> None"
    and "(task_step (manager_wiring uuid))\<^sup>*\<^sup>* (manager_tasks_start me config now) x"
    and "worker_start wconfig i now' = Inr (Some (svc, out))"
    and "(task_step (worker_wiring uuid))\<^sup>*\<^sup>* (tasks_start svc (new_wgrpc (node_me wconfig i)) out) y"
  shows "length (t_in x) \<le> 100 \<and> length (t_out x) \<le> 100 \<and> length (t_in y) \<le> 100 \<and> length (t_out y) \<le> 100 \<and>
    (waiting x \<and> mg_dials (t_grpc x) = [] \<and> \<not> session_waits (manager_wiring uuid) x \<and> \<not> deadlocked (manager_wiring uuid) x \<longrightarrow>
       (\<exists>x'. loop_step (manager_wiring uuid) x x')) \<and>
    (waiting y \<and> wg_dials (t_grpc y) = [] \<and> \<not> session_waits (worker_wiring uuid) y \<and> \<not> deadlocked (worker_wiring uuid) y \<longrightarrow>
       (\<exists>y'. loop_step (worker_wiring uuid) y y'))"
proof -
  obtain rf where rf: "config_replication_factor config = Some rf" using assms(1) by blast
  have "mservice_ok me (fst (get_init_messages config now (new_mservice me)))"
    by (rule reachable_ok [OF rf manager_reachable.init])
  then have "mt.tasks_ok uuid me (manager_tasks_start me config now)"
    using mt.start_ok [of me _ "new_mgrpc me config" _ uuid] get_init_messages_sendable [of config now "new_mservice me"] rf
    by (simp add: manager_tasks_start_def split_beta mgrpc_ok_def new_mgrpc_def)
  from mt.run_ok [OF assms(2) this] have x: "mt.tasks_ok uuid me x" .
  have "wt.tasks_ok uuid (node_me wconfig i) (tasks_start svc (new_wgrpc (node_me wconfig i)) out)"
    using wt.start_ok worker_started_inv [OF assms(3)] worker_start_sendable [OF assms(3)] by (simp add: new_wgrpc_def)
  from wt.run_ok [OF assms(4) this] have y: "wt.tasks_ok uuid (node_me wconfig i) y" .
  have "in_bounds (manager_wiring uuid) x" "in_bounds (worker_wiring uuid) y"
    using x y by (simp_all add: mt.tasks_ok_def wt.tasks_ok_def)
  then have "length (t_in x) \<le> 100 \<and> length (t_out x) \<le> 100 \<and> length (t_in y) \<le> 100 \<and> length (t_out y) \<le> 100"
    by (simp add: in_bounds_def manager_wiring_def worker_wiring_def CHANNEL_BUFFER_SIZE_def)
  moreover have "w_busy (manager_wiring uuid) g \<longleftrightarrow> mg_dials g \<noteq> []" "w_busy (worker_wiring uuid) h \<longleftrightarrow> wg_dials h \<noteq> []" for g h
    by (simp_all add: manager_wiring_def worker_wiring_def)
  ultimately show ?thesis using mt.stuck_iff_deadlocked [OF x] wt.stuck_iff_deadlocked [OF y] by blast
qed

end
