(* ===== verification/Session_Lifecycle.thy ===== *)
theory Session_Lifecycle
  imports Manager_Grpc
begin

text \<open>
  The life of the sessions between managers, with the identity of the streams behind them. A table
  of sessions maps a peer to the sending half of one stream (\<open>CommunicationStreamEither\<close>, \<open>common.rs\<close>); a
  reader task runs per stream and removes the entry of its peer when the stream ends
  (\<open>manager/grpc.rs\<close>, \<open>manager/grpc/manager_connection.rs\<close>; the worker's layer does the same). A stream ends
  when the last sending half on the other side is dropped: the accepting side keeps one in the table
  and one in the reader task, the dialling side only the one in the table. A reader that panics on
  a malformed id ends without removing the entry of its peer.
\<close>

section \<open>Streams\<close>

type_synonym conn_id = nat

datatype io_stream = Input conn_id | Output conn_id

fun stream_conn :: "io_stream \<Rightarrow> conn_id" where
  "stream_conn (Input c) = c"
| "stream_conn (Output c) = c"

text \<open>
  \<open>IOStreamExt::send\<close> into the channel behind a stream, and the error it reports. When the channel of an
  accepted stream is closed, what comes back is the event that was sent, not a status, and the
  function returns as if it had been sent.
\<close>

record 'e channel =
  ch_closed :: bool
  ch_events :: "'e list"

datatype 'e io_error = InputError string | OutputError 'e

definition io_send :: "io_stream \<Rightarrow> 'e \<Rightarrow> (conn_id \<Rightarrow> 'e channel) \<Rightarrow> (conn_id \<Rightarrow> 'e channel) \<times> ('e io_error + unit)" where
  "io_send s e chans =
     (let c = stream_conn s; ch = chans c
      in if ch_closed ch
         then (chans, case s of Input _ \<Rightarrow> Inr () | Output _ \<Rightarrow> Inl (OutputError e))
         else (chans(c := ch\<lparr>ch_events := ch_events ch @ [e]\<rparr>), Inr ()))"

definition io_is_closed :: "io_stream \<Rightarrow> (conn_id \<Rightarrow> 'e channel) \<Rightarrow> bool" where
  "io_is_closed s chans = ch_closed (chans (stream_conn s))"

text \<open>
  The sessions of the gRPC layers abstract from the two kinds of streams: what a send does to the
  channel is \<open>session_send\<close>, and only its report depends on the kind.
\<close>

definition session_of :: "'e channel \<Rightarrow> 'e session" where
  "session_of ch = \<lparr>closed = ch_closed ch, sent = ch_events ch\<rparr>"

lemma io_send_refines_session_send:
  "session_of (fst (io_send s e chans) (stream_conn s)) = session_send e (session_of (chans (stream_conn s))) \<and>
   (c \<noteq> stream_conn s \<longrightarrow> fst (io_send s e chans) c = chans c) \<and>
   (snd (io_send s e chans) \<noteq> Inr () \<longleftrightarrow> io_is_closed s chans \<and> s = Output (stream_conn s))"
  by (cases s) (auto simp: io_send_def session_of_def session_send_def io_is_closed_def Let_def)

section \<open>Sessions of many managers\<close>

text \<open>A running reader task: its stream, the peer it serves, and whether this side accepted the stream.\<close>

record reader =
  rd_conn :: conn_id
  rd_peer :: node_id
  rd_accepted :: bool

record endpoint =
  ep_sessions :: "(node_id, io_stream) hash_map"
  ep_readers :: "reader list"
  ep_panicked :: "reader list"
  ep_tx :: "manager_protocol list"

definition new_endpoint :: endpoint where
  "new_endpoint = \<lparr>ep_sessions = [], ep_readers = [], ep_panicked = [], ep_tx = []\<rparr>"

text \<open>A session starts: the entry is made, the reader is spawned and announces the peer.\<close>

definition session_enter :: "node_id \<Rightarrow> io_stream \<Rightarrow> grpc_addr \<Rightarrow> endpoint \<Rightarrow> endpoint" where
  "session_enter i s addr ep =
     ep\<lparr>ep_sessions := hm_insert i s (ep_sessions ep),
        ep_readers := ep_readers ep @ [\<lparr>rd_conn = stream_conn s, rd_peer = i,
          rd_accepted = (case s of Input _ \<Rightarrow> True | Output _ \<Rightarrow> False)\<rparr>],
        ep_tx := ep_tx ep @ [MNewConnection (Some i) (fst addr) (snd addr) True]\<rparr>"

text \<open>A reader ends: the entry of its peer goes, whatever stream it holds, and the peer is reported.\<close>

definition session_leave :: "reader \<Rightarrow> endpoint \<Rightarrow> endpoint" where
  "session_leave r ep =
     ep\<lparr>ep_sessions := hm_remove (rd_peer r) (ep_sessions ep),
        ep_readers := remove1 r (ep_readers ep),
        ep_tx := ep_tx ep @ [MNodeDisconnected (rd_peer r)]\<rparr>"

text \<open>A reader panics on an id it cannot parse: its task ends where it is, and the entry stays.\<close>

definition session_panic :: "reader \<Rightarrow> endpoint \<Rightarrow> endpoint" where
  "session_panic r ep = ep\<lparr>ep_readers := remove1 r (ep_readers ep), ep_panicked := ep_panicked ep @ [r]\<rparr>"

text \<open>The output layer finds the session of a peer closed.\<close>

definition session_drop :: "node_id \<Rightarrow> endpoint \<Rightarrow> endpoint" where
  "session_drop i ep =
     ep\<lparr>ep_sessions := hm_remove i (ep_sessions ep), ep_tx := ep_tx ep @ [MNodeDisconnected i]\<rparr>"

record connection =
  cn_conn :: conn_id
  cn_dialler :: node_id
  cn_acceptor :: node_id

text \<open>
  All managers, the streams opened so far, and those whose dialler has not yet read the
  \<open>ConnectResponse\<close> and holds the sending half itself.
\<close>

record session_net =
  sn_nodes :: "node_id \<Rightarrow> endpoint"
  sn_made :: "connection list"
  sn_pending :: "connection list"

definition session_init :: session_net where
  "session_init = \<lparr>sn_nodes = (\<lambda>_. new_endpoint), sn_made = [], sn_pending = []\<rparr>"

definition sender_alive :: "session_net \<Rightarrow> node_id \<Rightarrow> conn_id \<Rightarrow> bool" where
  "sender_alive n x c \<longleftrightarrow>
     c \<in> stream_conn ` set (map snd (ep_sessions (sn_nodes n x))) \<or>
     (\<exists>r \<in> set (ep_readers (sn_nodes n x)). rd_conn r = c \<and> rd_accepted r) \<or>
     (\<exists>k \<in> set (sn_pending n). cn_conn k = c \<and> cn_dialler k = x)"

definition reads :: "session_net \<Rightarrow> node_id \<Rightarrow> conn_id \<Rightarrow> bool" where
  "reads n x c \<longleftrightarrow> c \<in> rd_conn ` set (ep_readers (sn_nodes n x)) \<or>
     (\<exists>k \<in> set (sn_pending n). cn_conn k = c \<and> cn_dialler k = x)"

definition at_node :: "node_id \<Rightarrow> (endpoint \<Rightarrow> endpoint) \<Rightarrow> session_net \<Rightarrow> session_net" where
  "at_node x f n = n\<lparr>sn_nodes := (sn_nodes n)(x := f (sn_nodes n x))\<rparr>"

text \<open>
  The steps: a manager accepts a stream that another opened; the dialler enters its session; a reader
  whose stream has ended ends; the output layer drops a session nobody reads any more. With
  \<open>faults\<close>, the transport may fail and ids may be malformed: then any reader may end or panic, and a
  dialler may give up the stream it has opened.
\<close>

inductive session_step :: "bool \<Rightarrow> session_net \<Rightarrow> session_net \<Rightarrow> bool" for faults where
  accepts: "d \<noteq> a \<Longrightarrow> k = \<lparr>cn_conn = length (sn_made n), cn_dialler = d, cn_acceptor = a\<rparr> \<Longrightarrow>
    session_step faults n ((at_node a (session_enter d (Input (cn_conn k)) addr) n)
      \<lparr>sn_made := sn_made n @ [k], sn_pending := sn_pending n @ [k]\<rparr>)"
| completes: "k \<in> set (sn_pending n) \<Longrightarrow>
    session_step faults n ((at_node (cn_dialler k) (session_enter (cn_acceptor k) (Output (cn_conn k)) addr) n)
      \<lparr>sn_pending := remove1 k (sn_pending n)\<rparr>)"
| ends: "r \<in> set (ep_readers (sn_nodes n x)) \<Longrightarrow> faults \<or> \<not> sender_alive n (rd_peer r) (rd_conn r) \<Longrightarrow>
    session_step faults n (at_node x (session_leave r) n)"
| panics: "faults \<Longrightarrow> r \<in> set (ep_readers (sn_nodes n x)) \<Longrightarrow> session_step faults n (at_node x (session_panic r) n)"
| gives_up: "faults \<Longrightarrow> k \<in> set (sn_pending n) \<Longrightarrow>
    session_step faults n (n\<lparr>sn_pending := remove1 k (sn_pending n)\<rparr>)"
| drops: "hm_get (ep_sessions (sn_nodes n x)) i = Some s \<Longrightarrow> \<not> reads n i (stream_conn s) \<Longrightarrow>
    session_step faults n (at_node x (session_drop i) n)"

inductive session_reachable :: "bool \<Rightarrow> session_net \<Rightarrow> bool" for faults where
  sn_start: "session_reachable faults session_init"
| sn_step: "session_reachable faults n \<Longrightarrow> session_step faults n n' \<Longrightarrow> session_reachable faults n'"


section \<open>Invariant\<close>

fun stream_reader :: "node_id \<Rightarrow> io_stream \<Rightarrow> reader" where
  "stream_reader i (Input c) = \<lparr>rd_conn = c, rd_peer = i, rd_accepted = True\<rparr>"
| "stream_reader i (Output c) = \<lparr>rd_conn = c, rd_peer = i, rd_accepted = False\<rparr>"

lemma stream_reader_simps [simp]:
  "rd_peer (stream_reader i s) = i" "rd_conn (stream_reader i s) = stream_conn s"
  by (cases s; simp)+

lemma session_enter_reader:
  "ep_readers (session_enter i s addr ep) = ep_readers ep @ [stream_reader i s]"
  by (cases s) (simp_all add: session_enter_def)

lemma session_ops_simps [simp]:
  "ep_sessions (session_enter i s addr ep) = hm_insert i s (ep_sessions ep)"
  "ep_sessions (session_leave r ep) = hm_remove (rd_peer r) (ep_sessions ep)"
  "ep_readers (session_leave r ep) = remove1 r (ep_readers ep)"
  "ep_sessions (session_drop i ep) = hm_remove i (ep_sessions ep)" "ep_readers (session_drop i ep) = ep_readers ep"
  "ep_sessions (session_panic r ep) = ep_sessions ep" "ep_readers (session_panic r ep) = remove1 r (ep_readers ep)"
  "ep_panicked (session_panic r ep) = ep_panicked ep @ [r]" "ep_panicked (session_enter i s addr ep) = ep_panicked ep"
  "ep_panicked (session_leave r ep) = ep_panicked ep" "ep_panicked (session_drop i ep) = ep_panicked ep"
  by (simp_all add: session_enter_def session_leave_def session_drop_def session_panic_def)

lemma at_node_simps [simp]:
  "sn_nodes (at_node x f n) = (sn_nodes n)(x := f (sn_nodes n x))"
  "sn_made (at_node x f n) = sn_made n" "sn_pending (at_node x f n) = sn_pending n"
  by (simp_all add: at_node_def)

definition made_ok :: "session_net \<Rightarrow> bool" where
  "made_ok n \<longleftrightarrow> distinct (map cn_conn (sn_made n)) \<and> set (sn_pending n) \<subseteq> set (sn_made n) \<and> distinct (sn_pending n) \<and>
     (\<forall>k \<in> set (sn_made n). cn_conn k < length (sn_made n) \<and> cn_dialler k \<noteq> cn_acceptor k)"

text \<open>A reader belongs to a stream that was opened between its node and its peer.\<close>

definition reader_made :: "connection list \<Rightarrow> node_id \<Rightarrow> reader \<Rightarrow> bool" where
  "reader_made ks x r \<longleftrightarrow> (\<exists>k \<in> set ks. cn_conn k = rd_conn r \<and>
     (if rd_accepted r then cn_acceptor k = x \<and> cn_dialler k = rd_peer r
      else cn_dialler k = x \<and> cn_acceptor k = rd_peer r))"

definition readers_ok :: "session_net \<Rightarrow> bool" where
  "readers_ok n \<longleftrightarrow> (\<forall>x. \<forall>r \<in> set (ep_readers (sn_nodes n x)). reader_made (sn_made n) x r)"

lemma reader_made_mono: "reader_made ks x r \<Longrightarrow> reader_made (ks @ ks') x r"
  by (auto simp: reader_made_def)

lemma reader_made_new:
  "k \<in> set ks \<Longrightarrow> reader_made ks (cn_acceptor k) (stream_reader (cn_dialler k) (Input (cn_conn k)))"
  "k \<in> set ks \<Longrightarrow> reader_made ks (cn_dialler k) (stream_reader (cn_acceptor k) (Output (cn_conn k)))"
  by (auto simp: reader_made_def)

definition entries_ok :: "session_net \<Rightarrow> bool" where
  "entries_ok n \<longleftrightarrow> (\<forall>x i s. hm_get (ep_sessions (sn_nodes n x)) i = Some s \<longrightarrow>
     stream_reader i s \<in> set (ep_readers (sn_nodes n x)) \<union> set (ep_panicked (sn_nodes n x)))"

definition no_panics :: "session_net \<Rightarrow> bool" where
  "no_panics n \<longleftrightarrow> (\<forall>x. ep_panicked (sn_nodes n x) = [])"

lemma made_ok_step:
  assumes "session_step faults n n'" and "made_ok n"
  shows "made_ok n'"
  using assms
proof (induction rule: session_step.induct)
  case (accepts d a k n addr)
  then have "k \<notin> set (sn_made n)" by (auto simp: made_ok_def)
  with accepts show ?case by (auto simp: made_ok_def less_Suc_eq)
next
  case (completes k n addr)
  then show ?case by (auto simp: made_ok_def set_remove1_eq)
next
  case (gives_up k n)
  then show ?case by (auto simp: made_ok_def set_remove1_eq)
qed (auto simp: made_ok_def)

lemma readers_ok_step:
  assumes "session_step faults n n'" and "readers_ok n" and "made_ok n"
  shows "readers_ok n'"
  using assms
proof (induction rule: session_step.induct)
  case (accepts d a k n addr)
  then have "reader_made (sn_made n @ [k]) a (stream_reader d (Input (cn_conn k)))"
    using reader_made_new(1) [of k "sn_made n @ [k]"] by simp
  with accepts show ?case by (auto simp: readers_ok_def session_enter_reader reader_made_mono)
next
  case (completes k n addr)
  then have "k \<in> set (sn_made n)" by (auto simp: made_ok_def)
  from reader_made_new(2) [OF this] completes show ?case
    by (auto simp del: stream_reader.simps simp: readers_ok_def session_enter_reader)
next
  case (ends r n x)
  then show ?case by (auto simp: readers_ok_def dest: set_remove1_subset [THEN subsetD])
next
  case (panics r n x)
  then show ?case by (auto simp: readers_ok_def dest: set_remove1_subset [THEN subsetD])
qed (auto simp: readers_ok_def)

lemma entries_ok_step:
  assumes "session_step faults n n'" and "entries_ok n"
  shows "entries_ok n'"
  using assms
proof (induction rule: session_step.induct)
  case (ends r n x)
  have "stream_reader i s \<in> set (remove1 r (ep_readers (sn_nodes n x))) \<union> set (ep_panicked (sn_nodes n x))"
    if "i \<noteq> rd_peer r" "hm_get (ep_sessions (sn_nodes n x)) i = Some s" for i s
  proof -
    have "stream_reader i s \<noteq> r" using that(1) by auto
    with that ends show ?thesis by (auto simp: entries_ok_def in_set_remove1)
  qed
  with ends show ?case by (auto simp: entries_ok_def split: if_splits)
next
  case (panics r n x)
  have "y \<in> set (remove1 r ys) \<or> y = r" if "y \<in> set ys" for y ys
    using that by (cases "y = r") (simp_all add: in_set_remove1)
  with panics show ?case unfolding entries_ok_def by (simp, blast)
qed (auto simp: entries_ok_def session_enter_reader split: if_splits)

lemma no_panics_step: "session_step False n n' \<Longrightarrow> no_panics n \<Longrightarrow> no_panics n'"
  by (induction rule: session_step.induct) (auto simp: no_panics_def)

lemma fault_free_no_panics: "session_reachable False n \<Longrightarrow> no_panics n"
  by (induction rule: session_reachable.induct)
     (auto simp: no_panics_def session_init_def new_endpoint_def dest: no_panics_step [unfolded no_panics_def])

lemma session_reachable_inv:
  "session_reachable faults n \<Longrightarrow> made_ok n \<and> readers_ok n \<and> entries_ok n"
proof (induction rule: session_reachable.induct)
  case sn_start
  then show ?case by (simp add: made_ok_def readers_ok_def entries_ok_def session_init_def new_endpoint_def)
next
  case (sn_step n n')
  then show ?case using made_ok_step readers_ok_step entries_ok_step by blast
qed


section \<open>A single stream between two managers\<close>

text \<open>The only stream ever opened between its two managers, and the two entries it should have.\<close>

definition sole :: "session_net \<Rightarrow> connection \<Rightarrow> bool" where
  "sole n k \<longleftrightarrow> k \<in> set (sn_made n) \<and>
     (\<forall>k' \<in> set (sn_made n). {cn_dialler k', cn_acceptor k'} = {cn_dialler k, cn_acceptor k} \<longrightarrow> k' = k)"

definition connected :: "session_net \<Rightarrow> connection \<Rightarrow> bool" where
  "connected n k \<longleftrightarrow>
     hm_get (ep_sessions (sn_nodes n (cn_acceptor k))) (cn_dialler k) = Some (Input (cn_conn k)) \<and>
     (k \<in> set (sn_pending n) \<or>
      hm_get (ep_sessions (sn_nodes n (cn_dialler k))) (cn_acceptor k) = Some (Output (cn_conn k)))"

lemma entry_alive: "hm_get (ep_sessions (sn_nodes n x)) i = Some s \<Longrightarrow> sender_alive n x (stream_conn s)"
  by (force simp: sender_alive_def dest: map_of_SomeD)

lemma connected_alive:
  assumes "connected n k" and "x \<in> {cn_dialler k, cn_acceptor k}"
  shows "sender_alive n x (cn_conn k)"
  using assms entry_alive [of n "cn_acceptor k" "cn_dialler k"] entry_alive [of n "cn_dialler k" "cn_acceptor k"]
  by (auto simp: connected_def) (auto simp: sender_alive_def)

lemma connected_reads:
  assumes "connected n k" and "entries_ok n" "no_panics n" and "x \<in> {cn_dialler k, cn_acceptor k}"
  shows "reads n x (cn_conn k)"
proof -
  have "cn_conn k \<in> rd_conn ` set (ep_readers (sn_nodes n y))"
    if "hm_get (ep_sessions (sn_nodes n y)) i = Some s" "stream_conn s = cn_conn k" for y i s
    using assms(2,3) that unfolding entries_ok_def no_panics_def
    by (metis image_eqI list.set(1) stream_reader_simps(2) sup_bot.right_neutral)
  with assms(1,4) show ?thesis unfolding connected_def reads_def by fastforce
qed

lemma sole_reader:
  assumes "readers_ok n" and "sole n k" and "r \<in> set (ep_readers (sn_nodes n x))"
    and "{x, rd_peer r} = {cn_dialler k, cn_acceptor k}"
  shows "rd_conn r = cn_conn k"
proof -
  from assms(1,3) obtain k' where k': "k' \<in> set (sn_made n)" "cn_conn k' = rd_conn r"
    "if rd_accepted r then cn_acceptor k' = x \<and> cn_dialler k' = rd_peer r else cn_dialler k' = x \<and> cn_acceptor k' = rd_peer r"
    by (auto simp: readers_ok_def reader_made_def)
  then have "{cn_dialler k', cn_acceptor k'} = {x, rd_peer r}" by (auto split: if_splits)
  with assms(2,4) k'(1) have "k' = k" by (auto simp: sole_def)
  with k'(2) show ?thesis by simp
qed

lemma connected_frame:
  assumes "connected n k" and "sn_pending n' = sn_pending n"
    and "\<And>x i. {x, i} = {cn_dialler k, cn_acceptor k} \<Longrightarrow>
      hm_get (ep_sessions (sn_nodes n' x)) i = hm_get (ep_sessions (sn_nodes n x)) i"
  shows "connected n' k"
  using assms(1,2) assms(3) [of "cn_acceptor k" "cn_dialler k"] assms(3) [of "cn_dialler k" "cn_acceptor k"]
  unfolding connected_def by (simp add: insert_commute)

lemma connected_step:
  assumes "session_step False n n'" and inv: "made_ok n" "readers_ok n" "entries_ok n" "no_panics n"
    and kept: "\<And>k. sole n k \<Longrightarrow> connected n k" and "sole n' k"
  shows "connected n' k"
  using assms(1,7)
proof cases
  case (accepts d a k0 addr)
  show ?thesis
  proof (cases "k = k0")
    case True
    then show ?thesis using accepts by (simp add: connected_def)
  next
    case False
    with accepts assms(7) have s: "sole n k" and p: "{d, a} \<noteq> {cn_dialler k, cn_acceptor k}"
      by (auto simp: sole_def)
    with accepts kept [OF s] show ?thesis by (auto simp: connected_def doubleton_eq_iff)
  qed
next
  case (completes k0 addr)
  with assms(7) have s: "sole n k" by (simp add: sole_def)
  have k0: "k0 \<in> set (sn_made n)" "cn_dialler k \<noteq> cn_acceptor k"
    using completes(2) inv(1) s by (auto simp: made_ok_def sole_def)
  have d: "distinct (sn_pending n)" using inv(1) by (simp add: made_ok_def)
  show ?thesis
  proof (cases "k = k0")
    case True
    with completes kept [OF s] k0(2) show ?thesis by (simp add: connected_def)
  next
    case False
    with s k0(1) have "{cn_dialler k0, cn_acceptor k0} \<noteq> {cn_dialler k, cn_acceptor k}" by (auto simp: sole_def)
    with completes kept [OF s] False d show ?thesis by (auto simp: connected_def doubleton_eq_iff)
  qed
next
  case (ends r x)
  with assms(7) have s: "sole n k" by (simp add: sole_def)
  note c = kept [OF s]
  have "{x, rd_peer r} \<noteq> {cn_dialler k, cn_acceptor k}"
  proof
    assume eq: "{x, rd_peer r} = {cn_dialler k, cn_acceptor k}"
    then have "rd_peer r \<in> {cn_dialler k, cn_acceptor k}" by auto
    from connected_alive [OF c this] sole_reader [OF inv(2) s ends(2) eq] ends(3) show False by simp
  qed
  then show ?thesis using ends by (intro connected_frame [OF c]) (auto simp: doubleton_eq_iff)
next
  case (drops x i s)
  with assms(7) have sl: "sole n k" by (simp add: sole_def)
  note c = kept [OF sl]
  have "{x, i} \<noteq> {cn_dialler k, cn_acceptor k}"
  proof
    assume eq: "{x, i} = {cn_dialler k, cn_acceptor k}"
    have "stream_reader i s \<in> set (ep_readers (sn_nodes n x))" using drops(2) inv(3,4) by (simp add: entries_ok_def no_panics_def)
    from sole_reader [OF inv(2) sl this] eq have "stream_conn s = cn_conn k" by simp
    with connected_reads [OF c inv(3,4), of i] eq drops(3) show False by auto
  qed
  then show ?thesis using drops by (intro connected_frame [OF c]) (auto simp: doubleton_eq_iff)
qed simp_all

lemma sole_connected: "session_reachable False n \<Longrightarrow> sole n k \<Longrightarrow> connected n k"
proof (induction arbitrary: k rule: session_reachable.induct)
  case (sn_step n n')
  then show ?case using connected_step session_reachable_inv fault_free_no_panics by blast
qed (simp add: sole_def session_init_def)


section \<open>Properties\<close>

text \<open>
  C20: What holds of the entries in the tables of sessions. Whatever the transport does and whatever
  ids arrive, an entry has its reader running, which will remove it, or its reader has panicked on a
  malformed id and the entry is left over. Without transport failures and malformed ids no reader
  panics, and the only stream ever opened between two managers keeps both entries in place.
\<close>

theorem sessions_kept:
  "(session_reachable faults n \<longrightarrow> hm_get (ep_sessions (sn_nodes n x)) i = Some s \<longrightarrow>
      (\<exists>r. r \<in> set (ep_readers (sn_nodes n x)) \<union> set (ep_panicked (sn_nodes n x)) \<and> rd_conn r = stream_conn s \<and> rd_peer r = i)) \<and>
   (session_reachable False n \<longrightarrow> ep_panicked (sn_nodes n x) = []) \<and>
   (session_reachable False n \<longrightarrow> k \<in> set (sn_made n) \<longrightarrow>
      (\<forall>k' \<in> set (sn_made n). {cn_dialler k', cn_acceptor k'} = {cn_dialler k, cn_acceptor k} \<longrightarrow> k' = k) \<longrightarrow>
      k \<notin> set (sn_pending n) \<longrightarrow>
      hm_get (ep_sessions (sn_nodes n (cn_acceptor k))) (cn_dialler k) = Some (Input (cn_conn k)) \<and>
      hm_get (ep_sessions (sn_nodes n (cn_dialler k))) (cn_acceptor k) = Some (Output (cn_conn k)))"
proof (intro conjI impI)
  assume "session_reachable faults n" "hm_get (ep_sessions (sn_nodes n x)) i = Some s"
  then have "stream_reader i s \<in> set (ep_readers (sn_nodes n x)) \<union> set (ep_panicked (sn_nodes n x))"
    using session_reachable_inv by (auto simp: entries_ok_def)
  then show "\<exists>r. r \<in> set (ep_readers (sn_nodes n x)) \<union> set (ep_panicked (sn_nodes n x)) \<and> rd_conn r = stream_conn s \<and> rd_peer r = i"
    by (intro exI [of _ "stream_reader i s"]) simp
next
  assume "session_reachable False n"
  then show "ep_panicked (sn_nodes n x) = []" using fault_free_no_panics by (simp add: no_panics_def)
next
  assume "session_reachable False n" "k \<in> set (sn_made n)" "k \<notin> set (sn_pending n)"
    and "\<forall>k' \<in> set (sn_made n). {cn_dialler k', cn_acceptor k'} = {cn_dialler k, cn_acceptor k} \<longrightarrow> k' = k"
  then have "connected n k" "k \<notin> set (sn_pending n)" using sole_connected by (auto simp: sole_def)
  then show "hm_get (ep_sessions (sn_nodes n (cn_acceptor k))) (cn_dialler k) = Some (Input (cn_conn k))"
    and "hm_get (ep_sessions (sn_nodes n (cn_dialler k))) (cn_acceptor k) = Some (Output (cn_conn k))"
    by (auto simp: connected_def)
qed

text \<open>Manager \<open>a\<close> has dialled \<open>b\<close> and both have entered the session.\<close>

definition demo_dial :: "node_id \<Rightarrow> node_id \<Rightarrow> session_net \<Rightarrow> session_net" where
  "demo_dial d a n =
     (let k = \<lparr>cn_conn = length (sn_made n), cn_dialler = d, cn_acceptor = a\<rparr>;
          n1 = (at_node a (session_enter d (Input (cn_conn k)) (''h'', 1)) n)
            \<lparr>sn_made := sn_made n @ [k], sn_pending := sn_pending n @ [k]\<rparr>
      in (at_node d (session_enter a (Output (cn_conn k)) (''h'', 1)) n1)\<lparr>sn_pending := remove1 k (sn_pending n1)\<rparr>)"

lemma demo_dial_reachable:
  assumes "session_reachable faults n" and "d \<noteq> a"
  shows "session_reachable faults (demo_dial d a n)"
proof -
  let ?k = "\<lparr>cn_conn = length (sn_made n), cn_dialler = d, cn_acceptor = a\<rparr>"
  have "session_reachable faults ((at_node a (session_enter d (Input (cn_conn ?k)) (''h'', 1)) n)
      \<lparr>sn_made := sn_made n @ [?k], sn_pending := sn_pending n @ [?k]\<rparr>)"
    by (rule sn_step [OF assms(1)], rule session_step.accepts [OF assms(2)]) simp
  from sn_step [OF this session_step.completes [of ?k _ faults "(''h'', 1)"]] show ?thesis
    by (simp add: demo_dial_def Let_def)
qed

lemma sessions_kept_witness:
  "hm_get (ep_sessions (sn_nodes (demo_dial (NodeId ''a'') (NodeId ''b'') session_init) (NodeId ''b''))) (NodeId ''a'') =
     Some (Input 0)"
  using sessions_kept [of False "demo_dial (NodeId ''a'') (NodeId ''b'') session_init" "NodeId ''b''" "NodeId ''a''" "Input 0"
      "\<lparr>cn_conn = 0, cn_dialler = NodeId ''a'', cn_acceptor = NodeId ''b''\<rparr>"]
    demo_dial_reachable [OF sn_start, of "NodeId ''a''" "NodeId ''b''" False]
  by (simp add: demo_dial_def session_init_def Let_def)


text \<open>Entries are left over: after a malformed id a manager has a session without a reader, and its service is not told.\<close>

lemma panic_leaves_entry:
  assumes "d \<noteq> a"
  shows "\<exists>n. session_reachable True n \<and> hm_get (ep_sessions (sn_nodes n a)) d = Some (Input 0) \<and>
    ep_readers (sn_nodes n a) = [] \<and> MNodeDisconnected d \<notin> set (ep_tx (sn_nodes n a))"
proof -
  let ?n = "demo_dial d a session_init" and ?r = "\<lparr>rd_conn = 0, rd_peer = d, rd_accepted = True\<rparr>"
  have "session_reachable True ?n" by (intro demo_dial_reachable sn_start assms)
  moreover have "session_step True ?n (at_node a (session_panic ?r) ?n)"
    by (rule session_step.panics) (use assms in \<open>auto simp: demo_dial_def session_init_def new_endpoint_def session_enter_def Let_def\<close>)
  ultimately have "session_reachable True (at_node a (session_panic ?r) ?n)" by (rule sn_step)
  then show ?thesis
    by (intro exI [of _ "at_node a (session_panic ?r) ?n"] conjI)
      (use assms in \<open>simp_all add: demo_dial_def session_init_def new_endpoint_def session_enter_def session_panic_def Let_def\<close>)
qed

text \<open>
  C21: Two managers that dial each other lose both sessions. The first stream is in place on both
  sides when the second one is accepted; the new entry replaces the dialler's only sending half of
  the first, whose reader on the other side ends and removes the entry of the second stream. From
  there, without any failure, both sides lose their entry and all four readers, and both services
  are told that the other manager has disconnected.
\<close>

theorem crossed_dials_disconnect:
  assumes "a \<noteq> b"
  shows "\<exists>n. session_reachable False n \<and>
    sn_made n = [\<lparr>cn_conn = 0, cn_dialler = a, cn_acceptor = b\<rparr>, \<lparr>cn_conn = 1, cn_dialler = b, cn_acceptor = a\<rparr>] \<and>
    sn_pending n = [] \<and> ep_sessions (sn_nodes n a) = [] \<and> ep_sessions (sn_nodes n b) = [] \<and>
    ep_readers (sn_nodes n a) = [] \<and> ep_readers (sn_nodes n b) = [] \<and>
    MNodeDisconnected b \<in> set (ep_tx (sn_nodes n a)) \<and> MNodeDisconnected a \<in> set (ep_tx (sn_nodes n b))"
proof -
  note defs = demo_dial_def session_init_def new_endpoint_def session_enter_def session_leave_def sender_alive_def Let_def
  define n0 where "n0 = demo_dial b a (demo_dial a b session_init)"
  define n1 where "n1 = at_node b (session_leave \<lparr>rd_conn = 0, rd_peer = a, rd_accepted = True\<rparr>) n0"
  define n2 where "n2 = at_node a (session_leave \<lparr>rd_conn = 1, rd_peer = b, rd_accepted = True\<rparr>) n1"
  define n3 where "n3 = at_node a (session_leave \<lparr>rd_conn = 0, rd_peer = b, rd_accepted = False\<rparr>) n2"
  define n4 where "n4 = at_node b (session_leave \<lparr>rd_conn = 1, rd_peer = a, rd_accepted = False\<rparr>) n3"
  have ba: "b \<noteq> a" using assms by simp
  have "session_reachable False n0"
    unfolding n0_def by (intro demo_dial_reachable sn_start assms ba)
  then have "session_reachable False n1"
    unfolding n1_def by (rule sn_step, intro session_step.ends) (use assms ba in \<open>auto simp: n0_def defs\<close>)
  then have "session_reachable False n2"
    unfolding n2_def by (rule sn_step, intro session_step.ends) (use assms ba in \<open>auto simp: n0_def n1_def defs\<close>)
  then have "session_reachable False n3"
    unfolding n3_def by (rule sn_step, intro session_step.ends) (use assms ba in \<open>auto simp: n0_def n1_def n2_def defs\<close>)
  then have "session_reachable False n4"
    unfolding n4_def by (rule sn_step, intro session_step.ends) (use assms ba in \<open>auto simp: n0_def n1_def n2_def n3_def defs\<close>)
  moreover have "sn_made n4 = [\<lparr>cn_conn = 0, cn_dialler = a, cn_acceptor = b\<rparr>, \<lparr>cn_conn = 1, cn_dialler = b, cn_acceptor = a\<rparr>]"
    "sn_pending n4 = []" "ep_sessions (sn_nodes n4 a) = []" "ep_sessions (sn_nodes n4 b) = []"
    "ep_readers (sn_nodes n4 a) = []" "ep_readers (sn_nodes n4 b) = []"
    "MNodeDisconnected b \<in> set (ep_tx (sn_nodes n4 a))" "MNodeDisconnected a \<in> set (ep_tx (sn_nodes n4 b))"
    using assms ba by (simp_all add: n0_def n1_def n2_def n3_def n4_def defs)
  ultimately show ?thesis by blast
qed

lemma crossed_dials_disconnect_witness:
  "\<exists>n. session_reachable False n \<and> length (sn_made n) = 2 \<and> ep_sessions (sn_nodes n (NodeId ''a'')) = []"
  using crossed_dials_disconnect [of "NodeId ''a''" "NodeId ''b''"] by fastforce

end
