(* ===== verification/Partition_Removal.thy ===== *)
theory Partition_Removal
  imports Worker_Node
begin

text \<open>
  When a worker gives a partition up. \<open>sync_partitions\<close> removes from the store the partitions whose
  entry of the synchronisation state is empty and that this worker does not own
  (worker/service/partitions.rs, \<open>remove_completed_syncs_and_obsolete_partitions\<close>).

  The first part takes the call apart for one partition: what a recipient's turn does depends
  only on the partition and on the recipient's own state, and in a partition without an active
  writer a recipient is without an unconfirmed state afterwards exactly when its transfer was
  declared complete. From this follows when the partition is removed, and with the invariant of
  \<open>Migration\<close> that every recipient then holds all of it. The last part is the case the first one
  excludes: while a writer is registered, which a concurrent removal of an expired record does
  (\<open>get_versioned\<close> and \<open>remove_expired\<close> hold the partition's shard shared, \<open>put\<close> and \<open>delete_at\<close>
  exclusively), the first call removes a partition of which nothing was sent.
\<close>

section \<open>One recipient's turn\<close>

text \<open>What a turn returns depends on the store only through the partition.\<close>

lemma same_partition_reads:
  assumes "hm_get (cache s) p = hm_get (cache s') p"
  shows "get_partition_mutations s p n c = get_partition_mutations s' p n c"
    and "get_partition_changes s p v n = get_partition_changes s' p v n"
    and "stable_partition_revision s p = stable_partition_revision s' p"
    and "journal_length s p = journal_length s' p"
  using assms by (simp_all add: get_partition_mutations_def get_partition_changes_def
      stable_partition_revision_def journal_length_def)

lemma same_partition_next_changes:
  "hm_get (cache s) p = hm_get (cache s') p \<Longrightarrow> next_changes n s p c = next_changes n s' p c"
  by (induction n arbitrary: c) (simp_all add: same_partition_reads(2) [of s p s'] split: option.split)

lemma same_partition_batches:
  assumes "hm_get (cache s) p = hm_get (cache s') p"
  shows "sync_batch s r p c me = sync_batch s' r p c me"
    and "sync_change_batch s r p v me = sync_change_batch s' r p v me"
  by (simp_all add: sync_batch_def sync_change_batch_def same_partition_reads [OF assms]
      same_partition_next_changes [OF assms])

lemma same_partition_turn:
  assumes "hm_get (cache s) p = hm_get (cache s') p"
  shows "sync_partition_to_recipient now s me p r states = sync_partition_to_recipient now s' me p r states"
  unfolding sync_partition_to_recipient_def start_sync_def continue_confirmed_sync_def continue_changes_def
    retry_timed_out_sync_def same_partition_reads(3) [OF assms] same_partition_batches [OF assms] ..

lemma same_state_turn:
  assumes "hm_get states r = hm_get states' r"
  shows "fst (sync_partition_to_recipient now s me p r states) \<longleftrightarrow>
    fst (sync_partition_to_recipient now s me p r states')"
  using assms by (auto simp: sync_partition_to_recipient_def start_sync_def split: option.split prod.split)

text \<open>A recipient whose transfer is done: it has no state, or a confirmed one.\<close>

definition entry_done :: "sync_state option \<Rightarrow> bool" where
  "entry_done e = (case e of None \<Rightarrow> True | Some ss \<Rightarrow> ss_confirmed ss)"

lemma continue_changes_done:
  assumes "stable_partition_revision s p \<noteq> None" and "continue_changes now s me p r v ss = (c, ss', out)"
  shows "c \<longleftrightarrow> ss_confirmed ss'"
  using assms by (auto simp: continue_changes_def split: prod.splits option.splits)

lemma continue_confirmed_done:
  assumes "stable_partition_revision s p \<noteq> None" and "continue_confirmed_sync now s me p r ss = (c, ss', out)"
  shows "c \<longleftrightarrow> ss_confirmed ss'"
  using assms(2) continue_changes_done [OF assms(1)]
  by (auto simp: continue_confirmed_sync_def split: prod.splits option.splits sync_phase.splits)

lemma retry_unconfirmed: "retry_timed_out_sync now s me p r ss = (ss', out) \<Longrightarrow> \<not> ss_confirmed ss \<Longrightarrow> \<not> ss_confirmed ss'"
  by (auto simp: retry_timed_out_sync_def Let_def split: prod.splits option.splits if_splits)

lemma turn_done:
  assumes quiet: "stable_partition_revision s p \<noteq> None"
    and call: "sync_partition_to_recipient now s me p r states = (c, states', out)"
  shows "c \<longleftrightarrow> entry_done (hm_get states' r)"
proof (cases "hm_get states r")
  case None
  with call quiet show ?thesis
    by (auto simp: sync_partition_to_recipient_def start_sync_def entry_done_def split: prod.splits option.splits)
next
  case (Some ss)
  with call continue_confirmed_done [OF quiet] retry_unconfirmed [of now s me p r ss] show ?thesis
    by (auto simp: sync_partition_to_recipient_def entry_done_def split: if_splits prod.splits)
qed

lemma sync_one_done:
  assumes "stable_partition_revision s p \<noteq> None" and "sync_one clk s me p r (st, out) = (st', out')"
  shows "entry_done (sync_entry p r st') \<longleftrightarrow>
    fst (sync_partition_to_recipient (clk p r) s me p r (hm_or_default [] p (w_sync st)))"
  by (rule sync_one_cases [OF assms(2)]) (auto simp: sync_entry_def dest: turn_done [OF assms(1)])

section \<open>One partition's turn\<close>

lemma sync_all_done:
  assumes quiet: "stable_partition_revision s p \<noteq> None"
    and step: "fold (sync_one clk s me p) rcs (st, out) = (st', out')" and "distinct rcs" and "r \<in> set rcs"
  shows "entry_done (sync_entry p r st') \<longleftrightarrow>
    fst (sync_partition_to_recipient (clk p r) s me p r (hm_or_default [] p (w_sync st)))"
proof -
  obtain xs ys where rcs: "rcs = xs @ r # ys" using assms(4) by (meson split_list)
  obtain st1 out1 where xs: "fold (sync_one clk s me p) xs (st, out) = (st1, out1)" by (metis surj_pair)
  obtain st2 out2 where one: "sync_one clk s me p r (st1, out1) = (st2, out2)" by (metis surj_pair)
  have ys: "fold (sync_one clk s me p) ys (st2, out2) = (st', out')" using step xs one by (simp add: rcs)
  have notin: "r \<notin> set xs" "r \<notin> set ys" using assms(3) by (auto simp: rcs)
  from sync_one_done [OF quiet one] sync_all_other [OF xs notin(1)] sync_all_other [OF ys notin(2)]
  show ?thesis unfolding sync_entry_def using same_state_turn by metis
qed

lemma sync_one_has_entry: "sync_one clk s me p r (st, out) = (st', out') \<Longrightarrow> hm_get (w_sync st') p \<noteq> None"
  by (erule sync_one_cases) simp

lemma sync_all_has_entry:
  "fold (sync_one clk s me p) rcs (st, out) = (st', out') \<Longrightarrow>
   rcs \<noteq> [] \<or> hm_get (w_sync st) p \<noteq> None \<Longrightarrow> hm_get (w_sync st') p \<noteq> None"
proof (induction rcs arbitrary: st out)
  case (Cons x rcs)
  obtain st1 out1 where one: "sync_one clk s me p x (st, out) = (st1, out1)" by (metis surj_pair)
  with Cons.prems have "fold (sync_one clk s me p) rcs (st1, out1) = (st', out')" by simp
  from Cons.IH [OF this] sync_one_has_entry [OF one] show ?case by simp
qed simp

lemma prune_after_sync_empties:
  assumes "prune_after_sync p (st, s) = (st', s')" and "hm_wf (hm_or_default [] p (w_sync st))"
  shows "hm_get (w_sync st') p = Some [] \<longleftrightarrow>
    hm_get (w_sync st) p \<noteq> None \<and> (\<forall>r. entry_done (sync_entry p r st))"
proof (cases "hm_get (w_sync st) p")
  case None
  with assms(1) show ?thesis by (auto simp: prune_after_sync_def)
next
  case (Some states)
  then have wf: "hm_wf states" using assms(2) by (simp add: hm_or_default_def)
  have "hm_retain (\<lambda>_ ss. \<not> ss_confirmed ss) states = [] \<longleftrightarrow> (\<forall>r ss. hm_get states r = Some ss \<longrightarrow> ss_confirmed ss)"
    using wf by (force simp: hm_retain_def filter_empty_conv dest: map_of_SomeD)
  with assms(1) Some show ?thesis
    by (auto simp: prune_after_sync_def Let_def sync_entry_def hm_or_default_def entry_done_def split: option.splits)
qed

text \<open>
  The entry a partition's turn leaves behind is empty exactly when every recipient was declared
  complete, provided no writer is registered and nobody else is being served.
\<close>

lemma sync_partition_empties:
  assumes quiet: "stable_partition_revision s p \<noteq> None" and wf: "wstate_wf st" and "distinct rcs"
    and "\<forall>r\<in>set rcs. hm_get (w_nodes st) r \<noteq> None"
    and served: "\<forall>r. sync_entry p r st \<noteq> None \<longrightarrow> r \<in> set rcs" and nonempty: "hm_get (w_sync st) p \<noteq> Some []"
    and step: "sync_partition clk me p rcs (st, s, out) = (st', s', out')"
  shows "hm_get (w_sync st') p = Some [] \<longleftrightarrow> rcs \<noteq> [] \<and>
    (\<forall>r\<in>set rcs. fst (sync_partition_to_recipient (clk p r) s me p r (hm_or_default [] p (w_sync st))))"
proof -
  let ?keep = "hm_retain (\<lambda>r _. hm_get (w_nodes st) r \<noteq> None)"
  define st1 where "st1 = st\<lparr>w_sync := hm_update p ?keep (w_sync st)\<rparr>"
  obtain st2 out2 where all: "fold (sync_one clk s me p) rcs (st1, out) = (st2, out2)" by (metis surj_pair)
  have prune: "prune_after_sync p (st2, s) = (st', s')"
    using step all by (auto simp: sync_partition_def Let_def st1_def split: prod.splits)
  have states1: "hm_or_default [] p (w_sync st1) = ?keep (hm_or_default [] p (w_sync st))"
    by (simp add: st1_def hm_or_default_def hm_retain_def split: option.split)
  have entry1: "sync_entry p r st1 = sync_entry p r st" for r
    using assms(4) served by (cases "sync_entry p r st") (auto simp: sync_entry_def states1 hm_get_retain_keys)
  have wf2: "hm_wf (hm_or_default [] p (w_sync st2))"
    by (rule sync_all_wf [OF all]) (use wf in \<open>simp add: states1 wstate_wf_def\<close>)
  have turns: "entry_done (sync_entry p r st2) \<longleftrightarrow> (r \<in> set rcs \<longrightarrow>
      fst (sync_partition_to_recipient (clk p r) s me p r (hm_or_default [] p (w_sync st))))" for r
  proof (cases "r \<in> set rcs")
    case True
    with sync_all_done [OF quiet all assms(3) True] entry1 [of r]
      same_state_turn [of "hm_or_default [] p (w_sync st1)" r "hm_or_default [] p (w_sync st)" "clk p r" s me p]
    show ?thesis by (simp add: sync_entry_def)
  next
    case False
    with sync_all_other [OF all False] entry1 served show ?thesis by (auto simp: entry_done_def split: option.split)
  qed
  have entry: "hm_get (w_sync st2) p \<noteq> None \<longleftrightarrow> rcs \<noteq> []"
  proof (cases "rcs = []")
    case True
    with served have "hm_or_default [] p (w_sync st) = []"
      by (cases "hm_or_default [] p (w_sync st)") (auto simp: sync_entry_def dest: spec [of _ "fst _"] split: if_splits)
    with nonempty have "hm_get (w_sync st) p = None" by (auto simp: hm_or_default_def split: option.splits)
    with True all show ?thesis by (auto simp: st1_def)
  qed (use sync_all_has_entry [OF all] in blast)
  show ?thesis using prune_after_sync_empties [OF prune wf2] turns entry by auto
qed

section \<open>The removal\<close>

abbreviation sync_recipients :: "me \<Rightarrow> wstate \<Rightarrow> partition_id \<Rightarrow> node_id hash_set" where
  "sync_recipients me st p \<equiv> get_node_ids_curr_node_has_to_sync_the_partition_to p (me_id me) (w_partitions st)
     (w_nodes st) (hm_get (get_currently_synced_actual_nodes st) p)"

lemma sync_recipients_distinct:
  "distinct (get_node_ids_curr_node_has_to_sync_the_partition_to p i parts nodes synced)"
  unfolding get_node_ids_curr_node_has_to_sync_the_partition_to_def Let_def
  by (rule distinct_filter)
    (cases "hm_get (mapping parts) p"; cases "hm_get (new_replicas parts) p"; cases synced; auto)

lemma sync_recipients_connected:
  assumes "r \<in> set (get_node_ids_curr_node_has_to_sync_the_partition_to p i parts nodes synced)"
  shows "hm_get nodes r \<noteq> None"
  using assms unfolding get_node_ids_curr_node_has_to_sync_the_partition_to_def Let_def set_filter by blast

lemma sync_partition_holds:
  assumes "sync_partition clk me q rcs (st, s, out) = (st', s', out')"
  shows "hm_get (cache s') p = None \<longleftrightarrow> hm_get (cache s) p = None"
  using assms by (auto simp: sync_partition_def prune_after_sync_def prune_partition_changes_def hm_get_update Let_def
      split: prod.splits option.splits if_splits)

lemma kept_partition:
  "hm_get (cache s) p \<noteq> None \<Longrightarrow> \<forall>states. (p, states) \<in> set sync \<longrightarrow> states \<noteq> [] \<or> \<not> P p \<Longrightarrow>
   hm_get (cache (fold (\<lambda>(p, states) s. if states = [] \<and> P p then remove_partition s p else s) sync s)) p \<noteq> None"
proof (induction sync arbitrary: s)
  case (Cons e sync)
  obtain q states where e: "e = (q, states)" by (cases e)
  let ?s = "if states = [] \<and> P q then remove_partition s q else s"
  have "hm_get (cache ?s) p \<noteq> None" using Cons.prems by (auto simp: e remove_partition_def)
  from Cons.IH [OF this] Cons.prems(2) show ?case by (auto simp: e)
qed simp

lemma obsolete_removed_iff:
  assumes "remove_completed_syncs_and_obsolete_partitions me (st, s) = (st', s')"
    and "hm_get (cache s) p \<noteq> None" and "wstate_wf st"
  shows "hm_get (cache s') p = None \<longleftrightarrow>
    hm_get (w_sync st) p = Some [] \<and> \<not> node_owns_partition (w_partitions st) p (me_id me)"
proof
  assume gone: "hm_get (cache s') p = None"
  have "hm_wf (w_sync st)" using assms(3) by (simp add: wstate_wf_def)
  then have "(p, []) \<in> set (w_sync st) \<longleftrightarrow> hm_get (w_sync st) p = Some []" by auto
  moreover have "(p, []) \<in> set (w_sync st) \<and> \<not> node_owns_partition (w_partitions st) p (me_id me)"
    using kept_partition [OF assms(2), of "w_sync st" "\<lambda>p. \<not> node_owns_partition (w_partitions st) p (me_id me)"]
      gone assms(1) by (auto simp: remove_completed_syncs_and_obsolete_partitions_def)
  ultimately show "hm_get (w_sync st) p = Some [] \<and> \<not> node_owns_partition (w_partitions st) p (me_id me)" by blast
qed (use remove_obsolete_drops [OF assms(1)] in blast)

text \<open>When a call removes a partition that nobody writes at that moment.\<close>

lemma partition_removed_iff:
  assumes wf: "wstate_wf st" "store_wf s" and part: "part < PARTITIONS_AMOUNT" "p = PartitionId (word_of_nat part)"
    and held: "hm_get (cache s) p \<noteq> None" and quiet: "stable_partition_revision s p \<noteq> None"
    and served: "\<forall>r. sync_entry p r st \<noteq> None \<longrightarrow> r \<in> set (sync_recipients me st p)"
    and nonempty: "hm_get (w_sync st) p \<noteq> Some []"
    and step: "sync_partitions clk me st s = (st', s', out)"
  shows "hm_get (cache s') p = None \<longleftrightarrow> \<not> node_owns_partition (w_partitions st) p (me_id me) \<and>
    sync_recipients me st p \<noteq> [] \<and>
    (\<forall>r\<in>set (sync_recipients me st p).
       fst (sync_partition_to_recipient (clk p r) s me p r (hm_or_default [] p (w_sync st))))"
proof (rule sync_partitions_turn [OF wf part step])
  fix st1 s1 out1 st2 s2 out2 st3 s3
  assume st1: "same_cluster st st1" "wstate_wf st1" "store_wf s1" "hm_get (w_sync st1) p = hm_get (w_sync st) p"
      "hm_get (cache s1) p = hm_get (cache s) p"
    and turn: "sync_partition clk me p (sync_recipients me st p) (st1, s1, out1) = (st2, s2, out2)"
    and st3: "hm_get (w_sync st3) p = hm_get (w_sync st2) p" "hm_get (cache s3) p = hm_get (cache s2) p" "wstate_wf st3"
      "w_partitions st3 = w_partitions st"
    and rm: "remove_completed_syncs_and_obsolete_partitions me (st3, s3) = (st', s')"
  have default: "hm_or_default [] p (w_sync st1) = hm_or_default [] p (w_sync st)"
    using st1(4) by (simp add: hm_or_default_def)
  have "hm_get (w_sync st2) p = Some [] \<longleftrightarrow> sync_recipients me st p \<noteq> [] \<and>
    (\<forall>r\<in>set (sync_recipients me st p).
       fst (sync_partition_to_recipient (clk p r) s1 me p r (hm_or_default [] p (w_sync st1))))"
  proof (rule sync_partition_empties [OF _ st1(2) sync_recipients_distinct _ _ _ turn])
    show "stable_partition_revision s1 p \<noteq> None" using quiet same_partition_reads(3) [OF st1(5)] by simp
    show "\<forall>r\<in>set (sync_recipients me st p). hm_get (w_nodes st1) r \<noteq> None"
      using st1(1) sync_recipients_connected by (fastforce simp: same_cluster_def)
  qed (use served nonempty st1(4) default in \<open>simp_all add: sync_entry_def\<close>)
  moreover have "hm_get (cache s3) p \<noteq> None" using sync_partition_holds [OF turn] st3(2) st1(5) held by simp
  ultimately show ?thesis
    using obsolete_removed_iff [OF rm _ st3(3)] st3 default same_partition_turn [OF st1(5)] by auto
qed

section \<open>A partition with an active writer\<close>

lemma start_sync_refused:
  assumes "stable_partition_revision s p = None"
  shows "sync_partition_to_recipient now s me p r [] = (False, [], [])"
  using assms by (simp add: sync_partition_to_recipient_def start_sync_def)

lemma sync_one_refused:
  assumes "stable_partition_revision s p = None" and "hm_or_default [] p (w_sync st) = []"
  shows "sync_one clk s me p r (st, out) = (st\<lparr>w_sync := hm_insert p [] (w_sync st)\<rparr>, out)"
  using assms by (simp add: sync_one_def start_sync_refused)

lemma sync_all_refused:
  "stable_partition_revision s p = None \<Longrightarrow> hm_or_default [] p (w_sync st) = [] \<Longrightarrow> rcs \<noteq> [] \<Longrightarrow>
   fold (sync_one clk s me p) rcs (st, out) = (st', out') \<Longrightarrow> hm_get (w_sync st') p = Some [] \<and> out' = out"
proof (induction rcs arbitrary: st)
  case (Cons x rcs)
  let ?st = "st\<lparr>w_sync := hm_insert p [] (w_sync st)\<rparr>"
  from Cons.prems have "fold (sync_one clk s me p) rcs (?st, out) = (st', out')" by (simp add: sync_one_refused)
  with Cons.IH [of ?st] Cons.prems(1) show ?case by (cases "rcs = []") auto
qed simp

lemma sync_partition_refused:
  assumes "stable_partition_revision s p = None" and "hm_get (w_sync st) p = None" and "rcs \<noteq> []"
    and "sync_partition clk me p rcs (st, s, out) = (st', s', out')"
  shows "hm_get (w_sync st') p = Some [] \<and> out' = out"
proof -
  let ?st = "st\<lparr>w_sync := hm_update p (hm_retain (\<lambda>r _. hm_get (w_nodes st) r \<noteq> None)) (w_sync st)\<rparr>"
  obtain st2 out2 where all: "fold (sync_one clk s me p) rcs (?st, out) = (st2, out2)" by (metis surj_pair)
  have prune: "prune_after_sync p (st2, s) = (st', s')" and "out' = out2"
    using assms(4) all by (auto simp: sync_partition_def Let_def split: prod.splits)
  moreover have "hm_get (w_sync st2) p = Some [] \<and> out2 = out"
    by (rule sync_all_refused [OF assms(1) _ assms(3) all]) (simp add: hm_or_default_def assms(2))
  ultimately show ?thesis by (auto simp: prune_after_sync_def Let_def hm_retain_def split: option.splits)
qed

section \<open>Properties\<close>

text \<open>The sender of the demo run after its last acknowledgement, as a former owner of the partition.\<close>

abbreviation demo_leaving_me :: me where
  "demo_leaving_me \<equiv> \<lparr>me_id = NodeId ''a'', me_host = ''a'', me_port = 1\<rparr>"

definition demo_leaving :: migration where
  "demo_leaving = demo_end\<lparr>mi_state := (mi_state demo_end)\<lparr>w_partitions :=
     \<lparr>mapping = [(PartitionId 1, \<lparr>p_master = NodeId ''b'', p_replicas = []\<rparr>)],
      old_replicas = [(PartitionId 1, [NodeId ''a''])], new_replicas = []\<rparr>\<rparr>\<rparr>"

definition demo_expiring :: runtime_store where
  "demo_expiring = \<lparr>cache = [(PartitionId 1, \<lparr>records = [(Key 1, Delete 5)], changes = [(1, Key 1)],
     active_writers = 1, revision = 1\<rparr>)], next_revision = 1\<rparr>"

text \<open>
  C7: a worker gives a partition up only when somebody else has it. When a call of \<open>sync_partitions\<close>
  removes a partition from the store, no writer being registered and the recipients being those
  the transfer was started for, there is at least one recipient, and every recipient
  holds every key of the partition in the sender's version or a newer one.
\<close>

theorem removed_partition_delivered:
  assumes "wstate_wf st" and "store_wf s" and "part < PARTITIONS_AMOUNT" and "p = PartitionId (word_of_nat part)"
    and "hm_get (cache s) p = Some ps" and "active_writers ps = 0"
    and "\<forall>r. sync_entry p r st \<noteq> None \<longrightarrow> r \<in> set (sync_recipients me st p)" and "hm_get (w_sync st) p \<noteq> Some []"
    and "sync_partitions clk me st s = (st', s', out)" and "hm_get (cache s') p = None"
  shows "sync_recipients me st p \<noteq> [] \<and>
    (\<forall>r mi k m. r \<in> set (sync_recipients me st p) \<longrightarrow> migration_reachable me p r mi \<longrightarrow>
       mi_sender mi = s \<longrightarrow> mi_state mi = st \<longrightarrow> key_partition k = p \<longrightarrow> store_lookup s k = Some m \<longrightarrow>
       (\<exists>m'. store_lookup (mi_recipient mi) k = Some m' \<and> version m \<le> version m'))"
proof -
  have "stable_partition_revision s p \<noteq> None"
    using assms(5,6) by (simp add: stable_partition_revision_def stable_revision_eq)
  with partition_removed_iff [OF assms(1-4) _ _ assms(7-9)] assms(5,10)
  have sent: "sync_recipients me st p \<noteq> []"
    "\<And>r. r \<in> set (sync_recipients me st p) \<Longrightarrow>
       fst (sync_partition_to_recipient (clk p r) s me p r (hm_or_default [] p (w_sync st)))" by auto
  have "\<exists>m'. store_lookup (mi_recipient mi) k = Some m' \<and> version m \<le> version m'"
    if "r \<in> set (sync_recipients me st p)" and mi: "migration_reachable me p r mi" "mi_sender mi = s" "mi_state mi = st"
      and k: "key_partition k = p" "store_lookup s k = Some m" for r mi k m
  proof -
    note completed = sent(2) [OF \<open>r \<in> set (sync_recipients me st p)\<close>]
    obtain states o' where
      "sync_partition_to_recipient (clk p r) (mi_sender mi) me p r (hm_or_default [] p (w_sync (mi_state mi))) = (True, states, o')"
      using completed mi(2,3) by (metis (full_types) prod.collapse)
    from completed_transferred [OF mi(1) this] k mi(2) have "at_least (mi_recipient mi) k m"
      by (simp add: transferred_def)
    then show ?thesis by (auto simp: at_least_def split: option.splits)
  qed
  with sent(1) show ?thesis by blast
qed

lemma demo_leaving_parts:
  shows "w_nodes (mi_state demo_leaving) =
      [(NodeId ''b'', \<lparr>n_host = ''b'', n_port = 2, n_last_heartbeat = 0, n_node_type = Worker\<rparr>)]"
    and "w_sync (mi_state demo_leaving) = [(PartitionId 1, [(NodeId ''b'',
      \<lparr>ss_prev_max_key = None, ss_curr_max_key = Key 1, ss_phase = Snapshot 1, ss_confirmed = True,
       ss_last_start_time = 0\<rparr>)])]"
    and "w_actual_nodes_sync_completion (mi_state demo_leaving) = []"
    and "w_partitions (mi_state demo_leaving) =
      \<lparr>mapping = [(PartitionId 1, \<lparr>p_master = NodeId ''b'', p_replicas = []\<rparr>)],
       old_replicas = [(PartitionId 1, [NodeId ''a''])], new_replicas = []\<rparr>"
    and "sync_recipients demo_leaving_me (mi_state demo_leaving) (PartitionId 1) = [NodeId ''b'']"
    and "fst (sync_partition_to_recipient (0, 0) (mi_sender demo_leaving) demo_leaving_me (PartitionId 1) (NodeId ''b'')
      (hm_or_default [] (PartitionId 1) (w_sync (mi_state demo_leaving))))"
    and "mi_sender demo_leaving = \<lparr>cache = [(PartitionId 1, \<lparr>records = [(Key 1, Delete 5)], changes = [],
      active_writers = 0, revision = 1\<rparr>)], next_revision = 1\<rparr>"
  by code_simp+

theorem removed_partition_delivered_witness:
  "\<exists>m'. store_lookup (mi_recipient demo_leaving) (Key 1) = Some m' \<and> version (Delete 5) \<le> version m'"
proof -
  let ?st = "mi_state demo_leaving" and ?s = "mi_sender demo_leaving" and ?p = "PartitionId 1" and ?clk = "\<lambda>_ _. (0, 0)"
  let ?ps = "\<lparr>records = [(Key 1, Delete 5)], changes = [], active_writers = 0, revision = 1\<rparr>"
  have reach: "migration_reachable demo_leaving_me ?p (NodeId ''b'') demo_leaving"
    unfolding demo_leaving_def by (rule other_event [OF demo_end_reachable]) simp
  have wf: "wstate_wf ?st" "store_wf ?s"
    using migration_invariant [OF reach]
    by (simp_all add: wstate_wf_def parts_wf_def hm_or_default_def demo_leaving_parts migration_wf_def split: option.split)
  have p: "1 < PARTITIONS_AMOUNT" "?p = PartitionId (word_of_nat 1)" by (simp_all add: PARTITIONS_AMOUNT_def)
  have held: "hm_get (cache ?s) ?p = Some ?ps" "active_writers ?ps = 0" by (simp_all add: demo_leaving_parts)
  have served: "\<forall>r. sync_entry ?p r ?st \<noteq> None \<longrightarrow> r \<in> set (sync_recipients demo_leaving_me ?st ?p)"
    "hm_get (w_sync ?st) ?p \<noteq> Some []"
    unfolding demo_leaving_parts(5) by (simp_all add: sync_entry_def hm_or_default_def demo_leaving_parts(2))
  obtain st' s' out where step: "sync_partitions ?clk demo_leaving_me ?st ?s = (st', s', out)" by (metis prod_cases3)
  have "hm_get (cache s') ?p = None"
    using partition_removed_iff [OF wf p _ _ served step] demo_leaving_parts(5,6) held
    by (simp add: stable_partition_revision_def stable_revision_eq node_owns_partition_def demo_leaving_parts(4))
  from removed_partition_delivered [OF wf p held served step this]
  have "NodeId ''b'' \<in> set (sync_recipients demo_leaving_me ?st ?p) \<longrightarrow> key_partition (Key 1) = ?p \<longrightarrow>
      store_lookup ?s (Key 1) = Some (Delete 5) \<longrightarrow> ?thesis" using reach by blast
  then show ?thesis using demo_leaving_parts(5) held(1) by (simp add: store_lookup_def key_partition_word)
qed

text \<open>
  C33: a former owner can lose a partition it has never sent. When the first call of
  \<open>sync_partitions\<close> for a partition finds a writer registered, nothing is sent to any recipient,
  yet the call leaves an empty entry behind and removes the partition with all its records.
\<close>

theorem active_writer_drops_partition:
  assumes "wstate_wf st" and "store_wf s" and "part < PARTITIONS_AMOUNT" and "p = PartitionId (word_of_nat part)"
    and "hm_get (cache s) p = Some ps" and "active_writers ps \<noteq> 0" and "hm_get (w_sync st) p = None"
    and "sync_recipients me st p \<noteq> []" and "\<not> node_owns_partition (w_partitions st) p (me_id me)"
    and "sync_partitions clk me st s = (st', s', out)" and "key_partition k = p"
  shows "store_lookup s' k = None \<and>
    (\<forall>r. sync_partition_to_recipient (clk p r) s me p r (hm_or_default [] p (w_sync st)) = (False, [], []))"
proof -
  have busy: "stable_partition_revision s p = None"
    using assms(5,6) by (simp add: stable_partition_revision_def stable_revision_eq)
  have "hm_get (cache s') p = None"
  proof (rule sync_partitions_turn [OF assms(1-4,10)])
    fix st1 s1 out1 st2 s2 out2 st3 s3
    assume st1: "hm_get (w_sync st1) p = hm_get (w_sync st) p" "hm_get (cache s1) p = hm_get (cache s) p"
      and turn: "sync_partition clk me p (sync_recipients me st p) (st1, s1, out1) = (st2, s2, out2)"
      and st3: "hm_get (w_sync st3) p = hm_get (w_sync st2) p" "w_partitions st3 = w_partitions st"
      and rm: "remove_completed_syncs_and_obsolete_partitions me (st3, s3) = (st', s')"
    have "stable_partition_revision s1 p = None" using busy same_partition_reads(3) [OF st1(2)] by simp
    from sync_partition_refused [OF this _ assms(8) turn] assms(7) st1(1) have "hm_get (w_sync st2) p = Some []" by simp
    with remove_obsolete_drops [OF rm] st3 assms(9) show ?thesis by simp
  qed
  with assms(7,11) start_sync_refused [OF busy] show ?thesis by (simp add: store_lookup_def hm_or_default_def)
qed

theorem active_writer_drops_partition_witness:
  "store_lookup demo_expiring (Key 1) = Some (Delete 5) \<and>
   store_lookup (fst (snd (sync_partitions (\<lambda>_ _. (0, 0)) demo_leaving_me
     ((mi_state demo_leaving)\<lparr>w_sync := []\<rparr>) demo_expiring))) (Key 1) = None"
proof -
  let ?st = "(mi_state demo_leaving)\<lparr>w_sync := []\<rparr>" and ?p = "PartitionId 1" and ?clk = "\<lambda>_ _. (0, 0)"
  let ?ps = "\<lparr>records = [(Key 1, Delete 5)], changes = [(1, Key 1)], active_writers = 1, revision = 1\<rparr>"
  have wf: "wstate_wf ?st" "store_wf demo_expiring"
    by (simp_all add: wstate_wf_def parts_wf_def hm_or_default_def demo_leaving_parts) code_simp
  have p: "1 < PARTITIONS_AMOUNT" "?p = PartitionId (word_of_nat 1)" by (simp_all add: PARTITIONS_AMOUNT_def)
  have held: "hm_get (cache demo_expiring) ?p = Some ?ps" "active_writers ?ps \<noteq> 0" by (simp_all add: demo_expiring_def)
  have other: "hm_get (w_sync ?st) ?p = None" "sync_recipients demo_leaving_me ?st ?p \<noteq> []"
    "\<not> node_owns_partition (w_partitions ?st) ?p (me_id demo_leaving_me)" by code_simp+
  obtain st' s' out where step: "sync_partitions ?clk demo_leaving_me ?st demo_expiring = (st', s', out)" by (metis prod_cases3)
  have "key_partition (Key 1) = ?p" by (simp add: key_partition_word)
  from active_writer_drops_partition [OF wf p held other step this] step held(1) this show ?thesis
    by (simp add: store_lookup_def)
qed

end
