(* ===== verification/Change_Retry.thy ===== *)
theory Change_Retry
  imports Migration
begin

text \<open>
  A repeated batch of journalled changes (worker/service/partitions.rs, \<open>retry_timed_out_sync\<close>).
  The first attempt records the revision its batch reaches; a repetition reads the journal anew
  from the confirmed revision and keeps the recorded one. \<open>sync_change_batch\<close> skips pages of the
  journal without records, so the two batches can end at different revisions: when a key of a
  skipped page is written again in between, the repetition ends earlier and the changes between
  the two ends are passed over.
\<close>

fun sent_keys :: "worker_protocol list \<Rightarrow> key list" where
  "sent_keys [] = []"
| "sent_keys (WSyncBatch _ req # out) = map dr_key (sb_records req) @ sent_keys out"
| "sent_keys (_ # out) = sent_keys out"

section \<open>The revisions a batch covers\<close>

lemma get_partition_changes_within:
  assumes "store_wf s" and "get_partition_changes s p n SYNC_BATCH_SIZE = Some (r, recs)" and "(k, m) \<in> set recs"
  obtains v where "(v, k) \<in> set (part_changes s p)" and "n < v" and "v \<le> r"
proof -
  obtain ps where ps: "hm_get (cache s) p = Some ps"
    using assms(2) by (auto simp: get_partition_changes_def split: option.splits)
  have pc: "part_changes s p = changes ps" by (simp add: part_changes_def ps)
  have sm: "sm_wf (changes ps)" using part_wfD(2) [OF assms(1), of p] by (simp add: pc)
  let ?ch = "take SYNC_BATCH_SIZE (filter (\<lambda>e. n < fst e) (changes ps))"
  have "sm_wf ?ch" using sm by (simp add: sorted_wrt_map sorted_wrt_filter sorted_wrt_take)
  moreover have "?ch \<noteq> []" "r = fst (last ?ch)"
    "recs = List.map_filter (\<lambda>(_, k). map_option (\<lambda>m. (k, m)) (hm_get (records ps) k)) ?ch"
    using assms(2) ps by (auto simp: get_partition_changes_def Let_def after_cursor_filter sm split: if_splits)
  moreover from this(3) assms(3) obtain v where "(v, k) \<in> set ?ch" by (auto simp: map_filter_def)
  ultimately have "(v, k) \<in> set ?ch" "v \<le> r" using sm_wf_last [of ?ch] by (auto intro!: Max_ge image_eqI [of _ fst])
  moreover from this(1) have "(v, k) \<in> set (changes ps)" "n < v" by (auto dest!: in_set_takeD)
  ultimately show thesis using that pc by simp
qed

lemma next_changes_within:
  assumes "store_wf s" and "next_changes fuel s p n = Some (r, recs)" and "(k, m) \<in> set recs"
  shows "\<exists>v. (v, k) \<in> set (part_changes s p) \<and> n < v \<and> v \<le> r"
  using assms(2)
proof (induction fuel arbitrary: n)
  case (Suc fuel)
  from Suc.prems obtain r0 recs0 where g: "get_partition_changes s p n SYNC_BATCH_SIZE = Some (r0, recs0)"
    by (auto split: option.splits)
  show ?case
  proof (cases "recs0 = []")
    case True
    with g Suc.prems have rest: "next_changes fuel s p r0 = Some (r, recs)" by simp
    have "n < r0" by (rule get_partition_changes_page(1) [OF assms(1) g])
    with Suc.IH [OF rest] show ?thesis by (meson order.strict_trans)
  next
    case False
    with g Suc.prems have "get_partition_changes s p n SYNC_BATCH_SIZE = Some (r, recs)" by simp
    from get_partition_changes_within [OF assms(1) this assms(3)] show ?thesis by blast
  qed
qed simp

lemma change_batch_within:
  assumes "store_wf s" and "sync_change_batch s i p n me = (res, out)" and "k \<in> set (sent_keys out)"
  obtains v q k0 where "res = Some (q, k0)" and "(v, k) \<in> set (part_changes s p)" and "n < v" and "v \<le> q"
proof -
  obtain q recs where recs: "next_changes (Suc (journal_length s p)) s p n = Some (q, recs)"
    and res: "res = Some (q, Max (set (map fst recs)))" and k: "k \<in> fst ` set recs"
    using assms(2,3) unfolding sync_change_batch_def
    by (auto split: option.splits prod.splits simp del: next_changes.simps)
  then obtain m where "(k, m) \<in> set recs" by auto
  from next_changes_within [OF assms(1) recs this] that [OF res] show thesis by blast
qed

section \<open>A journal with a page of expired keys\<close>

text \<open>
  Key 0 is written a thousand times with a short lifetime, then key 4096 of the same partition,
  then key 0 expires. The batch behind revision 1 skips the first page of the journal and reaches
  revision 1002; after key 0 has been written again, the batch behind revision 1 ends at 1001.
\<close>

definition writes_of :: "key \<Rightarrow> nat \<Rightarrow> nat \<Rightarrow> (u64 \<times> key) list" where
  "writes_of k a b = map (\<lambda>i. (word_of_nat i, k)) [a..<b]"

definition demo_page :: "(u64 \<times> key) list" where
  "demo_page = writes_of (Key 0) 2 1002"

definition demo_expired :: runtime_store where
  "demo_expired = \<lparr>cache = [(PartitionId 0, \<lparr>records = [(Key 4096, Delete 5), (Key 8192, Delete 1)],
     changes = demo_page @ [(1002, Key 4096)], active_writers = 0, revision = 1003\<rparr>)], next_revision = 1003\<rparr>"

definition demo_rewritten :: runtime_store where
  "demo_rewritten = delete_at demo_expired (Key 0) 9"

definition demo_change_state :: sync_state where
  "demo_change_state = \<lparr>ss_prev_max_key = None, ss_curr_max_key = Key 4096, ss_phase = Changes 1 1002,
     ss_confirmed = False, ss_last_start_time = 0\<rparr>"

abbreviation demo_retry_me :: me where
  "demo_retry_me \<equiv> \<lparr>me_id = NodeId ''a'', me_host = ''a'', me_port = 1\<rparr>"

lemma unat_revision: "i < 2 ^ 64 \<Longrightarrow> unat (word_of_nat i :: u64) = i"
  by (simp add: unat_of_nat)

lemma writes_of_entry:
  assumes "e \<in> set (writes_of k a b)" and "b < 2 ^ 64"
  shows "snd e = k \<and> a \<le> unat (fst e) \<and> unat (fst e) < b"
proof -
  obtain i where "e = (word_of_nat i, k)" "a \<le> i" "i < b" using assms(1) by (auto simp: writes_of_def)
  with assms(2) unat_revision [of i] show ?thesis by simp
qed

lemma writes_of_wf:
  assumes "b < 2 ^ 64"
  shows "sm_wf (writes_of k a b)"
  using assms
  by (auto simp: writes_of_def sorted_wrt_map unat_revision word_less_nat_alt intro!: sorted_wrt_mono_rel [OF _ sorted_wrt_upt])

lemma writes_of_end: "length (writes_of k a b) = b - a" "a < b \<Longrightarrow> last (writes_of k a b) = (word_of_nat (b - 1), k)"
  by (simp_all add: writes_of_def last_map)

lemma demo_page_entry: "e \<in> set demo_page \<Longrightarrow> snd e = Key 0 \<and> 1 < fst e \<and> fst e < 1002"
  using writes_of_entry [of e "Key 0" 2 1002] by (simp add: demo_page_def word_less_nat_alt)

lemma demo_page_wf: "sm_wf demo_page"
  unfolding demo_page_def by (rule writes_of_wf) simp

lemma demo_page_end: "length demo_page = 1000" "demo_page \<noteq> []" "last demo_page = (1001, Key 0)"
proof -
  show len: "length demo_page = 1000" by (simp add: demo_page_def writes_of_end)
  then show "demo_page \<noteq> []" by auto
  show "last demo_page = (1001, Key 0)" by (simp add: demo_page_def writes_of_end)
qed

lemma sm_insert_last: "\<forall>e\<in>set m. fst e < k \<Longrightarrow> sm_insert k v m = m @ [(k, v)]"
  by (induction m) auto

lemma demo_rewritten_eq:
  "demo_rewritten = \<lparr>cache = [(PartitionId 0, \<lparr>records = [(Key 0, Delete 9), (Key 4096, Delete 5), (Key 8192, Delete 1)],
     changes = (demo_page @ [(1002, Key 4096)]) @ [(1004, Key 0)], active_writers = 0, revision = 1004\<rparr>)], next_revision = 1004\<rparr>"
proof -
  have "\<forall>e\<in>set (demo_page @ [(1002, Key 4096)]). fst e < 1004"
    by (auto dest!: demo_page_entry intro: order.strict_trans [of _ 1002])
  from sm_insert_last [OF this, of "Key 0"] show ?thesis
    by (simp add: demo_rewritten_def demo_expired_def delete_at_def mutate_def writer_def writer_drop_def Let_def
        hm_or_default_def sm_compare_insert_def key_partition_word)
qed

lemma page_of_changes:
  assumes "hm_get (cache s) p = Some ps" and "sm_wf (changes ps)" and "filter (\<lambda>e. n < fst e) (changes ps) = page @ rest"
    and "length page = SYNC_BATCH_SIZE \<or> length page \<le> SYNC_BATCH_SIZE \<and> rest = []" and "page \<noteq> []"
  shows "get_partition_changes s p n SYNC_BATCH_SIZE =
    Some (fst (last page), List.map_filter (\<lambda>(_, k). map_option (\<lambda>m. (k, m)) (hm_get (records ps) k)) page)"
  using assms by (auto simp: get_partition_changes_def Let_def after_cursor_filter)

lemma demo_filters:
  shows "filter (\<lambda>e. 1 < fst e) demo_page = demo_page" and "filter (\<lambda>e. 1001 < fst e) demo_page = []"
proof -
  show "filter (\<lambda>e. 1 < fst e) demo_page = demo_page" by (rule filter_True) (auto dest: demo_page_entry)
  have "fst e \<le> 1001" if "e \<in> set demo_page" for e
    using demo_page_entry [OF that] by (simp add: word_le_nat_alt word_less_nat_alt)
  then show "filter (\<lambda>e. 1001 < fst e) demo_page = []" by (auto simp: filter_empty_conv leD)
qed

lemma demo_page_records:
  "List.map_filter (\<lambda>(_, k). map_option (\<lambda>m. (k, m)) (hm_get recs k)) demo_page =
   (case hm_get recs (Key 0) of None \<Rightarrow> [] | Some m \<Rightarrow> replicate 1000 (Key 0, m))"
proof -
  have "List.map_filter (\<lambda>(_, k). map_option (\<lambda>m. (k, m)) (hm_get recs k)) xs =
     (case hm_get recs (Key 0) of None \<Rightarrow> [] | Some m \<Rightarrow> replicate (length xs) (Key 0, m))"
    if "\<forall>e\<in>set xs. snd e = Key 0" for xs :: "(u64 \<times> key) list"
    using that by (induction xs) (auto simp: map_filter_def split: option.splits)
  from this [of demo_page, unfolded demo_page_end(1)] demo_page_entry show ?thesis by blast
qed

lemma demo_change_wf: "sm_wf (demo_page @ [(1002, Key 4096)])" "sm_wf ((demo_page @ [(1002, Key 4096)]) @ [(1004, Key 0)])"
proof -
  have "\<forall>e\<in>set demo_page. fst e < 1002 \<and> fst e < 1004"
    by (auto dest!: demo_page_entry intro: order.strict_trans [of _ 1002])
  with demo_page_wf show "sm_wf (demo_page @ [(1002, Key 4096)])" "sm_wf ((demo_page @ [(1002, Key 4096)]) @ [(1004, Key 0)])"
    by (simp_all add: sorted_wrt_append)
qed

text \<open>The first attempt: a page without records, then the batch that is recorded.\<close>

lemma demo_first_batch:
  "sync_change_batch demo_expired (NodeId ''b'') (PartitionId 0) 1 demo_retry_me =
     (Some (1002, Key 4096), [WSyncBatch (NodeId ''b'')
        \<lparr>sb_sender_id = NodeId ''a'', sb_records = [mutation_to_domain (Key 4096, Delete 5)]\<rparr>])"
proof -
  let ?ps = "\<lparr>records = [(Key 4096, Delete 5), (Key 8192, Delete 1)], changes = demo_page @ [(1002, Key 4096)],
    active_writers = 0, revision = 1003\<rparr>"
  have ps: "hm_get (cache demo_expired) (PartitionId 0) = Some ?ps" by (simp add: demo_expired_def)
  have "get_partition_changes demo_expired (PartitionId 0) 1 SYNC_BATCH_SIZE =
      Some (fst (last demo_page), case hm_get (records ?ps) (Key 0) of None \<Rightarrow> [] | Some m \<Rightarrow> replicate 1000 (Key 0, m))"
    unfolding demo_page_records [symmetric]
    by (rule page_of_changes [OF ps, where rest = "[(1002, Key 4096)]"])
      (use demo_page_end demo_change_wf(1) demo_filters(1) in \<open>simp_all add: SYNC_BATCH_SIZE_def\<close>)
  then have "get_partition_changes demo_expired (PartitionId 0) 1 SYNC_BATCH_SIZE = Some (1001, [])"
    by (simp add: demo_page_end(3))
  moreover have "get_partition_changes demo_expired (PartitionId 0) 1001 SYNC_BATCH_SIZE =
      Some (1002, [(Key 4096, Delete 5)])"
    using page_of_changes [OF ps, of 1001 "[(1002, Key 4096)]" "[]"] demo_change_wf(1) demo_filters(2)
    by (simp add: SYNC_BATCH_SIZE_def map_filter_def)
  ultimately have "next_changes (Suc (Suc n)) demo_expired (PartitionId 0) 1 = Some (1002, [(Key 4096, Delete 5)])" for n
    by simp
  moreover have "journal_length demo_expired (PartitionId 0) = Suc 1000"
    by (simp add: journal_length_def ps demo_page_end)
  ultimately have "next_changes (Suc (journal_length demo_expired (PartitionId 0))) demo_expired (PartitionId 0) 1 =
      Some (1002, [(Key 4096, Delete 5)])" by metis
  then show ?thesis by (simp add: sync_change_batch_def del: next_changes.simps)
qed

text \<open>The repetition, after key 0 has been written again.\<close>

lemma demo_second_batch:
  "sync_change_batch demo_rewritten (NodeId ''b'') (PartitionId 0) 1 demo_retry_me =
     (Some (1001, Key 0), [WSyncBatch (NodeId ''b'')
        \<lparr>sb_sender_id = NodeId ''a'', sb_records = replicate 1000 (mutation_to_domain (Key 0, Delete 9))\<rparr>])"
proof -
  let ?ps = "\<lparr>records = [(Key 0, Delete 9), (Key 4096, Delete 5), (Key 8192, Delete 1)],
    changes = (demo_page @ [(1002, Key 4096)]) @ [(1004, Key 0)], active_writers = 0, revision = 1004\<rparr>"
  have ps: "hm_get (cache demo_rewritten) (PartitionId 0) = Some ?ps" by (simp add: demo_rewritten_eq)
  have "get_partition_changes demo_rewritten (PartitionId 0) 1 SYNC_BATCH_SIZE =
      Some (fst (last demo_page), case hm_get (records ?ps) (Key 0) of None \<Rightarrow> [] | Some m \<Rightarrow> replicate 1000 (Key 0, m))"
    unfolding demo_page_records [symmetric]
    by (rule page_of_changes [OF ps, where rest = "[(1002, Key 4096), (1004, Key 0)]"])
      (use demo_page_end demo_change_wf(2) demo_filters(1) in \<open>simp_all add: SYNC_BATCH_SIZE_def\<close>)
  then have "get_partition_changes demo_rewritten (PartitionId 0) 1 SYNC_BATCH_SIZE =
      Some (1001, replicate 1000 (Key 0, Delete 9))"
    by (simp add: demo_page_end(3))
  moreover have "replicate 1000 (Key 0, Delete 9) \<noteq> []" "set (replicate 1000 (Key 0, Delete 9)) = {(Key 0, Delete 9)}"
    by simp_all
  ultimately show ?thesis
    by (simp add: sync_change_batch_def)
qed

section \<open>Properties\<close>

text \<open>
  C34: a repeated batch of changes can pass over changes for good. When the repetition of a timed-out
  batch ends at a revision before the recorded one, it does not carry a key whose changes lie
  between the two; the state keeps the recorded revision, and so once the repetition is
  acknowledged the transfer goes on behind it, where no batch carries the key either.
\<close>

theorem retry_skips_changes:
  assumes "store_wf s" and "ss_phase ss = Changes confirmed pending" and "\<not> ss_confirmed ss"
    and "\<not> fst now - ss_last_start_time ss < SYNC_TIMEOUT_MS"
    and "sync_change_batch s i p confirmed me = (Some (reached, k0), batch)" and "reached < pending"
    and "\<And>v. (v, k) \<in> set (part_changes s p) \<Longrightarrow> reached < v \<and> v \<le> pending"
    and "hm_get states i = Some ss"
  shows "sync_partition_to_recipient now s me p i states =
      (False, hm_insert i (ss\<lparr>ss_curr_max_key := k0, ss_confirmed := False, ss_last_start_time := snd now\<rparr>) states, batch) \<and>
    k \<notin> set (sent_keys batch) \<and>
    continue_confirmed_sync now' s me p i
      (ss\<lparr>ss_curr_max_key := k0, ss_confirmed := True, ss_last_start_time := snd now\<rparr>) =
    continue_changes now' s me p i pending
      (ss\<lparr>ss_curr_max_key := k0, ss_confirmed := True, ss_last_start_time := snd now\<rparr>) \<and>
    (\<forall>n. pending \<le> n \<longrightarrow> k \<notin> set (sent_keys (snd (sync_change_batch s i p n me))))"
proof (intro conjI allI impI)
  show "sync_partition_to_recipient now s me p i states =
      (False, hm_insert i (ss\<lparr>ss_curr_max_key := k0, ss_confirmed := False, ss_last_start_time := snd now\<rparr>) states, batch)"
    using assms(2-5,8) by (simp add: sync_partition_to_recipient_def retry_timed_out_sync_def)
  show "k \<notin> set (sent_keys batch)"
    using change_batch_within [OF assms(1,5)] assms(7) by (metis leD option.inject prod.inject)
  show "k \<notin> set (sent_keys (snd (sync_change_batch s i p n me)))" if n: "pending \<le> n" for n
  proof
    assume "k \<in> set (sent_keys (snd (sync_change_batch s i p n me)))"
    with change_batch_within [OF assms(1) prod.collapse [symmetric]] obtain v
      where "(v, k) \<in> set (part_changes s p)" "n < v" by metis
    with assms(7) [of v] n have "v \<le> n" by (blast intro: order.trans)
    with \<open>n < v\<close> show False by simp
  qed
qed (use assms(2) in \<open>simp add: continue_confirmed_sync_def\<close>)

theorem retry_skips_changes_witness:
  "fst (sync_change_batch demo_expired (NodeId ''b'') (PartitionId 0) 1 demo_retry_me) = Some (1002, Key 4096) \<and>
   store_lookup demo_rewritten (Key 4096) = Some (Delete 5) \<and>
   Key 4096 \<notin> set (sent_keys (snd (snd (sync_partition_to_recipient (60000, 60000) demo_rewritten demo_retry_me
     (PartitionId 0) (NodeId ''b'') [(NodeId ''b'', demo_change_state)])))) \<and>
   Key 4096 \<notin> set (sent_keys (snd (sync_change_batch demo_rewritten (NodeId ''b'') (PartitionId 0) 1002 demo_retry_me)))"
proof -
  have wf: "store_wf demo_rewritten"
    using demo_change_wf(2) by (auto simp: store_wf_def part_wf_def demo_rewritten_eq key_partition_word list_all_iff
        dest!: demo_page_entry)
  have state: "ss_phase demo_change_state = Changes 1 1002" "\<not> ss_confirmed demo_change_state"
    "\<not> fst (60000, 60000::u64) - ss_last_start_time demo_change_state < SYNC_TIMEOUT_MS"
    by (simp_all add: demo_change_state_def SYNC_TIMEOUT_MS_def)
  have between: "1001 < v \<and> v \<le> 1002" if "(v, Key 4096) \<in> set (part_changes demo_rewritten (PartitionId 0))" for v
    using that by (auto simp: part_changes_def demo_rewritten_eq dest!: demo_page_entry)
  have "store_lookup demo_rewritten (Key 4096) = Some (Delete 5)"
    by (simp add: store_lookup_def demo_rewritten_eq key_partition_word)
  moreover have "(1001::u64) < 1002" by simp
  ultimately show ?thesis
    using retry_skips_changes [OF wf state demo_second_batch _ between, of "Key 4096" "[(NodeId ''b'', demo_change_state)]"]
      demo_first_batch by auto
qed

end
