(* ===== verification/Sync_Delivery.thy ===== *)
theory Sync_Delivery
  imports Migration Worker_Grpc
begin

text \<open>
  A batch of a transfer and its acknowledgement, on their whole way: the sender's
  synchronisation emits the batch (worker/service/partitions.rs), its output loop writes it to the
  session of the recipient (worker/grpc.rs, worker/grpc/output.rs), the recipient's input task reads it
  (worker/grpc/input.rs), its service applies it and answers, and the answer comes back the same
  way. \<open>Migration\<close> passes both messages on as they are; here this is proved of the wire.
\<close>

text \<open>
  What \<open>g\<close> writes for message \<open>m\<close> goes to the open session of the worker \<open>me2\<close>, and that worker reads
  \<open>m'\<close> from it; nothing is reported as disconnected.
\<close>

definition delivers :: "wgrpc \<Rightarrow> worker_protocol \<Rightarrow> me \<Rightarrow> worker_protocol \<Rightarrow> bool" where
  "delivers g m me2 m' \<longleftrightarrow>
     (\<exists>g' a b ev. wg_output m g = Some g' \<and> wg_tx g' = wg_tx g \<and>
        hm_get (wg_worker_sessions g) (me_id me2) = Some a \<and> hm_get (wg_worker_sessions g') (me_id me2) = Some b \<and>
        sent b = sent a @ [ev] \<and> wg_on_peer_event me2 (me_id (wg_me g)) ev = Emit m')"

section \<open>The wire\<close>

lemma key_of_value [simp]: "Key (key_value k) = k"
  by (cases k) simp

lemma sync_record_round_trip [simp]: "grpc_record_to_sync (sync_record_to_grpc r) = r"
  by (cases r; cases "dr_key r") (simp add: grpc_record_to_sync_def sync_record_to_grpc_def)

lemma max_keys_round_trip:
  assumes "hm_wf mk"
  shows "hm_collect (map (\<lambda>(p, k). (PartitionId (ucast p), Key k))
    (hm_collect (map (\<lambda>(p, k). (ucast (partition_number p) :: u32, key_value k)) mk))) = mk"
proof -
  have "map ((\<lambda>(p, k). (PartitionId (ucast p), Key k)) \<circ> (\<lambda>(p, k). (ucast (partition_number p) :: u32, key_value k))) mk = mk"
    by (rule map_idI) (auto simp: partition_number_round_trip)
  with hm_collect_distinct [OF assms] hm_collect_distinct [OF hm_wf_partition_keys [OF assms, of key_value]]
  show ?thesis by simp
qed

lemma wg_to_worker_open:
  assumes "hm_get (wg_worker_sessions g) i = Some a" and "\<not> closed a"
  shows "wg_tx (wg_to_worker ev i g) = wg_tx g"
    and "hm_get (wg_worker_sessions (wg_to_worker ev i g)) i = Some (a\<lparr>sent := sent a @ [ev]\<rparr>)"
  using assms by (simp_all add: wg_to_worker_def handle_common_open session_send_def)

lemma deliversI:
  assumes "hm_get (wg_worker_sessions g) (me_id me2) = Some a" and "\<not> closed a"
    and "wg_output m g = Some (wg_to_worker ev (me_id me2) g)" and "wg_on_peer_event me2 (me_id (wg_me g)) ev = Emit m'"
  shows "delivers g m me2 m'"
proof -
  have "sent (a\<lparr>sent := sent a @ [ev]\<rparr>) = sent a @ [ev]" by simp
  with assms wg_to_worker_open [OF assms(1,2), of ev] show ?thesis unfolding delivers_def by blast
qed

lemma delivers_batch:
  assumes "hm_get (wg_worker_sessions g) (me_id me2) = Some a" and "\<not> closed a" and "sb_sender_id req = me_id (wg_me g)"
  shows "delivers g (WSyncBatch (me_id me2) req) me2 (WSyncBatch (me_id me2) req)"
  using assms(3) by (intro deliversI [OF assms(1,2)]) (simp add: wg_output_sync_batch_def, cases req, simp add: comp_def)

lemma delivers_response:
  assumes "hm_get (wg_worker_sessions g) (me_id me2) = Some a" and "\<not> closed a" and "hm_wf mk"
  shows "delivers g (WSyncBatchResponse (me_id me2) mk) me2 (WSyncBatchResponse (me_id (wg_me g)) mk)"
proof (rule deliversI [OF assms(1,2)])
  let ?ev = "PESyncBatchResponse (hm_collect (map (\<lambda>(p, k). (ucast (partition_number p), key_value k)) mk))"
  show "wg_output (WSyncBatchResponse (me_id me2) mk) g = Some (wg_to_worker ?ev (me_id me2) g)"
    by (simp add: wg_output_sync_batch_response_def)
  show "wg_on_peer_event me2 (me_id (wg_me g)) ?ev = Emit (WSyncBatchResponse (me_id (wg_me g)) mk)"
    by (simp add: max_keys_round_trip [OF assms(3)])
qed

lemma note_max_keys_wf: "hm_wf m \<Longrightarrow> hm_wf (fold (\<lambda>r. note_max_key (dr_key r)) rs m)"
  by (induction rs arbitrary: m) (simp_all add: note_max_key_def split: option.split)

section \<open>Properties\<close>

text \<open>
  C8: a batch arrives and comes back acknowledged. What a transfer emits for its recipient is one
  batch; the sender's gRPC layer writes it to the recipient's session, the recipient reads that
  batch, holds each of its mutations or a newer one afterwards, and answers; the sender reads the
  answer and handling it confirms the batch. Nothing is lost or altered by the encoding.
\<close>

theorem sync_batch_round_trip:
  assumes "store_wf s" and "store_wf rs" and "r = me_id (wg_me h)"
    and "sync_partition_to_recipient now s (wg_me g) p r states = (c, states', out)" and "out \<noteq> []"
    and "hm_get (w_sync st) p = Some states'"
    and "hm_get (wg_worker_sessions g) r = Some a" and "\<not> closed a"
    and "hm_get (wg_worker_sessions h) (me_id (wg_me g)) = Some b" and "\<not> closed b"
  shows "\<exists>us req rs' mk ss st'. out = [WSyncBatch r req] \<and> sb_records req = map mutation_to_domain us \<and>
    delivers g (WSyncBatch r req) (wg_me h) (WSyncBatch r req) \<and>
    w_dispatch (wg_me h) rd2 (WSyncBatch r req) st2 rs = (st2, rs', [WSyncBatchResponse (me_id (wg_me g)) mk]) \<and>
    (\<forall>k m. (k, m) \<in> set us \<longrightarrow> at_least rs' k m) \<and>
    delivers h (WSyncBatchResponse (me_id (wg_me g)) mk) (wg_me g) (WSyncBatchResponse r mk) \<and>
    w_dispatch (wg_me g) rd (WSyncBatchResponse r mk) st s = (st', s, []) \<and>
    hm_get states' r = Some ss \<and> sync_entry p r st' = Some (ss\<lparr>ss_confirmed := True\<rparr>)"
proof -
  obtain ss where ss: "hm_get states' r = Some ss" "batch_of p (ss_curr_max_key ss) out r (me_id (wg_me g))"
    using sync_to_recipient_of [OF assms(1,4,5)] by blast
  then obtain us where out: "out = [WSyncBatch r \<lparr>sb_sender_id = me_id (wg_me g), sb_records = map mutation_to_domain us\<rparr>]"
    by (auto simp: batch_of_def)
  let ?req = "\<lparr>sb_sender_id = me_id (wg_me g), sb_records = map mutation_to_domain us\<rparr>"
  let ?mk = "fold (\<lambda>r. note_max_key (dr_key r)) (sb_records ?req) []"
  let ?rs = "fst (handle_sync_batch ?req rs)"
  have handled: "handle_sync_batch ?req rs = (?rs, [WSyncBatchResponse (me_id (wg_me g)) ?mk])"
    using handle_sync_batch_answer [of ?req rs] by (simp add: prod_eq_iff)
  have batch: "delivers g (WSyncBatch r ?req) (wg_me h) (WSyncBatch r ?req)"
    unfolding assms(3) by (rule delivers_batch) (use assms(3,7,8) in simp_all)
  have "(p, ss_curr_max_key ss) \<in> set ?mk"
    by (rule batch_answer [OF _ handled]) (use ss(2) out in auto)
  moreover have "sync_entry p r st = Some ss" using assms(6) ss(1) by (simp add: sync_entry_def hm_or_default_def)
  ultimately have "sync_entry p r (handle_sync_batch_response ?mk r st) = Some (ss\<lparr>ss_confirmed := True\<rparr>)"
    using response_matching by blast
  moreover have "delivers h (WSyncBatchResponse (me_id (wg_me g)) ?mk) (wg_me g) (WSyncBatchResponse r ?mk)"
    unfolding assms(3) by (rule delivers_response [OF assms(9,10)]) (rule note_max_keys_wf, simp)
  moreover have "\<forall>k m. (k, m) \<in> set us \<longrightarrow> at_least ?rs k m"
    using at_least_writes [OF assms(2)] by (simp add: handle_sync_batch_store fold_apply_records)
  moreover have "w_dispatch (wg_me h) rd2 (WSyncBatch r ?req) st2 rs = (st2, ?rs, [WSyncBatchResponse (me_id (wg_me g)) ?mk])"
    using handled by (simp add: Let_def)
  ultimately show ?thesis using out batch ss(1) by (metis sync_batch_request.select_convs(2) w_dispatch.simps(9))
qed

definition demo_peer :: "string \<Rightarrow> string \<Rightarrow> wgrpc" where
  "demo_peer i j = (new_wgrpc \<lparr>me_id = NodeId i, me_host = i, me_port = 1\<rparr>)
     \<lparr>wg_worker_sessions := [(NodeId j, open_session [])]\<rparr>"

theorem sync_batch_round_trip_witness:
  "\<exists>req mk st'. delivers (demo_peer ''a'' ''b'') (WSyncBatch (NodeId ''b'') req) (wg_me (demo_peer ''b'' ''a''))
       (WSyncBatch (NodeId ''b'') req) \<and>
     delivers (demo_peer ''b'' ''a'') (WSyncBatchResponse (NodeId ''a'') mk) (wg_me (demo_peer ''a'' ''b''))
       (WSyncBatchResponse (NodeId ''b'') mk) \<and>
     (\<exists>ss. sync_entry (PartitionId 1) (NodeId ''b'') st' = Some (ss\<lparr>ss_confirmed := True\<rparr>))"
proof -
  let ?s = "apply_mutation (Key 1, Delete 5) new_runtime_store" and ?g = "demo_peer ''a'' ''b''" and ?h = "demo_peer ''b'' ''a''"
  let ?req = "\<lparr>sb_sender_id = NodeId ''a'', sb_records = [mutation_to_domain (Key 1, Delete 5)]\<rparr>"
  have call: "sync_partition_to_recipient (0, 0) ?s (wg_me ?g) (PartitionId 1) (NodeId ''b'') [] =
      (False, demo_sent, [WSyncBatch (NodeId ''b'') ?req])" by code_simp
  have wf: "store_wf ?s" "store_wf new_runtime_store" "NodeId ''b'' = me_id (wg_me ?h)" and nonempty: "[WSyncBatch (NodeId ''b'') ?req] \<noteq> []"
    by (simp_all add: store_wf_apply demo_peer_def new_wgrpc_def)
  have state: "hm_get (w_sync demo_sent_state) (PartitionId 1) = Some demo_sent" by (simp add: demo_sent_state_def)
  have sessions: "hm_get (wg_worker_sessions ?g) (NodeId ''b'') = Some (open_session [])" "\<not> closed (open_session [])"
    "hm_get (wg_worker_sessions ?h) (me_id (wg_me ?g)) = Some (open_session [])" "me_id (wg_me ?g) = NodeId ''a''"
    by (simp_all add: demo_peer_def new_wgrpc_def open_session_def)
  show ?thesis
    using sync_batch_round_trip [OF wf call nonempty state sessions(1,2,3,2)] sessions(4) by metis
qed

end
