(* ===== verification/Spec2Isabelle.thy ===== *)
theory Spec2Isabelle
  imports Election_Safety Migration_Progress Node_End Store_Threads Assignment Client_Connection Client_Streams
    Bounded_Channels Session_Lifecycle Partition_Removal Change_Retry Sync_Delivery
begin

text \<open>
  \<^bold>\<open>A verified model of the distributed key-value store\<close>

  The program is a cluster of two kinds of nodes, one executable (\<open>crates/no-sql-store\<close>) and a client
  library (\<open>crates/no-sql-store-client\<close>). \<^emph>\<open>Managers\<close> keep the membership of the cluster, elect a leader among
  themselves, and the leader assigns the 4096 partitions of the key space to workers. \<^emph>\<open>Workers\<close> hold
  the records in memory, serve clients and hand partitions over to each other. The \<^emph>\<open>client\<close> reads the
  assignment from the managers, writes to the master and all replicas of a key's partition, and reads
  from the master first.

  \<^bold>\<open>Parts and theories\<close>

  \<^item> \<^theory_text>\<open>Store_Prelude\<close>: machine integers, hash maps and sets as association lists, the sorted map, and the
    interfaces (locales) of dictionaries, ordered maps with cursors and last-write-wins stores, with their
    lemmas and their interpretations on the list operations.
  \<^item> \<^theory_text>\<open>Epochs\<close>: the interface (locales) of whatever keeps an epoch and a leader; managers, workers and
    clients interpret it on their steps.
  \<^item> \<^theory_text>\<open>Cluster_Common\<close>: \<open>common.rs\<close> and \<open>cli.rs\<close>. Node identifiers, nodes, partitions, configuration,
    validation of the command line.
  \<^item> \<^theory_text>\<open>Runtime_Store\<close>: \<open>worker/runtime_store.rs\<close>. The record \<open>runtime_store\<close> is the \<open>DashMap\<close> of partitions, each
    with its records, the journal of changed keys by revision and the number of active writers; one
    function per method.
  \<^item> \<^theory_text>\<open>Store_Threads\<close>: one partition under concurrent calls, each atomic operation of the source a step
    (\<open>conc_reachable\<close>).
  \<^item> \<^theory_text>\<open>Manager_State\<close>, \<^theory_text>\<open>Manager_Election\<close>, \<^theory_text>\<open>Manager_Partitions\<close>, \<^theory_text>\<open>Manager_Service\<close>: \<open>manager/service.rs\<close> and
    \<open>manager/service/\<close>. The handlers, the assignment of partitions, \<open>tick\<close>, \<open>process\<close>, and the states a manager
    reaches (\<open>manager_reachable\<close>, the loop of \<open>start_service\<close>).
  \<^item> \<^theory_text>\<open>Manager_Overflow\<close>: the sums of a manager's tick in a build with overflow checks (\<open>checked_tick\<close>,
    \<open>checked_process\<close>), and when none of them overflows.
  \<^item> \<^theory_text>\<open>Election_Safety\<close>: many managers and the votes between them (\<open>cluster_reachable\<close>).
  \<^item> \<^theory_text>\<open>Wire_Format\<close>, \<^theory_text>\<open>Sessions\<close>, \<^theory_text>\<open>Manager_Grpc\<close>, \<^theory_text>\<open>Worker_Grpc\<close>: the records of the \<open>.proto\<close> files, \<open>conversions.rs\<close>,
    and the gRPC layers: sessions, output, input, dialling, connection set-up, requests of clients.
  \<^item> \<^theory_text>\<open>Session_Lifecycle\<close>: the tables of sessions of many managers with the streams and reader tasks behind
    them (\<open>grpc/session.rs\<close>, \<open>manager/grpc.rs\<close>, \<open>manager_connection.rs\<close>; \<open>session_reachable\<close>).
  \<^item> \<^theory_text>\<open>Manager_Node\<close>, \<^theory_text>\<open>Worker_Process\<close>: a whole process, its service and its gRPC layer with the two channels
    between them, all tasks in any order (\<open>manager/mod.rs\<close>, \<open>worker/mod.rs\<close>; \<open>manager_node_reachable\<close>,
    \<open>worker_process_reachable\<close>). When the output loop panics its channel goes with it and what the service
    sends later is discarded.
  \<^item> \<^theory_text>\<open>Bounded_Channels\<close>: the same processes with channels of 100 messages, sessions of 32 events, and sends
    that wait. One transition system (\<open>task_step\<close>) with the services and output loops of both kinds of node as its parameters; the locale
    \<open>task_system\<close> is interpreted on the manager and on the worker.
  \<^item> \<^theory_text>\<open>Worker_State\<close>, \<^theory_text>\<open>Worker_Sync\<close>, \<^theory_text>\<open>Worker_Service\<close>: \<open>worker/service.rs\<close> and \<open>worker/service/\<close>. The handlers and the
    transfer of partitions (\<open>partitions.rs\<close>): snapshot in pages, then the journal, per recipient.
  \<^item> \<^theory_text>\<open>Migration\<close>, \<^theory_text>\<open>Migration_Progress\<close>: a sender and a recipient with the messages between them
    (\<open>migration_reachable\<close>), and rounds of batch and acknowledgement (\<open>transfer_rounds\<close>).
  \<^item> \<^theory_text>\<open>Sync_Delivery\<close>: a batch and its acknowledgement over sessions and wire, from service to service.
    \<^theory_text>\<open>Partition_Removal\<close>: when \<open>sync_partitions\<close> removes a partition from the store. \<^theory_text>\<open>Change_Retry\<close>: repeated
    batches of the journal.
  \<^item> \<^theory_text>\<open>Worker_Node\<close>, \<^theory_text>\<open>Node_Start\<close>: the running worker (\<open>worker_reachable\<close>: messages, ticks, client requests, clean-up
    of expired records, \<open>worker/mod.rs\<close>), and the start of either node (\<open>main.rs\<close>, \<open>manager/mod.rs\<close>).
    \<^theory_text>\<open>Node_End\<close>: what ends a run and what the process then reports.
  \<^item> \<^theory_text>\<open>Client\<close>: the operations of the client library, over a network given by its operations.
  \<^item> \<^theory_text>\<open>Client_Connection\<close>: \<open>connection.rs\<close> and the worker's end of a client stream: concurrent calls on one
    connection (\<open>conn_reachable\<close>).
  \<^item> \<^theory_text>\<open>Client_Streams\<close>: connecting and the tasks that follow the managers (\<open>client_run\<close>).
  \<^item> \<^theory_text>\<open>Replication\<close>: the client on top of workers. The locale \<open>worker_network\<close> says what the client needs of
    a worker; its interpretation is on \<open>handle_client_request\<close> of \<^theory_text>\<open>Worker_Grpc\<close>.
  \<^item> \<^theory_text>\<open>Assignment\<close>: from the leader's recalculation over the wire to clients and workers.

  \<^bold>\<open>How code becomes definitions\<close>

  Structs are records, enums datatypes, \<open>HashMap\<close> and \<open>HashSet\<close> lists without repeated keys (\<open>hm_wf\<close>), \<open>BTreeMap\<close> and
  \<open>SkipMap\<close> lists sorted by key (\<open>sm_wf\<close>). \<open>u64\<close>, \<open>u32\<close>, \<open>u16\<close> are words with wrap-around, as in a
  release build, \<open>usize\<close> of sizes and indices a natural number. A build with overflow checks panics where a
  sum or difference wraps: \<^theory_text>\<open>Manager_Overflow\<close> models this for managers; in workers it concerns the heartbeat
  interval added to the own last heartbeat and the age of a batch (\<open>retry_timed_out_sync\<close>), which are left
  as they are in a release build. A handler takes the state and returns it with the messages it pushes to \<open>output\<close>.
  \<open>expect\<close>, \<open>unwrap\<close> and indexing that may panic give \<^const>\<open>None\<close>. Clock readings and random numbers are
  arguments (\<open>readings\<close>, \<open>wreadings\<close>). \<open>put\<close> and \<open>delete_at\<close> hold the lock of their partition from entry to
  exit and are single steps; requests in flight at once are therefore sequences of such steps, and
  \<open>join_all\<close> over targets runs them one by one. UUID parsing and the transport are parameters.

  \<^bold>\<open>What the theorems show\<close>

  \<^item> Store: last write wins over any log of writes, replicas that got the same writes in different
    orders agree, concurrent calls on a partition take effect one after the other, a stable revision
    bounds the journal, tombstones block older puts, reads and the expiration scan remove exactly expired
    records, pages and journal miss nothing, pruning keeps what a reader needs, all operations keep
    the invariant.
  \<^item> Managers: every partition gets its ring of owners, replicas are distinct, masters balanced,
    moves are tracked, recalculation settles; epochs advance over whole runs; a unanimous candidate
    wins; at most one of two managers that know each other wins an epoch; a whole manager process
    panics neither in its service nor on what the service sends, in a build with overflow checks as long as
    times and epochs are below the end of their range.
  \<^item> Composition: an assignment arrives at clients and workers as the leader made it.
  \<^item> Transfer: completion implies that the recipient has everything; without writes and losses a
    transfer completes; batches and acknowledgements match, over the wire too; who sends to whom; a
    partition is removed only when every recipient has it, as long as no writer is active and the
    recipients stay. Workers: the invariant of every state a whole process reaches, epochs advance over
    whole runs.
  \<^item> Channels: their bounds hold, and while the output loop neither dials nor waits for room in a session the
    two loops of a node are stuck exactly when each waits for room in the other's channel.
  \<^item> gRPC: decoded states are the encoded ones, messages reach the addressee as sent, whatever is on
    the streams the services get well-formed messages; session entries have their readers unless these
    panicked on a malformed id, and one stream between two managers keeps both connected.
  \<^item> Client: bounded retries, reads of the newest answer, managers tried in order and followed for ever,
    topology monotone over whole runs; calls on one connection get their own answers and none is lost that
    was made while the stream lived; with workers: a put that succeeds is at every owner, and what was written is read back.
  \<^item> Shortcomings, as theorems about the code as it is: \<open>late_vote_takes_epoch_back\<close>, \<open>sole_manager_never_leads\<close>,
    \<open>replication_factor_above_workers\<close>, \<open>worker_stays_isolated\<close>, \<open>lost_recipients_drop_partition\<close>,
    \<open>active_writer_drops_partition\<close>, \<open>retry_skips_changes\<close>, \<open>channels_lock_up\<close>, \<open>crossed_dials_disconnect\<close>,
    \<open>malformed_id_silences_manager\<close>, \<open>malformed_id_silences_worker\<close>, \<open>late_call_waits\<close>, \<open>panic_leaves_entry\<close>,
    \<open>heartbeat_ends_checked_service\<close>, \<open>failed_server_reported_as_success\<close>.

  \<^bold>\<open>Bounds\<close>

  \<open>next_changes\<close> loops over pages of the journal with one unit of fuel per entry and one more, which
  \<open>next_changes_enough\<close> shows sufficient: without a batch no journalled record is left. \<open>read_pages\<close>, a loop of the
  specification only, ends with one unit per record and one more. The retry loop of the client counts
  down the attempts of its configuration. All other recursion is structural.

  \<^bold>\<open>Assumptions\<close>

  Revision and epoch counters do not overflow where a theorem says so. The transfer theorem has
  ordered delivery, possible loss of everything on its way, and repeated batches in the snapshot phase
  once nothing is on its way; that the recipient holds a mutation is compared by creation time (\<open>at_least\<close>), so
  of two mutations with the same time it may hold the other one; an overdue batch of the journal phase is not part of it, because
  \<open>retry_timed_out_sync\<close> then forgets the revision of the repeated batch (\<^theory_text>\<open>Change_Retry\<close>). The recipient's expired records are
  not removed while a transfer runs. The election theorem lets the clock of a manager differ between
  its own elections and nothing else of clocks. The theorems on calls hold for the first \<open>2 ^ 32\<close>
  request ids of a client, after which ids repeat.

  \<^bold>\<open>Not modelled\<close>

  The tonic transport and TLS behind a session (its outcomes are arguments and steps); timers; locks on the
  tables of sessions; how the tasks stop once a run has ended; most log output; UUID
  generation and the clock; the generated protocol code; tests. The systems of services and clients take each call of the store as one step;
  \<^theory_text>\<open>Store_Threads\<close> justifies this for records and journal, not for the stored revision while records
  expire, and a synchronisation there sees no writer in the middle of a removal.
\<close>

end
